(* ===== verification/Prelude.thy ===== *)
theory Prelude
  imports Main "HOL-Library.Word" "HOL-Library.Finite_Map" "HOL-Library.Multiset"
begin

text \<open>
  Shared vocabulary of the development: machine integers and 20/32-byte identifiers as words,
  hash maps as finite maps, and the generic facts about finite maps, bounded histories and
  wrapping counters that the component theories use.

  A \<open>HashMap\<close> of the code is a finite map.  Its iteration order is unspecified; where
  the code iterates, the model walks \<open>sorted_list_of_fmap\<close>, one fixed enumeration,
  and the component proves that every other enumeration gives the same result.
\<close>

section \<open>Names of the machine types\<close>

type_synonym u8 = "8 word"
type_synonym u64 = "64 word"
type_synonym address = "160 word"
type_synonym b256 = "256 word"
type_synonym u256 = "256 word"
type_synonym bytes = "u8 list"

named_theorems fm_simps \<open>lookup and domain facts about the finite-map operations of the model\<close>
named_theorems hist_simps \<open>facts about the bounded histories\<close>

section \<open>Finite maps\<close>

text \<open>\<open>HashMap::len\<close>.\<close>

definition fm_len :: "('k, 'v) fmap \<Rightarrow> nat" where
  "fm_len m = fcard (fmdom m)"

text \<open>\<open>HashMap::is_empty\<close>.\<close>

definition fm_is_empty :: "('k, 'v) fmap \<Rightarrow> bool" where
  "fm_is_empty m \<longleftrightarrow> fmdom m = {||}"

text \<open>\<open>if let Some(known) = map.get_mut(k) { *known = v }\<close>.\<close>

definition set_known :: "'k \<Rightarrow> 'v \<Rightarrow> ('k, 'v) fmap \<Rightarrow> ('k, 'v) fmap" where
  "set_known k v m = (case fmlookup m k of None \<Rightarrow> m | Some _ \<Rightarrow> fmupd k v m)"

lemma fm_is_empty_iff [fm_simps]: "fm_is_empty m \<longleftrightarrow> (\<forall>k. fmlookup m k = None)"
  by (auto simp: fm_is_empty_def fmdom_notI fset_eq_iff fmlookup_dom_iff)

lemma fm_is_empty_len: "fm_is_empty m \<longleftrightarrow> fm_len m = 0"
  by (simp add: fm_is_empty_def fm_len_def)

lemma fm_len_empty [simp]: "fm_len fmempty = 0"
  by (simp add: fm_len_def)

lemma fm_is_empty_fmempty [simp]: "fm_is_empty fmempty"
  by (simp add: fm_is_empty_def)

lemma fmlookup_set_known [fm_simps]:
  "fmlookup (set_known k v m) q = (if q = k \<and> fmlookup m k \<noteq> None then Some v else fmlookup m q)"
  by (auto simp: set_known_def split: option.splits)

lemma fmdom_set_known [simp]: "fmdom (set_known k v m) = fmdom m"
  by (auto simp: set_known_def fmdomI finsert_absorb split: option.splits)

lemma map_of_map_inj:
  "inj f \<Longrightarrow> map_of (map (\<lambda>(k, v). (f k, v)) xs) (f k) = map_of xs k"
  by (induction xs) (auto dest: injD)

text \<open>
  A loop that writes a list of distinct entries into the keys that are already there: what it
  leaves does not depend on the order of the entries.
\<close>

lemma fmlookup_fold_set_known:
  assumes "distinct (map fst xs)"
  shows "fmlookup (fold (\<lambda>(k, v). set_known k v) xs m) q =
    (case fmlookup m q of None \<Rightarrow> None
     | Some w \<Rightarrow> Some (case map_of xs q of None \<Rightarrow> w | Some v \<Rightarrow> v))"
  using assms
proof (induction xs arbitrary: m)
  case Nil
  then show ?case by (simp split: option.splits)
next
  case (Cons x xs)
  obtain k v where x: "x = (k, v)" by (cases x)
  with Cons.prems have "map_of xs k = None" by (auto simp: map_of_eq_None_iff)
  with x Cons show ?case by (auto simp: fm_simps split: option.splits)
qed

lemma fmlookup_fold_fmupd:
  assumes "distinct (map fst xs)"
  shows "fmlookup (fold (\<lambda>(k, v). fmupd k v) xs m) q =
    (case map_of xs q of None \<Rightarrow> fmlookup m q | Some v \<Rightarrow> Some v)"
  using assms
proof (induction xs arbitrary: m)
  case Nil
  then show ?case by simp
next
  case (Cons x xs)
  obtain k v where x: "x = (k, v)" by (cases x)
  with Cons.prems have "map_of xs k = None" by (auto simp: map_of_eq_None_iff)
  with x Cons show ?case by (auto split: option.splits)
qed

lemma fmlookup_fold_fmupd_map:
  assumes "distinct (map fst xs)"
  shows "fmlookup (fold (\<lambda>(k, v). fmupd k (g v)) xs fmempty) q = map_option g (map_of xs q)"
proof -
  have "fold (\<lambda>(k, v). fmupd k (g v)) xs m = fold (\<lambda>(k, v). fmupd k v) (map (\<lambda>(k, v). (k, g v)) xs) m"
    for m by (induction xs arbitrary: m) auto
  moreover have "map fst (map (\<lambda>(k, v). (k, g v)) xs) = map fst xs" by auto
  ultimately show ?thesis
    using assms by (simp add: fmlookup_fold_fmupd map_of_map del: map_map split: option.split)
qed

lemma sorted_list_of_fset_distinct [simp]: "distinct (sorted_list_of_fset S)"
  by (simp add: sorted_list_of_fset.rep_eq)

lemma sorted_list_of_fset_sorted [simp]: "sorted (sorted_list_of_fset S)"
  by (simp add: sorted_list_of_fset.rep_eq)

lemma map_fst_sorted_list_of_fmap [simp]:
  "map fst (sorted_list_of_fmap m) = sorted_list_of_fset (fmdom m)"
  by (simp add: sorted_list_of_fmap_def comp_def)

lemma fst_set_sorted_list_of_fmap [simp]:
  "fst ` set (sorted_list_of_fmap m) = fset (fmdom m)"
  by (simp flip: set_map add: sorted_list_of_fset_simps)

lemma map_of_sorted_list_of_fmap [simp]: "map_of (sorted_list_of_fmap m) = fmlookup m"
proof
  fix k
  show "map_of (sorted_list_of_fmap m) k = fmlookup m k"
  proof (cases "fmlookup m k")
    case None
    then have "k \<notin> fst ` set (sorted_list_of_fmap m)"
      by (simp add: fmdom_notI)
    with None show ?thesis by (simp add: map_of_eq_None_iff)
  next
    case (Some v)
    then have "(k, v) \<in> set (sorted_list_of_fmap m)"
      by (auto simp: sorted_list_of_fmap_def image_iff fmdomI sorted_list_of_fset_simps
          intro!: bexI [of _ k])
    with Some show ?thesis by (simp add: map_of_eq_Some_iff)
  qed
qed

text \<open>\<open>entries_of xs m\<close>: the list \<open>xs\<close> is an iteration order of the hash map \<open>m\<close>.\<close>

definition entries_of :: "('k \<times> 'v) list \<Rightarrow> ('k, 'v) fmap \<Rightarrow> bool" where
  "entries_of xs m \<longleftrightarrow> distinct (map fst xs) \<and> map_of xs = fmlookup m"

lemma entries_of_sorted [simp]: "entries_of (sorted_list_of_fmap m) m"
  by (simp add: entries_of_def)

lemma entries_of_set: "entries_of xs m \<Longrightarrow> (k, v) \<in> set xs \<longleftrightarrow> fmlookup m k = Some v"
  by (auto simp: entries_of_def dest: map_of_is_SomeI) (metis map_of_SomeD)

section \<open>Wrapping counters\<close>

lemma unat_suc_le: "unat (w + 1 :: 'a::len word) \<le> Suc (unat w)"
  by (cases "w + 1 = 0") (simp_all add: unat_plus_simple unat_word_ariths)

lemma unat_suc_bound:
  "unat (w :: u64) < 2 ^ 64 - 1 \<Longrightarrow> unat (w + 1) = Suc (unat w)"
  by (simp add: unat_word_ariths)

lemma word_add_nat_inj:
  assumes "g + of_nat n = (g :: u64)" and "n < 2 ^ 64"
  shows "n = 0"
proof -
  from assms(1) have "of_nat n = (0 :: u64)" by simp
  then have "2 ^ 64 dvd n" by (simp add: word_of_nat_eq_0_iff)
  with assms(2) show ?thesis by (auto dest: dvd_imp_le)
qed

section \<open>Lists\<close>

lemma find_append:
  "find P (xs @ ys) = (case find P xs of None \<Rightarrow> find P ys | Some x \<Rightarrow> Some x)"
  by (induction xs) auto

lemma find_None_not: "find P xs = None \<longleftrightarrow> (\<forall>x \<in> set xs. \<not> P x)"
  by (auto simp: find_None_iff)

section \<open>Big-endian bytes\<close>

text \<open>\<open>U256::to_be_bytes::<32>\<close> and \<open>from_be_bytes::<32>\<close>.\<close>

fun be_digits :: "nat \<Rightarrow> nat \<Rightarrow> u8 list" where
  "be_digits 0 x = []"
| "be_digits (Suc n) x = be_digits n (x div 256) @ [of_nat (x mod 256)]"

definition be_value :: "u8 list \<Rightarrow> nat" where
  "be_value bs = foldl (\<lambda>acc b. acc * 256 + unat b) 0 bs"

definition to_be_bytes :: "u256 \<Rightarrow> u8 list" where
  "to_be_bytes w = be_digits 32 (unat w)"

definition from_be_bytes :: "u8 list \<Rightarrow> u256" where
  "from_be_bytes bs = of_nat (be_value bs)"

lemma be_value_snoc: "be_value (bs @ [b]) = be_value bs * 256 + unat b"
  by (simp add: be_value_def)

lemma be_value_digits: "be_value (be_digits n x) = x mod 256 ^ n"
proof (induction n arbitrary: x)
  case 0
  then show ?case by (simp add: be_value_def)
next
  case (Suc n)
  have "unat (of_nat (x mod 256) :: u8) = x mod 256"
    by (simp add: unat_of_nat)
  with Suc show ?case
    by (simp add: be_value_snoc mod_mult2_eq mult.commute)
qed

lemma from_to_be_bytes [simp]: "from_be_bytes (to_be_bytes w) = w"
proof -
  have "unat w < 2 ^ LENGTH(256)" by (rule unsigned_less)
  then have "unat w < 256 ^ 32" by simp
  then show ?thesis by (simp add: from_be_bytes_def to_be_bytes_def be_value_digits)
qed

section \<open>Machines\<close>

text \<open>
  Running a fallible operation over a list of inputs: \<open>None\<close> is a panic, and the rest of the
  inputs is not looked at.
\<close>

fun run_all :: "('i \<Rightarrow> 's \<Rightarrow> 's option) \<Rightarrow> 'i list \<Rightarrow> 's \<Rightarrow> 's option" where
  "run_all step [] s = Some s"
| "run_all step (i # is) s = (case step i s of None \<Rightarrow> None | Some s' \<Rightarrow> run_all step is s')"

lemma run_all_append:
  "run_all step (xs @ ys) s = (case run_all step xs s of None \<Rightarrow> None | Some s' \<Rightarrow> run_all step ys s')"
  by (induction xs arbitrary: s) (auto split: option.split)

lemma run_all_defined:
  "(\<And>i s. i \<in> set is \<Longrightarrow> step i s \<noteq> None) \<Longrightarrow> run_all step is s \<noteq> None"
  by (induction "is" arbitrary: s) (auto split: option.split)

text \<open>An interface for facts that every step of a machine keeps.\<close>

locale machine_invariant =
  fixes step :: "'i \<Rightarrow> 's \<Rightarrow> 's option" and inv :: "'s \<Rightarrow> bool"
  assumes step_keeps: "step i s = Some s' \<Longrightarrow> inv s \<Longrightarrow> inv s'"
begin

lemma run_keeps: "run_all step is s = Some s' \<Longrightarrow> inv s \<Longrightarrow> inv s'"
  by (induction "is" arbitrary: s) (auto split: option.splits intro: step_keeps)

end

text \<open>A machine that implements a specification through an abstraction function.\<close>

locale machine_refines =
  fixes step :: "'i \<Rightarrow> 's \<Rightarrow> 's option" and spec :: "'i \<Rightarrow> 'a \<Rightarrow> 'a" and abs :: "'s \<Rightarrow> 'a"
  assumes step_refines: "step i s = Some s' \<Longrightarrow> abs s' = spec i (abs s)"
begin

lemma run_refines: "run_all step is s = Some s' \<Longrightarrow> abs s' = fold spec is (abs s)"
  by (induction "is" arbitrary: s) (auto split: option.splits simp: step_refines)

end

end
