(* ===== verification/Sim_Types.thy ===== *)
theory Sim_Types
  imports Prelude
begin

text \<open>
  The data of \<open>rex-sim/src/error.rs\<close> and \<open>rex-sim/src/fetch.rs\<close>: errors, the fetch
  configuration, the requests sent to the fetch managers and the caches they hand back.

  Three payload types of other crates are only moved around by this program and stay type
  parameters throughout: \<open>'c\<close> for revm's \<open>Bytecode\<close>, \<open>'e\<close> for alloy's transport error
  and, in later theories, \<open>'l\<close> for a log entry and \<open>'w\<close> for the withdrawals of a block.
\<close>

section \<open>Errors\<close>

datatype fetch_kind = FkAccount | FkCode | FkStorage | FkBlockHash

datatype 'e sim_error =
    FetcherClosed
  | FetchTimeout fetch_kind u64
  | StaleState
  | MissingAddressHint b256
  | CodeHashMismatch address b256 b256
  | BlockNotFound u64
  | Rpc 'e

section \<open>Accounts\<close>

text \<open>revm's \<open>AccountInfo\<close>, with the fields the code's struct literals write.\<close>

record 'c account_info =
  ai_balance :: u256
  ai_nonce :: u64
  ai_code_hash :: b256
  ai_account_id :: "u64 option"
  ai_code :: "'c option"

text \<open>
  The part of an account that is consensus state: the node's RPC path leaves the cached
  bytecode out (\<open>code: None\<close>), the execution outcome may carry it.
\<close>

definition ai_core :: "'c account_info \<Rightarrow> u256 \<times> u64 \<times> b256" where
  "ai_core i = (ai_balance i, ai_nonce i, ai_code_hash i)"

section \<open>Configuration\<close>

definition default_rpc_timeout_ms :: u64 where
  "default_rpc_timeout_ms = 10000"

definition default_wait_timeout_ms :: u64 where
  "default_wait_timeout_ms = 30000"

definition default_flush_timeout_ms :: u64 where
  "default_flush_timeout_ms = 15000"

record fetch_config =
  fc_account :: u64
  fc_code :: u64
  fc_storage :: u64
  fc_block_hash :: u64
  fc_rpc_timeout_ms :: u64
  fc_wait_timeout_ms :: u64
  fc_flush_timeout_ms :: u64

definition fetch_config_default :: fetch_config where
  "fetch_config_default = \<lparr>
     fc_account = 100,
     fc_code = 100,
     fc_storage = 100,
     fc_block_hash = 100,
     fc_rpc_timeout_ms = default_rpc_timeout_ms,
     fc_wait_timeout_ms = default_wait_timeout_ms,
     fc_flush_timeout_ms = default_flush_timeout_ms\<rparr>"

definition fetch_config_uniform :: "u64 \<Rightarrow> fetch_config" where
  "fetch_config_uniform n = fetch_config_default\<lparr>
     fc_account := n,
     fc_code := n,
     fc_storage := n,
     fc_block_hash := n\<rparr>"

lemmas fetch_config_defs =
  fetch_config_default_def fetch_config_uniform_def default_rpc_timeout_ms_def
  default_wait_timeout_ms_def default_flush_timeout_ms_def

section \<open>Requests\<close>

record account_request =
  ar_address :: address
  ar_block :: u64
  ar_block_hash :: b256

record code_request =
  cr_code_hash :: b256
  cr_block :: u64
  cr_address_hint :: "address option"

record code_registration =
  reg_code_hash :: b256
  reg_address :: address

record storage_request =
  sr_address :: address
  sr_index :: u256
  sr_block :: u64
  sr_block_hash :: b256

record block_hash_request =
  br_number :: u64
  br_at_block_hash :: b256

section \<open>Caches\<close>

record ('k, 'v) tagged_cache =
  tc_block_hash :: b256
  tc_data :: "('k, 'v) fmap"

definition tagged_cache_default :: "('k, 'v) tagged_cache" where
  "tagged_cache_default = \<lparr>tc_block_hash = 0, tc_data = fmempty\<rparr>"

definition is_valid_for :: "('k, 'v) tagged_cache \<Rightarrow> b256 \<Rightarrow> bool" where
  "is_valid_for c block_hash \<longleftrightarrow> fm_is_empty (tc_data c) \<or> tc_block_hash c = block_hash"

type_synonym 'c account_cache = "(address, 'c account_info) tagged_cache"
type_synonym storage_cache = "(address \<times> u256, u256) tagged_cache"
type_synonym block_hash_cache = "(u64, b256) tagged_cache"

record 'c code_cache =
  cc_data :: "(b256, 'c) fmap"

definition code_cache_default :: "'c code_cache" where
  "code_cache_default = \<lparr>cc_data = fmempty\<rparr>"

lemma is_valid_for_default [simp]: "is_valid_for tagged_cache_default h"
  by (simp add: is_valid_for_def tagged_cache_default_def)

lemma is_valid_for_lookup:
  "is_valid_for c h \<Longrightarrow> fmlookup (tc_data c) k = Some v \<Longrightarrow> tc_block_hash c = h"
  by (auto simp: is_valid_for_def fm_simps)

end
