(* ===== verification/Validation.thy ===== *)
theory Validation
  imports Sim_Types
begin

text \<open>
  \<open>rex-sim/src/validation.rs\<close>: the continuity verdicts.  A notification is accepted when
  the chain it carries connects to the block the snapshot stands on; \<open>connects\<close> and
  \<open>rewinds\<close> state that contract without the code's early returns.
\<close>

section \<open>Verdicts\<close>

record block_info =
  bi_number :: u64
  bi_hash :: b256
  bi_parent_hash :: b256

record current_state =
  cs_block :: u64
  cs_block_hash :: b256
  cs_stale :: bool

definition cs_initial :: current_state where
  "cs_initial = \<lparr>cs_block = 0, cs_block_hash = 0, cs_stale = False\<rparr>"

definition is_initial :: "current_state \<Rightarrow> bool" where
  "is_initial cs \<longleftrightarrow> cs_block cs = 0 \<or> cs_block_hash cs = 0"

datatype commit_validation =
    CvValid
  | CvAcceptAny
  | CvGap u64 u64
  | CvOverlapMismatch

fun cv_is_acceptable :: "commit_validation \<Rightarrow> bool" where
  "cv_is_acceptable CvValid = True"
| "cv_is_acceptable CvAcceptAny = True"
| "cv_is_acceptable (CvGap _ _) = False"
| "cv_is_acceptable CvOverlapMismatch = False"

text \<open>The scan both verdicts share: does a block of the chain have our number and hash?\<close>

fun scan_blocks :: "u64 \<Rightarrow> b256 \<Rightarrow> (u64 \<times> b256) list \<Rightarrow> bool" where
  "scan_blocks block block_hash [] = False"
| "scan_blocks block block_hash ((num, h) # rest) =
     (if num = block \<and> h = block_hash then True else scan_blocks block block_hash rest)"

definition validate_chain_committed ::
  "current_state \<Rightarrow> block_info \<Rightarrow> (u64 \<times> b256) list \<Rightarrow> commit_validation" where
  "validate_chain_committed current first_block chain_blocks =
    (if is_initial current \<or> cs_stale current then CvAcceptAny
     else if bi_number first_block = cs_block current + 1
           \<and> bi_parent_hash first_block = cs_block_hash current then CvValid
     else if bi_number first_block \<le> cs_block current then
       (if scan_blocks (cs_block current) (cs_block_hash current) chain_blocks
        then CvValid else CvOverlapMismatch)
     else CvGap (cs_block current + 1) (bi_number first_block))"

datatype reorg_validation = RvValid | RvAcceptAny | RvMismatch

fun rv_is_acceptable :: "reorg_validation \<Rightarrow> bool" where
  "rv_is_acceptable RvValid = True"
| "rv_is_acceptable RvAcceptAny = True"
| "rv_is_acceptable RvMismatch = False"

definition validate_chain_reorged ::
  "current_state \<Rightarrow> block_info \<Rightarrow> (u64 \<times> b256) list \<Rightarrow> reorg_validation" where
  "validate_chain_reorged current old_tip old_chain_blocks =
    (if is_initial current then RvAcceptAny
     else if bi_hash old_tip = cs_block_hash current then RvValid
     else if scan_blocks (cs_block current) (cs_block_hash current) old_chain_blocks then RvValid
     else RvMismatch)"

datatype cache_validation = CacheValid | CacheEmpty | CacheStale

definition validate_cache :: "b256 \<Rightarrow> bool \<Rightarrow> b256 \<Rightarrow> cache_validation" where
  "validate_cache cache_block_hash cache_is_empty current_block_hash =
    (if cache_is_empty then CacheEmpty
     else if cache_block_hash = current_block_hash then CacheValid
     else CacheStale)"

lemmas validation_defs =
  validate_chain_committed_def validate_chain_reorged_def is_initial_def

section \<open>The contract of the verdicts\<close>

text \<open>The chain extends our tip, or overlaps it and contains it.\<close>

definition connects :: "current_state \<Rightarrow> block_info \<Rightarrow> (u64 \<times> b256) list \<Rightarrow> bool" where
  "connects cs first_block bs \<longleftrightarrow>
    bi_number first_block = cs_block cs + 1 \<and> bi_parent_hash first_block = cs_block_hash cs
    \<or> bi_number first_block \<le> cs_block cs \<and> (cs_block cs, cs_block_hash cs) \<in> set bs"

definition rewinds :: "current_state \<Rightarrow> block_info \<Rightarrow> (u64 \<times> b256) list \<Rightarrow> bool" where
  "rewinds cs old_tip bs \<longleftrightarrow>
    bi_hash old_tip = cs_block_hash cs \<or> (cs_block cs, cs_block_hash cs) \<in> set bs"

lemma scan_blocks_iff [simp]: "scan_blocks n h bs \<longleftrightarrow> (n, h) \<in> set bs"
  by (induction n h bs rule: scan_blocks.induct) auto

lemma cv_is_acceptable_iff: "cv_is_acceptable v \<longleftrightarrow> v = CvValid \<or> v = CvAcceptAny"
  by (cases v) auto

lemma rv_is_acceptable_iff: "rv_is_acceptable v \<longleftrightarrow> v = RvValid \<or> v = RvAcceptAny"
  by (cases v) auto

lemma commit_AcceptAny_iff:
  "validate_chain_committed cs fb bs = CvAcceptAny \<longleftrightarrow> is_initial cs \<or> cs_stale cs"
  by (auto simp: validate_chain_committed_def)

lemma commit_Valid_iff:
  "validate_chain_committed cs fb bs = CvValid \<longleftrightarrow>
    \<not> is_initial cs \<and> \<not> cs_stale cs \<and> connects cs fb bs"
  by (auto simp: validate_chain_committed_def connects_def)

lemma reorg_Valid_iff:
  "validate_chain_reorged cs ot bs = RvValid \<longleftrightarrow> \<not> is_initial cs \<and> rewinds cs ot bs"
  by (auto simp: validate_chain_reorged_def rewinds_def)

lemma reorg_AcceptAny_iff: "validate_chain_reorged cs ot bs = RvAcceptAny \<longleftrightarrow> is_initial cs"
  by (auto simp: validate_chain_reorged_def)

lemmas verdict_iffs = cv_is_acceptable_iff rv_is_acceptable_iff commit_AcceptAny_iff
  commit_Valid_iff reorg_Valid_iff reorg_AcceptAny_iff

section \<open>Properties\<close>

text \<open>
  The verdict on a commit is one of four, and each is characterised by the contract:
  \<open>AcceptAny\<close> exactly when nothing is held or the snapshot is stale, \<open>Valid\<close> exactly
  when the chain connects, \<open>OverlapMismatch\<close> exactly when it starts at or below the tip
  and does not contain it, and \<open>Gap\<close> exactly when it starts above the tip without linking
  to it.  The reported \<open>expected\<close>/\<open>got\<close> pair is the wrapped successor of the tip and the
  first block's number.
\<close>

theorem commit_verdict_classified:
  "(validate_chain_committed cs fb bs = CvAcceptAny \<longleftrightarrow> is_initial cs \<or> cs_stale cs)
   \<and> (validate_chain_committed cs fb bs = CvValid \<longleftrightarrow>
        \<not> is_initial cs \<and> \<not> cs_stale cs \<and> connects cs fb bs)
   \<and> (validate_chain_committed cs fb bs = CvOverlapMismatch \<longleftrightarrow>
        \<not> is_initial cs \<and> \<not> cs_stale cs \<and> bi_number fb \<le> cs_block cs \<and> \<not> connects cs fb bs)
   \<and> (validate_chain_committed cs fb bs = CvGap e g \<longleftrightarrow>
        \<not> is_initial cs \<and> \<not> cs_stale cs \<and> cs_block cs < bi_number fb \<and> \<not> connects cs fb bs
        \<and> e = cs_block cs + 1 \<and> g = bi_number fb)"
  by (auto simp: validate_chain_committed_def connects_def)

text \<open>
  A reorg is accepted exactly when nothing is held or its old chain ends at our hash or
  contains our block; the stale flag plays no part.
\<close>

lemma reorg_accept_iff:
  "rv_is_acceptable (validate_chain_reorged (cs\<lparr>cs_stale := s\<rparr>) ot bs) \<longleftrightarrow>
    is_initial cs \<or> rewinds cs ot bs"
  by (auto simp: rv_is_acceptable_iff validation_defs rewinds_def)

text \<open>
  The cache verdict agrees with the tag test the merge uses: a cache is merged exactly
  when \<open>validate_cache\<close> does not call it stale.
\<close>

lemma validate_cache_agrees:
  "validate_cache (tc_block_hash c) (fm_is_empty (tc_data c)) h \<noteq> CacheStale \<longleftrightarrow> is_valid_for c h"
  by (auto simp: validate_cache_def is_valid_for_def)

end
