(* ===== verification/Snapshot.thy ===== *)
theory Snapshot
  imports Validation
begin

text \<open>
  \<open>rex-sim/src/state.rs\<close>, the snapshot: the record that holds the state at one block and its
  two bounded histories.  A \<open>VecDeque\<close> is a list, front first.  The abstract reading of a
  history is "the last \<open>RECEIPTS_HISTORY_DEPTH\<close> pushes", \<open>last_n\<close>.
\<close>

section \<open>Blocks and receipts\<close>

text \<open>
  The fields of reth's \<open>SealedHeader\<close> and \<open>Receipt\<close> that the repository reads.
\<close>

record sealed_header =
  sh_number :: u64
  sh_hash :: b256
  sh_parent_hash :: b256
  sh_timestamp :: u64
  sh_mix_hash :: b256
  sh_gas_limit :: u64
  sh_parent_beacon_block_root :: "b256 option"

record 'l receipt =
  rc_status :: bool
  rc_logs :: "'l list"

definition RECEIPTS_HISTORY_DEPTH :: nat where
  "RECEIPTS_HISTORY_DEPTH = 64"

record 'l block_receipts =
  brc_block :: u64
  brc_receipts :: "'l receipt list"
  brc_tx_hashes :: "b256 list"

record block_changed_accounts =
  bca_block :: u64
  bca_accounts :: "address list"

section \<open>The snapshot\<close>

record ('c, 'w, 'l) state_snapshot =
  ss_block :: u64
  ss_block_hash :: b256
  ss_header :: "sealed_header option"
  ss_withdrawals :: "'w option"
  ss_accounts :: "(address, 'c account_info) fmap"
  ss_code :: "(b256, 'c) fmap"
  ss_storage :: "(address \<times> u256, u256) fmap"
  ss_block_hashes :: "(u64, b256) fmap"
  ss_receipts_history :: "'l block_receipts list"
  ss_changed_accounts_history :: "block_changed_accounts list"
  ss_stale :: bool

definition snapshot_default :: "('c, 'w, 'l) state_snapshot" where
  "snapshot_default = \<lparr>
     ss_block = 0,
     ss_block_hash = 0,
     ss_header = None,
     ss_withdrawals = None,
     ss_accounts = fmempty,
     ss_code = fmempty,
     ss_storage = fmempty,
     ss_block_hashes = fmempty,
     ss_receipts_history = [],
     ss_changed_accounts_history = [],
     ss_stale = False\<rparr>"

section \<open>Bounded histories\<close>

text \<open>\<open>while history.len() >= RECEIPTS_HISTORY_DEPTH { history.pop_front(); }\<close>\<close>

fun trim_history :: "'a list \<Rightarrow> 'a list" where
  "trim_history [] = []"
| "trim_history (x # xs) =
     (if RECEIPTS_HISTORY_DEPTH \<le> length (x # xs) then trim_history xs else x # xs)"

definition receipts :: "('c, 'w, 'l) state_snapshot \<Rightarrow> u64 \<Rightarrow> 'l receipt list option" where
  "receipts s block =
    map_option brc_receipts (find (\<lambda>r. brc_block r = block) (ss_receipts_history s))"

definition receipts_and_tx_hashes ::
  "('c, 'w, 'l) state_snapshot \<Rightarrow> u64 \<Rightarrow> ('l receipt list \<times> b256 list) option" where
  "receipts_and_tx_hashes s block =
    map_option (\<lambda>r. (brc_receipts r, brc_tx_hashes r))
      (find (\<lambda>r. brc_block r = block) (ss_receipts_history s))"

definition push_receipts ::
  "u64 \<Rightarrow> 'l receipt list \<Rightarrow> b256 list \<Rightarrow> ('c, 'w, 'l) state_snapshot
    \<Rightarrow> ('c, 'w, 'l) state_snapshot" where
  "push_receipts block rs tx_hashes s = s\<lparr>ss_receipts_history :=
     trim_history (ss_receipts_history s)
       @ [\<lparr>brc_block = block, brc_receipts = rs, brc_tx_hashes = tx_hashes\<rparr>]\<rparr>"

definition truncate_receipts ::
  "u64 \<Rightarrow> ('c, 'w, 'l) state_snapshot \<Rightarrow> ('c, 'w, 'l) state_snapshot" where
  "truncate_receipts from_block s = s\<lparr>ss_receipts_history :=
     filter (\<lambda>r. brc_block r < from_block) (ss_receipts_history s)\<rparr>"

definition changed_accounts :: "('c, 'w, 'l) state_snapshot \<Rightarrow> u64 \<Rightarrow> address list option" where
  "changed_accounts s block =
    map_option bca_accounts (find (\<lambda>c. bca_block c = block) (ss_changed_accounts_history s))"

definition push_changed_accounts ::
  "u64 \<Rightarrow> address list \<Rightarrow> ('c, 'w, 'l) state_snapshot \<Rightarrow> ('c, 'w, 'l) state_snapshot" where
  "push_changed_accounts block accounts s = s\<lparr>ss_changed_accounts_history :=
     trim_history (ss_changed_accounts_history s)
       @ [\<lparr>bca_block = block, bca_accounts = accounts\<rparr>]\<rparr>"

definition truncate_changed_accounts ::
  "u64 \<Rightarrow> ('c, 'w, 'l) state_snapshot \<Rightarrow> ('c, 'w, 'l) state_snapshot" where
  "truncate_changed_accounts from_block s = s\<lparr>ss_changed_accounts_history :=
     filter (\<lambda>c. bca_block c < from_block) (ss_changed_accounts_history s)\<rparr>"

lemmas push_defs = push_receipts_def push_changed_accounts_def

section \<open>Facts about the histories\<close>

definition last_n :: "nat \<Rightarrow> 'a list \<Rightarrow> 'a list" where
  "last_n n xs = drop (length xs - n) xs"

lemma trim_history_last_n [hist_simps]:
  "trim_history xs = last_n (RECEIPTS_HISTORY_DEPTH - 1) xs"
proof (induction xs)
  case Nil
  then show ?case by (simp add: last_n_def)
next
  case (Cons x xs)
  have "63 \<le> length xs \<Longrightarrow> length xs - 62 = Suc (length xs - 63)" by arith
  with Cons show ?case by (auto simp: last_n_def RECEIPTS_HISTORY_DEPTH_def)
qed

lemma last_n_snoc: "0 < n \<Longrightarrow> last_n (n - 1) xs @ [x] = last_n n (xs @ [x])"
  by (auto simp: last_n_def)

lemma last_n_idem: "m \<le> n \<Longrightarrow> last_n m (last_n n xs) = last_n m xs"
  by (auto simp: last_n_def intro!: arg_cong [where f = "\<lambda>k. drop k xs"])

lemma length_last_n [simp]: "length (last_n n xs) = min n (length xs)"
  by (auto simp: last_n_def)

lemma set_last_n_subset: "set (last_n n xs) \<subseteq> set xs"
  by (simp add: last_n_def set_drop_subset)

lemma last_n_all: "length xs \<le> n \<Longrightarrow> last_n n xs = xs"
  by (simp add: last_n_def)

lemma trim_push [hist_simps]:
  "trim_history xs @ [x] = last_n RECEIPTS_HISTORY_DEPTH (xs @ [x])"
  using last_n_snoc [of RECEIPTS_HISTORY_DEPTH xs x]
  by (simp add: trim_history_last_n RECEIPTS_HISTORY_DEPTH_def)

lemma depth_pos [simp]: "0 < RECEIPTS_HISTORY_DEPTH"
  by (simp add: RECEIPTS_HISTORY_DEPTH_def)

lemma last_n_snoc_last_n:
  "0 < n \<Longrightarrow> last_n n (last_n n xs @ [x]) = last_n n (xs @ [x])"
  by (auto simp: last_n_def Suc_diff_le intro!: arg_cong [where f = "\<lambda>k. drop k xs"])

text \<open>A bounded history, pushed to one element at a time, is the tail of all the pushes.\<close>

lemma fold_bounded_push:
  "fold (\<lambda>x h. last_n RECEIPTS_HISTORY_DEPTH (h @ [x])) ys (last_n RECEIPTS_HISTORY_DEPTH xs)
    = last_n RECEIPTS_HISTORY_DEPTH (xs @ ys)"
  by (induction ys arbitrary: xs) (simp_all add: last_n_snoc_last_n)

definition history_ok :: "('c, 'w, 'l) state_snapshot \<Rightarrow> bool" where
  "history_ok s \<longleftrightarrow> length (ss_receipts_history s) \<le> RECEIPTS_HISTORY_DEPTH
     \<and> length (ss_changed_accounts_history s) \<le> RECEIPTS_HISTORY_DEPTH"

lemma history_ok_default [simp]: "history_ok snapshot_default"
  by (simp add: history_ok_def snapshot_default_def)

lemma push_receipts_history [hist_simps]:
  "ss_receipts_history (push_receipts b rs txs s) =
    last_n RECEIPTS_HISTORY_DEPTH (ss_receipts_history s
      @ [\<lparr>brc_block = b, brc_receipts = rs, brc_tx_hashes = txs\<rparr>])"
  by (simp add: push_receipts_def trim_push)

lemma push_changed_history [hist_simps]:
  "ss_changed_accounts_history (push_changed_accounts b as s) =
    last_n RECEIPTS_HISTORY_DEPTH (ss_changed_accounts_history s
      @ [\<lparr>bca_block = b, bca_accounts = as\<rparr>])"
  by (simp add: push_changed_accounts_def trim_push)

lemma push_receipts_frame [simp]:
  "ss_block (push_receipts b rs txs s) = ss_block s"
  "ss_block_hash (push_receipts b rs txs s) = ss_block_hash s"
  "ss_header (push_receipts b rs txs s) = ss_header s"
  "ss_withdrawals (push_receipts b rs txs s) = ss_withdrawals s"
  "ss_accounts (push_receipts b rs txs s) = ss_accounts s"
  "ss_code (push_receipts b rs txs s) = ss_code s"
  "ss_storage (push_receipts b rs txs s) = ss_storage s"
  "ss_block_hashes (push_receipts b rs txs s) = ss_block_hashes s"
  "ss_changed_accounts_history (push_receipts b rs txs s) = ss_changed_accounts_history s"
  "ss_stale (push_receipts b rs txs s) = ss_stale s"
  by (simp_all add: push_receipts_def)

lemma push_changed_frame [simp]:
  "ss_block (push_changed_accounts b as s) = ss_block s"
  "ss_block_hash (push_changed_accounts b as s) = ss_block_hash s"
  "ss_header (push_changed_accounts b as s) = ss_header s"
  "ss_withdrawals (push_changed_accounts b as s) = ss_withdrawals s"
  "ss_accounts (push_changed_accounts b as s) = ss_accounts s"
  "ss_code (push_changed_accounts b as s) = ss_code s"
  "ss_storage (push_changed_accounts b as s) = ss_storage s"
  "ss_block_hashes (push_changed_accounts b as s) = ss_block_hashes s"
  "ss_receipts_history (push_changed_accounts b as s) = ss_receipts_history s"
  "ss_stale (push_changed_accounts b as s) = ss_stale s"
  by (simp_all add: push_changed_accounts_def)

lemma push_receipts_ok: "history_ok s \<Longrightarrow> history_ok (push_receipts b rs txs s)"
  by (simp add: history_ok_def hist_simps)

lemma push_changed_ok: "history_ok s \<Longrightarrow> history_ok (push_changed_accounts b as s)"
  by (simp add: history_ok_def hist_simps)

lemma truncate_ok:
  "history_ok s \<Longrightarrow> history_ok (truncate_receipts f s)"
  "history_ok s \<Longrightarrow> history_ok (truncate_changed_accounts f s)"
  by (auto simp: history_ok_def truncate_receipts_def truncate_changed_accounts_def
      intro: le_trans [OF length_filter_le])

lemma find_map_of:
  "map_option g (find (\<lambda>r. f r = k) (map h xs)) =
    map_of (map (\<lambda>x. (f (h x), g (h x))) xs) k"
  by (induction xs) auto

lemma last_n_map: "last_n n (map f xs) = map f (last_n n xs)"
  by (simp add: last_n_def drop_map)

lemma find_filter_below:
  "find (\<lambda>r. f r = b) (filter (\<lambda>r. f r < (m::u64)) xs) =
    (if b < m then find (\<lambda>r. f r = b) xs else None)"
  by (induction xs) auto

lemma receipts_history_pushes:
  "ss_receipts_history (fold (\<lambda>(b, rs, txs). push_receipts b rs txs) ps s) =
    fold (\<lambda>x h. last_n RECEIPTS_HISTORY_DEPTH (h @ [x]))
      (map (\<lambda>(b, rs, txs). \<lparr>brc_block = b, brc_receipts = rs, brc_tx_hashes = txs\<rparr>) ps)
      (ss_receipts_history s)"
  by (induction ps arbitrary: s) (auto simp: hist_simps)

lemma changed_history_pushes:
  "ss_changed_accounts_history (fold (\<lambda>(b, as). push_changed_accounts b as) ps s) =
    fold (\<lambda>x h. last_n RECEIPTS_HISTORY_DEPTH (h @ [x]))
      (map (\<lambda>(b, as). \<lparr>bca_block = b, bca_accounts = as\<rparr>) ps)
      (ss_changed_accounts_history s)"
  by (induction ps arbitrary: s) (auto simp: hist_simps)

lemma fold_bounded_push_Nil:
  "fold (\<lambda>x h. last_n RECEIPTS_HISTORY_DEPTH (h @ [x])) ys [] = last_n RECEIPTS_HISTORY_DEPTH ys"
  using fold_bounded_push [of ys "[]"] by (simp add: last_n_def)

section \<open>Properties\<close>

text \<open>
  C34: whatever is pushed, the receipts of a block are answered from the last
  \<open>RECEIPTS_HISTORY_DEPTH\<close> pushes and from nothing else: the lookup in that window, the
  earliest entry of a block number winning.
\<close>

theorem receipts_window:
  "receipts_and_tx_hashes
      (fold (\<lambda>(b, rs, txs). push_receipts b rs txs) ps snapshot_default) block =
    map_of (last_n RECEIPTS_HISTORY_DEPTH ps) block"
  by (simp add: receipts_and_tx_hashes_def receipts_history_pushes fold_bounded_push_Nil
      last_n_map find_map_of snapshot_default_def split_beta)

text \<open>
  The same for \<open>changed_accounts(block)\<close>.
\<close>

lemma changed_accounts_window:
  "changed_accounts (fold (\<lambda>(b, as). push_changed_accounts b as) ps snapshot_default) block =
    map_of (last_n RECEIPTS_HISTORY_DEPTH ps) block"
  by (simp add: changed_accounts_def changed_history_pushes fold_bounded_push_Nil last_n_map
      find_map_of snapshot_default_def split_beta)

text \<open>
  Truncation from a block forgets exactly the entries at and above it: every lookup
  below answers as before, every other one finds nothing.
\<close>

lemma truncate_forgets_from_block:
  "receipts_and_tx_hashes (truncate_receipts f s) b =
     (if b < f then receipts_and_tx_hashes s b else None)
   \<and> changed_accounts (truncate_changed_accounts f s) b =
     (if b < f then changed_accounts s b else None)"
  by (simp add: receipts_and_tx_hashes_def changed_accounts_def truncate_receipts_def
      truncate_changed_accounts_def find_filter_below)

end
