(* ===== verification/Transitions.thy ===== *)
theory Transitions
  imports Snapshot
begin

text \<open>
  \<open>rex-sim/src/transitions.rs\<close>: how a snapshot becomes the next one.  A commit merges the
  flushed caches and writes the block's diffs onto the entries it already holds; a reorg
  and a revert rebuild from the history at or below the common ancestor.  The loops over hash
  maps are folds over an enumeration of the entries, and \<open>apply_entries\<close> takes the
  enumeration as an argument, so that order independence can be stated.
\<close>

section \<open>Data\<close>

record cache_merge_stats =
  cms_accounts_merged :: nat
  cms_accounts_discarded :: nat
  cms_storage_merged :: nat
  cms_storage_discarded :: nat
  cms_block_hashes_merged :: nat
  cms_block_hashes_discarded :: nat
  cms_code_merged :: nat

definition stats_default :: cache_merge_stats where
  "stats_default = \<lparr>
     cms_accounts_merged = 0, cms_accounts_discarded = 0,
     cms_storage_merged = 0, cms_storage_discarded = 0,
     cms_block_hashes_merged = 0, cms_block_hashes_discarded = 0,
     cms_code_merged = 0\<rparr>"

definition stats_iter :: "cache_merge_stats \<Rightarrow> (string \<times> nat \<times> nat) list" where
  "stats_iter s = [
     (''accounts'', cms_accounts_merged s, cms_accounts_discarded s),
     (''storage'', cms_storage_merged s, cms_storage_discarded s),
     (''block_hashes'', cms_block_hashes_merged s, cms_block_hashes_discarded s),
     (''code'', cms_code_merged s, 0)]"

record 'c caches =
  ca_accounts :: "'c account_cache"
  ca_code :: "'c code_cache"
  ca_storage :: storage_cache
  ca_block_hashes :: block_hash_cache

definition caches_default :: "'c caches" where
  "caches_default = \<lparr>
     ca_accounts = tagged_cache_default, ca_code = code_cache_default,
     ca_storage = tagged_cache_default, ca_block_hashes = tagged_cache_default\<rparr>"

record 'c account_change =
  ac_info :: "'c account_info option"
  ac_storage :: "(u256, u256) fmap"

record 'c execution_changes =
  ec_accounts :: "(address, 'c account_change) fmap"
  ec_contracts :: "(b256, 'c) fmap"

definition execution_changes_default :: "'c execution_changes" where
  "execution_changes_default = \<lparr>ec_accounts = fmempty, ec_contracts = fmempty\<rparr>"

record ('w, 'l) block_data =
  bd_number :: u64
  bd_hash :: b256
  bd_header :: sealed_header
  bd_withdrawals :: "'w option"
  bd_receipts :: "'l receipt list"
  bd_tx_hashes :: "b256 list"

record chain_tip =
  ct_number :: u64
  ct_hash :: b256

section \<open>Operations\<close>

definition merge_caches ::
  "('c, 'w, 'l) state_snapshot \<Rightarrow> 'c caches \<Rightarrow> b256
    \<Rightarrow> ('c, 'w, 'l) state_snapshot \<times> cache_merge_stats" where
  "merge_caches state caches current_hash =
    (let stats = stats_default;
         (state, stats) =
           (if is_valid_for (ca_accounts caches) current_hash
            then (state\<lparr>ss_accounts := ss_accounts state ++\<^sub>f tc_data (ca_accounts caches)\<rparr>,
                  stats\<lparr>cms_accounts_merged := fm_len (tc_data (ca_accounts caches))\<rparr>)
            else (state,
                  stats\<lparr>cms_accounts_discarded := fm_len (tc_data (ca_accounts caches))\<rparr>));
         (state, stats) =
           (if is_valid_for (ca_storage caches) current_hash
            then (state\<lparr>ss_storage := ss_storage state ++\<^sub>f tc_data (ca_storage caches)\<rparr>,
                  stats\<lparr>cms_storage_merged := fm_len (tc_data (ca_storage caches))\<rparr>)
            else (state,
                  stats\<lparr>cms_storage_discarded := fm_len (tc_data (ca_storage caches))\<rparr>));
         (state, stats) =
           (if is_valid_for (ca_block_hashes caches) current_hash
            then (state\<lparr>ss_block_hashes := ss_block_hashes state ++\<^sub>f tc_data (ca_block_hashes caches)\<rparr>,
                  stats\<lparr>cms_block_hashes_merged := fm_len (tc_data (ca_block_hashes caches))\<rparr>)
            else (state,
                  stats\<lparr>cms_block_hashes_discarded := fm_len (tc_data (ca_block_hashes caches))\<rparr>))
     in (state\<lparr>ss_code := ss_code state ++\<^sub>f cc_data (ca_code caches)\<rparr>,
         stats\<lparr>cms_code_merged := fm_len (cc_data (ca_code caches))\<rparr>))"

text \<open>One turn of the inner loop over \<open>account_change.storage\<close>.\<close>

definition apply_slot_entry ::
  "address \<Rightarrow> u256 \<times> u256 \<Rightarrow> ('c, 'w, 'l) state_snapshot \<Rightarrow> ('c, 'w, 'l) state_snapshot" where
  "apply_slot_entry address e state =
    (case e of (slot, value) \<Rightarrow>
      state\<lparr>ss_storage := set_known (address, slot) value (ss_storage state)\<rparr>)"

text \<open>One turn of the outer loop: the account, then its slots.\<close>

definition apply_account_entry ::
  "address \<times> 'c account_info option \<times> (u256 \<times> u256) list
    \<Rightarrow> ('c, 'w, 'l) state_snapshot \<Rightarrow> ('c, 'w, 'l) state_snapshot" where
  "apply_account_entry e state =
    (case e of (address, info, slots) \<Rightarrow>
      fold (apply_slot_entry address) slots
        (case info of
           Some i \<Rightarrow> state\<lparr>ss_accounts := set_known address i (ss_accounts state)\<rparr>
         | None \<Rightarrow> state))"

definition apply_contract_entry ::
  "b256 \<times> 'c \<Rightarrow> ('c, 'w, 'l) state_snapshot \<Rightarrow> ('c, 'w, 'l) state_snapshot" where
  "apply_contract_entry e state =
    (case e of (code_hash, bytecode) \<Rightarrow>
      state\<lparr>ss_code := fmupd code_hash bytecode (ss_code state)\<rparr>)"

definition apply_entries ::
  "(address \<times> 'c account_info option \<times> (u256 \<times> u256) list) list \<Rightarrow> (b256 \<times> 'c) list
    \<Rightarrow> ('c, 'w, 'l) state_snapshot \<Rightarrow> ('c, 'w, 'l) state_snapshot" where
  "apply_entries accounts contracts state =
    fold apply_contract_entry contracts (fold apply_account_entry accounts state)"

definition change_entries ::
  "'c execution_changes \<Rightarrow> (address \<times> 'c account_info option \<times> (u256 \<times> u256) list) list" where
  "change_entries changes =
    map (\<lambda>(a, c). (a, ac_info c, sorted_list_of_fmap (ac_storage c)))
      (sorted_list_of_fmap (ec_accounts changes))"

definition apply_execution_changes ::
  "('c, 'w, 'l) state_snapshot \<Rightarrow> 'c execution_changes \<Rightarrow> ('c, 'w, 'l) state_snapshot" where
  "apply_execution_changes state changes =
    apply_entries (change_entries changes) (sorted_list_of_fmap (ec_contracts changes)) state"

definition apply_block ::
  "('w, 'l) block_data \<Rightarrow> ('c, 'w, 'l) state_snapshot \<Rightarrow> ('c, 'w, 'l) state_snapshot" where
  "apply_block b state =
    (let state = push_receipts (bd_number b) (bd_receipts b) (bd_tx_hashes b) state
     in state\<lparr>ss_block_hashes := fmupd (bd_number b) (bd_hash b) (ss_block_hashes state)\<rparr>)"

definition apply_block_data ::
  "('c, 'w, 'l) state_snapshot \<Rightarrow> ('w, 'l) block_data list \<Rightarrow> ('c, 'w, 'l) state_snapshot" where
  "apply_block_data state blocks =
    (let state = fold apply_block blocks state
     in if blocks = [] then state
        else state\<lparr>ss_header := Some (bd_header (last blocks)),
                   ss_withdrawals := bd_withdrawals (last blocks)\<rparr>)"

text \<open>\<open>changes.accounts.keys()\<close>, collected and sorted.\<close>

definition changed_addresses :: "'c execution_changes \<Rightarrow> address list" where
  "changed_addresses changes = sort (map fst (sorted_list_of_fmap (ec_accounts changes)))"

definition build_commit_state ::
  "('c, 'w, 'l) state_snapshot \<Rightarrow> 'c caches \<Rightarrow> 'c execution_changes
    \<Rightarrow> ('w, 'l) block_data list \<Rightarrow> chain_tip
    \<Rightarrow> ('c, 'w, 'l) state_snapshot \<times> cache_merge_stats" where
  "build_commit_state current caches changes blocks tip =
    (let new_state = current\<lparr>ss_stale := False\<rparr>;
         (new_state, stats) = merge_caches new_state caches (ss_block_hash current);
         new_state = apply_execution_changes new_state changes;
         new_state = apply_block_data new_state blocks;
         new_state = push_changed_accounts (ct_number tip) (changed_addresses changes) new_state;
         new_state = new_state\<lparr>ss_block := ct_number tip, ss_block_hash := ct_hash tip\<rparr>
     in (new_state, stats))"

definition copy_history_before ::
  "('c, 'w, 'l) state_snapshot \<Rightarrow> u64 \<Rightarrow> ('c, 'w, 'l) state_snapshot
    \<Rightarrow> ('c, 'w, 'l) state_snapshot" where
  "copy_history_before current cutoff new_state = new_state\<lparr>
     ss_receipts_history := ss_receipts_history new_state
       @ filter (\<lambda>r. brc_block r \<le> cutoff) (ss_receipts_history current),
     ss_changed_accounts_history := ss_changed_accounts_history new_state
       @ filter (\<lambda>c. bca_block c \<le> cutoff) (ss_changed_accounts_history current),
     ss_block_hashes := ss_block_hashes new_state
       ++\<^sub>f fmfilter (\<lambda>n. n \<le> cutoff) (ss_block_hashes current),
     ss_code := ss_code current\<rparr>"

definition build_reorg_state ::
  "('c, 'w, 'l) state_snapshot \<Rightarrow> u64 \<Rightarrow> 'c execution_changes
    \<Rightarrow> ('w, 'l) block_data list \<Rightarrow> chain_tip \<Rightarrow> ('c, 'w, 'l) state_snapshot" where
  "build_reorg_state current common_ancestor changes blocks tip =
    (let new_state = copy_history_before current common_ancestor snapshot_default;
         new_state = apply_execution_changes new_state changes;
         new_state = apply_block_data new_state blocks;
         new_state = push_changed_accounts (ct_number tip) (changed_addresses changes) new_state
     in new_state\<lparr>ss_block := ct_number tip, ss_block_hash := ct_hash tip\<rparr>)"

definition build_revert_state ::
  "('c, 'w, 'l) state_snapshot \<Rightarrow> u64 \<Rightarrow> ('c, 'w, 'l) state_snapshot" where
  "build_revert_state current common_ancestor =
    copy_history_before current common_ancestor
      (snapshot_default\<lparr>ss_stale := True, ss_block := common_ancestor, ss_block_hash := 0\<rparr>)"

definition mark_stale :: "('c, 'w, 'l) state_snapshot \<Rightarrow> ('c, 'w, 'l) state_snapshot" where
  "mark_stale state = state\<lparr>ss_stale := True\<rparr>"

section \<open>The diff loops, pointwise\<close>

definition new_info :: "'c execution_changes \<Rightarrow> address \<Rightarrow> 'c account_info option" where
  "new_info changes a = Option.bind (fmlookup (ec_accounts changes) a) ac_info"

definition new_slot :: "'c execution_changes \<Rightarrow> address \<times> u256 \<Rightarrow> u256 option" where
  "new_slot changes k =
    Option.bind (fmlookup (ec_accounts changes) (fst k)) (\<lambda>c. fmlookup (ac_storage c) (snd k))"

text \<open>\<open>es\<close> and \<open>cs\<close> are iteration orders of the two hash maps (and of the nested ones).\<close>

definition enumerates ::
  "(address \<times> 'c account_info option \<times> (u256 \<times> u256) list) list \<Rightarrow> (b256 \<times> 'c) list
    \<Rightarrow> 'c execution_changes \<Rightarrow> bool" where
  "enumerates es cs changes \<longleftrightarrow>
    distinct (map fst es)
    \<and> (\<forall>a. case map_of es a of
             None \<Rightarrow> fmlookup (ec_accounts changes) a = None
           | Some (i, slots) \<Rightarrow>
               (\<exists>c. fmlookup (ec_accounts changes) a = Some c \<and> i = ac_info c
                    \<and> entries_of slots (ac_storage c)))
    \<and> entries_of cs (ec_contracts changes)"

lemma change_entries_enumerate:
  "enumerates (change_entries ch) (sorted_list_of_fmap (ec_contracts ch)) ch"
proof -
  have "map fst (change_entries ch) = sorted_list_of_fset (fmdom (ec_accounts ch))"
    by (simp add: change_entries_def comp_def split_beta)
  moreover have "map_of (change_entries ch) a =
      map_option (\<lambda>c. (ac_info c, sorted_list_of_fmap (ac_storage c)))
        (fmlookup (ec_accounts ch) a)" for a
    by (simp add: change_entries_def map_of_map)
  ultimately show ?thesis
    by (simp add: enumerates_def split: option.splits)
qed

lemma slot_loop:
  "fold (apply_slot_entry a) xs st =
    st\<lparr>ss_storage := fold (\<lambda>(k, v). set_known k v) (map (\<lambda>(s, v). ((a, s), v)) xs) (ss_storage st)\<rparr>"
  by (induction xs arbitrary: st) (auto simp: apply_slot_entry_def)

lemma account_entry_eq:
  "apply_account_entry (a, i, xs) st = st\<lparr>
     ss_accounts := (case i of None \<Rightarrow> ss_accounts st | Some v \<Rightarrow> set_known a v (ss_accounts st)),
     ss_storage := fold (\<lambda>(k, v). set_known k v) (map (\<lambda>(s, v). ((a, s), v)) xs) (ss_storage st)\<rparr>"
  by (auto simp: apply_account_entry_def slot_loop split: option.splits)

lemma map_of_slots:
  "map_of (map (\<lambda>(s, v). ((a, s), v)) xs) (b, k) = (if a = b then map_of xs k else None)"
  by (induction xs) auto

lemma distinct_slots:
  "distinct (map fst xs) \<Longrightarrow> distinct (map fst (map (\<lambda>(s, v). ((a, s), v)) xs))"
  by (induction xs) force+

lemma account_loop_lookup:
  "distinct (map fst es) \<Longrightarrow>
    fmlookup (ss_accounts (fold apply_account_entry es st)) a =
      map_option (\<lambda>w. case map_of es a of Some (Some i, _) \<Rightarrow> i | _ \<Rightarrow> w) (fmlookup (ss_accounts st) a)"
proof (induction es arbitrary: st)
  case Nil
  then show ?case by (simp add: option.map_ident)
next
  case (Cons e es)
  obtain b i xs where e: "e = (b, i, xs)" by (cases e)
  with Cons.prems have "map_of es b = None" by (auto simp: map_of_eq_None_iff)
  with e Cons show ?case
    by (cases i; cases "fmlookup (ss_accounts st) a")
      (auto simp: account_entry_eq fm_simps split: option.splits prod.splits)
qed

lemma storage_loop_lookup:
  "distinct (map fst es) \<Longrightarrow> (\<forall>(b, i, xs) \<in> set es. distinct (map fst xs)) \<Longrightarrow>
    fmlookup (ss_storage (fold apply_account_entry es st)) (a, k) =
      map_option (\<lambda>w. case map_of es a of None \<Rightarrow> w
          | Some (_, xs) \<Rightarrow> (case map_of xs k of None \<Rightarrow> w | Some v \<Rightarrow> v))
        (fmlookup (ss_storage st) (a, k))"
proof (induction es arbitrary: st)
  case Nil
  then show ?case by (simp add: option.map_ident)
next
  case (Cons e es)
  obtain b i xs where e: "e = (b, i, xs)" by (cases e)
  with Cons.prems have "map_of es b = None" "distinct (map fst xs)"
    by (auto simp: map_of_eq_None_iff)
  with e Cons show ?case
    by (cases "fmlookup (ss_storage st) (a, k)")
      (auto simp: account_entry_eq map_of_slots
        fmlookup_fold_set_known [OF distinct_slots] split: option.splits prod.splits)
qed

lemma account_loop_frame [simp]:
  "ss_block (fold apply_account_entry es st) = ss_block st"
  "ss_block_hash (fold apply_account_entry es st) = ss_block_hash st"
  "ss_header (fold apply_account_entry es st) = ss_header st"
  "ss_withdrawals (fold apply_account_entry es st) = ss_withdrawals st"
  "ss_code (fold apply_account_entry es st) = ss_code st"
  "ss_block_hashes (fold apply_account_entry es st) = ss_block_hashes st"
  "ss_receipts_history (fold apply_account_entry es st) = ss_receipts_history st"
  "ss_changed_accounts_history (fold apply_account_entry es st) = ss_changed_accounts_history st"
  "ss_stale (fold apply_account_entry es st) = ss_stale st"
  by (induction es arbitrary: st) (auto simp: account_entry_eq)

lemma contract_loop:
  "fold apply_contract_entry cs st =
    st\<lparr>ss_code := fold (\<lambda>(k, v). fmupd k v) cs (ss_code st)\<rparr>"
  by (induction cs arbitrary: st) (auto simp: apply_contract_entry_def)

lemma enumerates_accounts:
  assumes "enumerates es cs ch"
  shows "map_of es a = None \<Longrightarrow> fmlookup (ec_accounts ch) a = None"
    and "map_of es a = Some (i, xs) \<Longrightarrow>
      \<exists>c. fmlookup (ec_accounts ch) a = Some c \<and> i = ac_info c \<and> entries_of xs (ac_storage c)"
proof -
  from assms have *: "case map_of es a of
      None \<Rightarrow> fmlookup (ec_accounts ch) a = None
    | Some (i, slots) \<Rightarrow> (\<exists>c. fmlookup (ec_accounts ch) a = Some c \<and> i = ac_info c
        \<and> entries_of slots (ac_storage c))"
    unfolding enumerates_def by blast
  then show "map_of es a = None \<Longrightarrow> fmlookup (ec_accounts ch) a = None" by simp
  from * show "map_of es a = Some (i, xs) \<Longrightarrow>
      \<exists>c. fmlookup (ec_accounts ch) a = Some c \<and> i = ac_info c \<and> entries_of xs (ac_storage c)"
    by simp
qed

lemma enumerates_slots_distinct:
  assumes "enumerates es cs ch"
  shows "\<forall>(b, i, xs) \<in> set es. distinct (map fst xs)"
proof clarify
  fix b i xs assume "(b, i, xs) \<in> set es"
  with assms have "map_of es b = Some (i, xs)"
    by (simp add: enumerates_def map_of_eq_Some_iff)
  from enumerates_accounts(2) [OF assms this] show "distinct (map fst xs)"
    by (auto simp: entries_of_def)
qed

text \<open>The loops in any iteration order, as a pointwise update of the entries already held.\<close>

lemma apply_entries_lookup:
  assumes "enumerates es cs ch"
  shows "fmlookup (ss_accounts (apply_entries es cs st)) a =
      map_option (\<lambda>w. case new_info ch a of Some i \<Rightarrow> i | None \<Rightarrow> w) (fmlookup (ss_accounts st) a)"
    and "fmlookup (ss_storage (apply_entries es cs st)) k =
      map_option (\<lambda>w. case new_slot ch k of Some v \<Rightarrow> v | None \<Rightarrow> w) (fmlookup (ss_storage st) k)"
    and "fmlookup (ss_code (apply_entries es cs st)) h =
      (case fmlookup (ec_contracts ch) h of Some c \<Rightarrow> Some c | None \<Rightarrow> fmlookup (ss_code st) h)"
proof -
  have d: "distinct (map fst es)" and c: "entries_of cs (ec_contracts ch)"
    using assms by (simp_all add: enumerates_def)
  show "fmlookup (ss_accounts (apply_entries es cs st)) a =
      map_option (\<lambda>w. case new_info ch a of Some i \<Rightarrow> i | None \<Rightarrow> w) (fmlookup (ss_accounts st) a)"
    using enumerates_accounts [OF assms, of a]
    by (cases "map_of es a")
      (auto simp: apply_entries_def contract_loop account_loop_lookup [OF d] new_info_def
        split: option.splits)
  obtain b s where k: "k = (b, s)" by (cases k)
  show "fmlookup (ss_storage (apply_entries es cs st)) k =
      map_option (\<lambda>w. case new_slot ch k of Some v \<Rightarrow> v | None \<Rightarrow> w) (fmlookup (ss_storage st) k)"
    using enumerates_accounts [OF assms, of b]
    by (cases "map_of es b")
      (auto simp: k apply_entries_def contract_loop new_slot_def entries_of_def
        storage_loop_lookup [OF d enumerates_slots_distinct [OF assms]] split: option.splits)
  show "fmlookup (ss_code (apply_entries es cs st)) h =
      (case fmlookup (ec_contracts ch) h of Some c \<Rightarrow> Some c | None \<Rightarrow> fmlookup (ss_code st) h)"
    using c by (simp add: apply_entries_def contract_loop entries_of_def fmlookup_fold_fmupd)
qed

lemma apply_entries_frame [simp]:
  "ss_block (apply_entries es cs st) = ss_block st"
  "ss_block_hash (apply_entries es cs st) = ss_block_hash st"
  "ss_header (apply_entries es cs st) = ss_header st"
  "ss_withdrawals (apply_entries es cs st) = ss_withdrawals st"
  "ss_block_hashes (apply_entries es cs st) = ss_block_hashes st"
  "ss_receipts_history (apply_entries es cs st) = ss_receipts_history st"
  "ss_changed_accounts_history (apply_entries es cs st) = ss_changed_accounts_history st"
  "ss_stale (apply_entries es cs st) = ss_stale st"
  by (simp_all add: apply_entries_def contract_loop)

lemmas apply_changes_lookup [fm_simps] =
  apply_entries_lookup [OF change_entries_enumerate, folded apply_execution_changes_def]

lemma apply_changes_frame [simp]:
  "ss_block (apply_execution_changes st ch) = ss_block st"
  "ss_block_hash (apply_execution_changes st ch) = ss_block_hash st"
  "ss_header (apply_execution_changes st ch) = ss_header st"
  "ss_withdrawals (apply_execution_changes st ch) = ss_withdrawals st"
  "ss_block_hashes (apply_execution_changes st ch) = ss_block_hashes st"
  "ss_receipts_history (apply_execution_changes st ch) = ss_receipts_history st"
  "ss_changed_accounts_history (apply_execution_changes st ch) = ss_changed_accounts_history st"
  "ss_stale (apply_execution_changes st ch) = ss_stale st"
  by (simp_all add: apply_execution_changes_def)

section \<open>Cache merging and block data, pointwise\<close>

text \<open>What a tagged cache contributes to a merge at \<open>h\<close>.\<close>

definition usable :: "('k, 'v) tagged_cache \<Rightarrow> b256 \<Rightarrow> 'k \<Rightarrow> 'v option" where
  "usable c h k = (if is_valid_for c h then fmlookup (tc_data c) k else None)"

lemma usable_default [simp]: "usable tagged_cache_default h k = None"
  by (simp add: usable_def tagged_cache_default_def)

lemma merge_lookup [fm_simps]:
  "fmlookup (ss_accounts (fst (merge_caches st ca h))) a =
    (case usable (ca_accounts ca) h a of Some v \<Rightarrow> Some v | None \<Rightarrow> fmlookup (ss_accounts st) a)"
  "fmlookup (ss_storage (fst (merge_caches st ca h))) k =
    (case usable (ca_storage ca) h k of Some v \<Rightarrow> Some v | None \<Rightarrow> fmlookup (ss_storage st) k)"
  "fmlookup (ss_block_hashes (fst (merge_caches st ca h))) n =
    (case usable (ca_block_hashes ca) h n of Some v \<Rightarrow> Some v
     | None \<Rightarrow> fmlookup (ss_block_hashes st) n)"
  "fmlookup (ss_code (fst (merge_caches st ca h))) c =
    (case fmlookup (cc_data (ca_code ca)) c of Some v \<Rightarrow> Some v | None \<Rightarrow> fmlookup (ss_code st) c)"
  by (auto simp: merge_caches_def usable_def Let_def fmdomI fmdom_notI split: option.splits)

lemma merge_frame [simp]:
  "ss_block (fst (merge_caches st ca h)) = ss_block st"
  "ss_block_hash (fst (merge_caches st ca h)) = ss_block_hash st"
  "ss_header (fst (merge_caches st ca h)) = ss_header st"
  "ss_withdrawals (fst (merge_caches st ca h)) = ss_withdrawals st"
  "ss_receipts_history (fst (merge_caches st ca h)) = ss_receipts_history st"
  "ss_changed_accounts_history (fst (merge_caches st ca h)) = ss_changed_accounts_history st"
  "ss_stale (fst (merge_caches st ca h)) = ss_stale st"
  by (simp_all add: merge_caches_def Let_def split_beta)

definition brc_of :: "('w, 'l) block_data \<Rightarrow> 'l block_receipts" where
  "brc_of b = \<lparr>brc_block = bd_number b, brc_receipts = bd_receipts b, brc_tx_hashes = bd_tx_hashes b\<rparr>"

definition block_ids :: "('w, 'l) block_data list \<Rightarrow> (u64 \<times> b256) list" where
  "block_ids bs = map (\<lambda>b. (bd_number b, bd_hash b)) bs"

lemma block_loop_frame [simp]:
  "ss_block (fold apply_block bs st) = ss_block st"
  "ss_block_hash (fold apply_block bs st) = ss_block_hash st"
  "ss_accounts (fold apply_block bs st) = ss_accounts st"
  "ss_code (fold apply_block bs st) = ss_code st"
  "ss_storage (fold apply_block bs st) = ss_storage st"
  "ss_changed_accounts_history (fold apply_block bs st) = ss_changed_accounts_history st"
  "ss_stale (fold apply_block bs st) = ss_stale st"
  by (induction bs arbitrary: st) (simp_all add: apply_block_def Let_def)

lemma block_loop_hashes:
  "fmlookup (ss_block_hashes (fold apply_block bs st)) n =
    (case map_of (rev (block_ids bs)) n of Some h \<Rightarrow> Some h
     | None \<Rightarrow> fmlookup (ss_block_hashes st) n)"
  by (induction bs arbitrary: st)
    (auto simp: apply_block_def Let_def block_ids_def map_add_def split: option.splits)

lemma block_loop_receipts:
  "ss_receipts_history (fold apply_block bs st) =
    fold (\<lambda>x h. last_n RECEIPTS_HISTORY_DEPTH (h @ [x])) (map brc_of bs) (ss_receipts_history st)"
  by (induction bs arbitrary: st) (auto simp: apply_block_def Let_def hist_simps brc_of_def)

lemma block_data_frame [simp]:
  "ss_block (apply_block_data st bs) = ss_block st"
  "ss_block_hash (apply_block_data st bs) = ss_block_hash st"
  "ss_accounts (apply_block_data st bs) = ss_accounts st"
  "ss_code (apply_block_data st bs) = ss_code st"
  "ss_storage (apply_block_data st bs) = ss_storage st"
  "ss_changed_accounts_history (apply_block_data st bs) = ss_changed_accounts_history st"
  "ss_stale (apply_block_data st bs) = ss_stale st"
  by (simp_all add: apply_block_data_def Let_def)

lemma block_data_hashes [fm_simps]:
  "fmlookup (ss_block_hashes (apply_block_data st bs)) n =
    (case map_of (rev (block_ids bs)) n of Some h \<Rightarrow> Some h
     | None \<Rightarrow> fmlookup (ss_block_hashes st) n)"
  by (cases "bs = []") (simp_all add: apply_block_data_def Let_def block_loop_hashes block_ids_def)

lemma block_data_receipts [hist_simps]:
  "length (ss_receipts_history st) \<le> RECEIPTS_HISTORY_DEPTH \<Longrightarrow>
    ss_receipts_history (apply_block_data st bs) =
      last_n RECEIPTS_HISTORY_DEPTH (ss_receipts_history st @ map brc_of bs)"
  using fold_bounded_push [of "map brc_of bs" "ss_receipts_history st"]
  by (simp add: apply_block_data_def Let_def block_loop_receipts last_n_all)

lemma block_data_header:
  "ss_header (apply_block_data st bs) =
    (if bs = [] then ss_header st else Some (bd_header (last bs)))"
  by (induction bs arbitrary: st) (auto simp: apply_block_data_def Let_def apply_block_def)

lemma changed_addresses_sorted:
  "sorted_wrt (<) (changed_addresses ch)"
  "set (changed_addresses ch) = fset (fmdom (ec_accounts ch))"
  by (simp_all add: changed_addresses_def strict_sorted_iff sorted_list_of_fset_simps)

section \<open>The builders, field by field\<close>

lemma commit_fields [simp]:
  "ss_block (fst (build_commit_state cur ca ch bs tip)) = ct_number tip"
  "ss_block_hash (fst (build_commit_state cur ca ch bs tip)) = ct_hash tip"
  "ss_stale (fst (build_commit_state cur ca ch bs tip)) = False"
  "snd (build_commit_state cur ca ch bs tip) =
     snd (merge_caches (cur\<lparr>ss_stale := False\<rparr>) ca (ss_block_hash cur))"
  by (simp_all add: build_commit_state_def Let_def split_beta)

lemma commit_lookup [fm_simps]:
  "fmlookup (ss_accounts (fst (build_commit_state cur ca ch bs tip))) a =
    map_option (\<lambda>w. case new_info ch a of Some i \<Rightarrow> i | None \<Rightarrow> w)
      (case usable (ca_accounts ca) (ss_block_hash cur) a of Some v \<Rightarrow> Some v
       | None \<Rightarrow> fmlookup (ss_accounts cur) a)"
  "fmlookup (ss_storage (fst (build_commit_state cur ca ch bs tip))) k =
    map_option (\<lambda>w. case new_slot ch k of Some v \<Rightarrow> v | None \<Rightarrow> w)
      (case usable (ca_storage ca) (ss_block_hash cur) k of Some v \<Rightarrow> Some v
       | None \<Rightarrow> fmlookup (ss_storage cur) k)"
  "fmlookup (ss_code (fst (build_commit_state cur ca ch bs tip))) c =
    (case fmlookup (ec_contracts ch) c of Some v \<Rightarrow> Some v | None \<Rightarrow>
      (case fmlookup (cc_data (ca_code ca)) c of Some v \<Rightarrow> Some v | None \<Rightarrow> fmlookup (ss_code cur) c))"
  "fmlookup (ss_block_hashes (fst (build_commit_state cur ca ch bs tip))) n =
    (case map_of (rev (block_ids bs)) n of Some v \<Rightarrow> Some v | None \<Rightarrow>
      (case usable (ca_block_hashes ca) (ss_block_hash cur) n of Some v \<Rightarrow> Some v
       | None \<Rightarrow> fmlookup (ss_block_hashes cur) n))"
  by (simp_all add: build_commit_state_def Let_def split_beta fm_simps split: option.split)

lemma commit_histories [hist_simps]:
  "length (ss_receipts_history cur) \<le> RECEIPTS_HISTORY_DEPTH \<Longrightarrow>
    ss_receipts_history (fst (build_commit_state cur ca ch bs tip)) =
      last_n RECEIPTS_HISTORY_DEPTH (ss_receipts_history cur @ map brc_of bs)"
  "ss_changed_accounts_history (fst (build_commit_state cur ca ch bs tip)) =
    last_n RECEIPTS_HISTORY_DEPTH (ss_changed_accounts_history cur
      @ [\<lparr>bca_block = ct_number tip, bca_accounts = changed_addresses ch\<rparr>])"
  by (simp_all add: build_commit_state_def Let_def split_beta hist_simps)

lemma copy_history_fields [simp]:
  "ss_block (copy_history_before cur n st) = ss_block st"
  "ss_block_hash (copy_history_before cur n st) = ss_block_hash st"
  "ss_header (copy_history_before cur n st) = ss_header st"
  "ss_withdrawals (copy_history_before cur n st) = ss_withdrawals st"
  "ss_accounts (copy_history_before cur n st) = ss_accounts st"
  "ss_storage (copy_history_before cur n st) = ss_storage st"
  "ss_code (copy_history_before cur n st) = ss_code cur"
  "ss_stale (copy_history_before cur n st) = ss_stale st"
  by (simp_all add: copy_history_before_def)

lemma default_fields [simp]:
  "ss_block snapshot_default = 0" "ss_block_hash snapshot_default = 0"
  "ss_header snapshot_default = None" "ss_withdrawals snapshot_default = None"
  "ss_accounts snapshot_default = fmempty" "ss_code snapshot_default = fmempty"
  "ss_storage snapshot_default = fmempty" "ss_block_hashes snapshot_default = fmempty"
  "ss_receipts_history snapshot_default = []" "ss_changed_accounts_history snapshot_default = []"
  "ss_stale snapshot_default = False"
  by (simp_all add: snapshot_default_def)

lemma fmap_None_empty: "(\<And>k. fmlookup m k = None) \<Longrightarrow> m = fmempty"
  by (rule fmap_ext) simp

lemma reorg_fields [simp]:
  "ss_block (build_reorg_state cur n ch bs tip) = ct_number tip"
  "ss_block_hash (build_reorg_state cur n ch bs tip) = ct_hash tip"
  "ss_stale (build_reorg_state cur n ch bs tip) = False"
  "ss_accounts (build_reorg_state cur n ch bs tip) = fmempty"
  "ss_storage (build_reorg_state cur n ch bs tip) = fmempty"
  by (simp_all add: build_reorg_state_def Let_def fm_simps fmap_None_empty)

lemma reorg_lookup [fm_simps]:
  "fmlookup (ss_code (build_reorg_state cur n ch bs tip)) c =
    (case fmlookup (ec_contracts ch) c of Some v \<Rightarrow> Some v | None \<Rightarrow> fmlookup (ss_code cur) c)"
  "fmlookup (ss_block_hashes (build_reorg_state cur n ch bs tip)) m =
    (case map_of (rev (block_ids bs)) m of Some v \<Rightarrow> Some v
     | None \<Rightarrow> if m \<le> n then fmlookup (ss_block_hashes cur) m else None)"
  by (simp_all add: build_reorg_state_def Let_def fm_simps copy_history_before_def
      split: option.split)

lemma reorg_histories [hist_simps]:
  "length (ss_receipts_history cur) \<le> RECEIPTS_HISTORY_DEPTH \<Longrightarrow>
    ss_receipts_history (build_reorg_state cur n ch bs tip) =
      last_n RECEIPTS_HISTORY_DEPTH
        (filter (\<lambda>r. brc_block r \<le> n) (ss_receipts_history cur) @ map brc_of bs)"
  "ss_changed_accounts_history (build_reorg_state cur n ch bs tip) =
    last_n RECEIPTS_HISTORY_DEPTH
      (filter (\<lambda>c. bca_block c \<le> n) (ss_changed_accounts_history cur)
        @ [\<lparr>bca_block = ct_number tip, bca_accounts = changed_addresses ch\<rparr>])"
  using length_filter_le [of "\<lambda>r. brc_block r \<le> n" "ss_receipts_history cur"]
  by (simp_all add: build_reorg_state_def Let_def copy_history_before_def hist_simps
      del: length_filter_le)

lemma revert_fields [simp]:
  "ss_block (build_revert_state cur n) = n"
  "ss_block_hash (build_revert_state cur n) = 0"
  "ss_stale (build_revert_state cur n) = True"
  "ss_accounts (build_revert_state cur n) = fmempty"
  "ss_storage (build_revert_state cur n) = fmempty"
  "ss_code (build_revert_state cur n) = ss_code cur"
  "ss_block_hashes (build_revert_state cur n) = fmfilter (\<lambda>m. m \<le> n) (ss_block_hashes cur)"
  "ss_receipts_history (build_revert_state cur n) =
    filter (\<lambda>r. brc_block r \<le> n) (ss_receipts_history cur)"
  "ss_changed_accounts_history (build_revert_state cur n) =
    filter (\<lambda>c. bca_block c \<le> n) (ss_changed_accounts_history cur)"
  by (simp_all add: build_revert_state_def copy_history_before_def)

lemma commit_history_ok: "history_ok cur \<Longrightarrow> history_ok (fst (build_commit_state cur ca ch bs tip))"
  by (simp add: history_ok_def hist_simps)

lemma reorg_history_ok: "history_ok cur \<Longrightarrow> history_ok (build_reorg_state cur n ch bs tip)"
  by (simp add: history_ok_def hist_simps)

lemma revert_history_ok: "history_ok cur \<Longrightarrow> history_ok (build_revert_state cur n)"
  by (auto simp: history_ok_def intro: le_trans [OF length_filter_le])

lemma mark_stale_fields [simp]:
  "ss_block (mark_stale s) = ss_block s" "ss_block_hash (mark_stale s) = ss_block_hash s"
  "ss_accounts (mark_stale s) = ss_accounts s" "ss_storage (mark_stale s) = ss_storage s"
  "ss_code (mark_stale s) = ss_code s" "ss_block_hashes (mark_stale s) = ss_block_hashes s"
  "ss_receipts_history (mark_stale s) = ss_receipts_history s"
  "ss_changed_accounts_history (mark_stale s) = ss_changed_accounts_history s"
  "ss_stale (mark_stale s) = True"
  by (simp_all add: mark_stale_def)

lemma mark_stale_history_ok: "history_ok s \<Longrightarrow> history_ok (mark_stale s)"
  by (simp add: history_ok_def)

section \<open>Properties\<close>

text \<open>
  C33: the two nested loops over the change set give the same snapshot in every iteration
  order of the hash maps involved.
\<close>

theorem diff_order_irrelevant:
  assumes "enumerates es cs changes"
  shows "apply_entries es cs state = apply_execution_changes state changes"
proof (rule state_snapshot.equality)
  show "ss_accounts (apply_entries es cs state) = ss_accounts (apply_execution_changes state changes)"
    by (rule fmap_ext) (simp add: apply_entries_lookup [OF assms] fm_simps)
  show "ss_storage (apply_entries es cs state) = ss_storage (apply_execution_changes state changes)"
    by (rule fmap_ext) (simp add: apply_entries_lookup [OF assms] fm_simps)
  show "ss_code (apply_entries es cs state) = ss_code (apply_execution_changes state changes)"
    by (rule fmap_ext) (simp add: apply_entries_lookup [OF assms] fm_simps)
qed simp_all

theorem diff_order_irrelevant_witness:
  "let c = \<lparr>ac_info = None, ac_storage = fmap_of_list [(1, 10), (2, 20)]\<rparr>;
       ch = \<lparr>ec_accounts = fmap_of_list [(5, c)], ec_contracts = fmap_of_list [(8, 80), (9, 90)]\<rparr>;
       st = snapshot_default\<lparr>ss_storage := fmap_of_list [((5, 1), 0), ((5, 2), 0)]\<rparr>
             :: (nat, nat, nat) state_snapshot
   in apply_entries [(5, None, [(2, 20), (1, 10)])] [(9, 90), (8, 80)] st
      = apply_execution_changes st ch"
  unfolding Let_def
  by (rule diff_order_irrelevant) (auto simp: enumerates_def entries_of_def fmlookup_of_list)

text \<open>
  A diff never brings an entry in: the accounts and slots held stay the same set, each
  one takes the written value when there is one and keeps its own otherwise; code is
  inserted whether or not it was held.
\<close>

lemma diffs_land_on_held_entries:
  "fmdom (ss_accounts (apply_execution_changes st ch)) = fmdom (ss_accounts st)
   \<and> fmdom (ss_storage (apply_execution_changes st ch)) = fmdom (ss_storage st)
   \<and> fmdom (ss_code (apply_execution_changes st ch)) = fmdom (ss_code st) |\<union>| fmdom (ec_contracts ch)
   \<and> fmlookup (ss_accounts (apply_execution_changes st ch)) a =
       map_option (\<lambda>w. case new_info ch a of Some i \<Rightarrow> i | None \<Rightarrow> w) (fmlookup (ss_accounts st) a)
   \<and> fmlookup (ss_storage (apply_execution_changes st ch)) k =
       map_option (\<lambda>w. case new_slot ch k of Some v \<Rightarrow> v | None \<Rightarrow> w) (fmlookup (ss_storage st) k)"
  by (auto simp: fset_eq_iff fmlookup_dom_iff fm_simps split: option.splits)

text \<open>
  Merging takes a tagged cache over as a whole when its tag is the pre-state hash (or it
  is empty), and counts it as merged; otherwise it takes nothing and counts it as discarded.
\<close>

lemma merge_accounts_by_tag:
  "fmlookup (ss_accounts (fst (merge_caches st ca h))) a =
     (if is_valid_for (ca_accounts ca) h
      then (case fmlookup (tc_data (ca_accounts ca)) a of Some v \<Rightarrow> Some v
            | None \<Rightarrow> fmlookup (ss_accounts st) a)
      else fmlookup (ss_accounts st) a)
   \<and> (cms_accounts_merged (snd (merge_caches st ca h)),
       cms_accounts_discarded (snd (merge_caches st ca h))) =
     (if is_valid_for (ca_accounts ca) h then (fm_len (tc_data (ca_accounts ca)), 0)
      else (0, fm_len (tc_data (ca_accounts ca))))
   \<and> (cms_storage_merged (snd (merge_caches st ca h)),
       cms_storage_discarded (snd (merge_caches st ca h))) =
     (if is_valid_for (ca_storage ca) h then (fm_len (tc_data (ca_storage ca)), 0)
      else (0, fm_len (tc_data (ca_storage ca))))
   \<and> (cms_block_hashes_merged (snd (merge_caches st ca h)),
       cms_block_hashes_discarded (snd (merge_caches st ca h))) =
     (if is_valid_for (ca_block_hashes ca) h then (fm_len (tc_data (ca_block_hashes ca)), 0)
      else (0, fm_len (tc_data (ca_block_hashes ca))))
   \<and> cms_code_merged (snd (merge_caches st ca h)) = fm_len (cc_data (ca_code ca))"
  by (simp add: fm_simps usable_def) (simp add: merge_caches_def stats_default_def Let_def)

text \<open>
  C11: after a commit an account or slot is held exactly when the snapshot or a cache tagged
  with the pre-state hash held it, and its value is the block's write if there is one, else
  the cached value, else the old one; a block number takes the chain's hash first.
\<close>

theorem commit_precedence:
  "fmlookup (ss_accounts (fst (build_commit_state cur ca ch bs tip))) a =
     (case (usable (ca_accounts ca) (ss_block_hash cur) a, fmlookup (ss_accounts cur) a) of
        (None, None) \<Rightarrow> None
      | (Some v, _) \<Rightarrow> Some (case new_info ch a of Some i \<Rightarrow> i | None \<Rightarrow> v)
      | (None, Some w) \<Rightarrow> Some (case new_info ch a of Some i \<Rightarrow> i | None \<Rightarrow> w))
   \<and> fmlookup (ss_storage (fst (build_commit_state cur ca ch bs tip))) k =
     (case (usable (ca_storage ca) (ss_block_hash cur) k, fmlookup (ss_storage cur) k) of
        (None, None) \<Rightarrow> None
      | (Some v, _) \<Rightarrow> Some (case new_slot ch k of Some x \<Rightarrow> x | None \<Rightarrow> v)
      | (None, Some w) \<Rightarrow> Some (case new_slot ch k of Some x \<Rightarrow> x | None \<Rightarrow> w))
   \<and> fmlookup (ss_block_hashes (fst (build_commit_state cur ca ch bs tip))) n =
     (case (map_of (rev (block_ids bs)) n, usable (ca_block_hashes ca) (ss_block_hash cur) n) of
        (Some h, _) \<Rightarrow> Some h
      | (None, Some h) \<Rightarrow> Some h
      | (None, None) \<Rightarrow> fmlookup (ss_block_hashes cur) n)
   \<and> ss_stale (fst (build_commit_state cur ca ch bs tip)) = False
   \<and> ss_block (fst (build_commit_state cur ca ch bs tip)) = ct_number tip
   \<and> ss_block_hash (fst (build_commit_state cur ca ch bs tip)) = ct_hash tip"
  by (auto simp: fm_simps split: option.splits)

text \<open>
  After a reorg the snapshot holds no account and no slot, whatever the diffs say; a
  block hash comes from the new chain or from the old map at or below the ancestor; every
  receipt entry above the ancestor is the new chain's.
\<close>

theorem reorg_forgets_old_chain:
  assumes "history_ok cur"
  shows "ss_accounts (build_reorg_state cur anc ch bs tip) = fmempty
   \<and> ss_storage (build_reorg_state cur anc ch bs tip) = fmempty
   \<and> fmlookup (ss_block_hashes (build_reorg_state cur anc ch bs tip)) m =
       (case map_of (rev (block_ids bs)) m of Some h \<Rightarrow> Some h
        | None \<Rightarrow> if m \<le> anc then fmlookup (ss_block_hashes cur) m else None)
   \<and> (\<forall>r \<in> set (ss_receipts_history (build_reorg_state cur anc ch bs tip)).
        anc < brc_block r \<longrightarrow> r \<in> brc_of ` set bs)
   \<and> history_ok (build_reorg_state cur anc ch bs tip)"
proof -
  from assms have len: "length (ss_receipts_history cur) \<le> RECEIPTS_HISTORY_DEPTH"
    by (simp add: history_ok_def)
  have "set (ss_receipts_history (build_reorg_state cur anc ch bs tip))
      \<subseteq> set (filter (\<lambda>r. brc_block r \<le> anc) (ss_receipts_history cur) @ map brc_of bs)"
    unfolding reorg_histories(1) [OF len] by (rule set_last_n_subset)
  then show ?thesis
    using reorg_history_ok [OF assms] by (auto simp: fm_simps not_le split: option.split)
qed

theorem reorg_forgets_old_chain_witness:
  "let cur = push_receipts 100 [] [] (push_receipts 95 [] [] snapshot_default)
               :: (nat, nat, nat) state_snapshot
   in history_ok cur \<and>
      ss_accounts (build_reorg_state cur 95 execution_changes_default [] \<lparr>ct_number = 98, ct_hash = 7\<rparr>)
        = fmempty"
proof -
  let ?cur = "push_receipts 100 [] [] (push_receipts 95 [] [] snapshot_default)
               :: (nat, nat, nat) state_snapshot"
  have "history_ok ?cur" by (intro push_receipts_ok) simp
  from this reorg_forgets_old_chain [OF this, of 95 execution_changes_default "[]"
      "\<lparr>ct_number = 98, ct_hash = 7\<rparr>"]
  show ?thesis by (simp add: Let_def)
qed

text \<open>
  Unless an older entry for the same number is still in the window, a commit records at
  its tip exactly the addresses of the change set, strictly ascending.
\<close>

theorem commit_records_changed_accounts:
  assumes "\<forall>c \<in> set (ss_changed_accounts_history cur). bca_block c \<noteq> ct_number tip"
  shows "changed_accounts (fst (build_commit_state cur ca ch bs tip)) (ct_number tip)
      = Some (changed_addresses ch)
    \<and> sorted_wrt (<) (changed_addresses ch)
    \<and> set (changed_addresses ch) = fset (fmdom (ec_accounts ch))"
proof -
  let ?e = "\<lparr>bca_block = ct_number tip, bca_accounts = changed_addresses ch\<rparr>"
  let ?old = "last_n (RECEIPTS_HISTORY_DEPTH - 1) (ss_changed_accounts_history cur)"
  have "ss_changed_accounts_history (fst (build_commit_state cur ca ch bs tip)) = ?old @ [?e]"
    unfolding commit_histories(2) by (rule last_n_snoc [OF depth_pos, symmetric])
  moreover have "find (\<lambda>c. bca_block c = ct_number tip) ?old = None"
    using assms set_last_n_subset by (fastforce simp: find_None_iff)
  ultimately show ?thesis
    by (simp add: changed_accounts_def find_append changed_addresses_sorted)
qed

theorem commit_records_changed_accounts_witness:
  "changed_accounts (fst (build_commit_state (snapshot_default :: (nat, nat, nat) state_snapshot)
      caches_default
      \<lparr>ec_accounts = fmap_of_list [(9, \<lparr>ac_info = None, ac_storage = fmempty\<rparr>),
                                  (4, \<lparr>ac_info = None, ac_storage = fmempty\<rparr>)],
       ec_contracts = fmempty\<rparr> [] \<lparr>ct_number = 100, ct_hash = 7\<rparr>)) 100 = Some [4, 9]"
proof -
  let ?ch = "\<lparr>ec_accounts = fmap_of_list [(9, \<lparr>ac_info = None, ac_storage = fmempty\<rparr>),
                                  (4, \<lparr>ac_info = None, ac_storage = fmempty\<rparr>)],
       ec_contracts = fmempty\<rparr> :: nat execution_changes"
  have "changed_addresses ?ch = [4, 9]" by code_simp
  then show ?thesis
    using commit_records_changed_accounts [of "snapshot_default :: (nat, nat, nat) state_snapshot"
        "\<lparr>ct_number = 100, ct_hash = 7\<rparr>" caches_default ?ch "[]"]
    by simp
qed

text \<open>
  C19: an account that the block destroyed (it is in the change set with no info) and that the
  snapshot holds keeps its old value: after the commit the snapshot is fresh, stands on the
  new tip and still answers with the account as it was before its destruction.
\<close>

theorem destroyed_account_survives_commit:
  assumes "fmlookup (ec_accounts ch) a = Some c" and "ac_info c = None"
    and "usable (ca_accounts ca) (ss_block_hash cur) a = None"
    and "fmlookup (ss_accounts cur) a = Some old"
  shows "fmlookup (ss_accounts (fst (build_commit_state cur ca ch bs tip))) a = Some old
    \<and> \<not> ss_stale (fst (build_commit_state cur ca ch bs tip))
    \<and> ss_block_hash (fst (build_commit_state cur ca ch bs tip)) = ct_hash tip"
  using assms by (simp add: fm_simps new_info_def)

theorem destroyed_account_survives_commit_witness:
  "let old = \<lparr>ai_balance = 1000, ai_nonce = 1, ai_code_hash = 5, ai_account_id = None, ai_code = None\<rparr>;
       cur = snapshot_default\<lparr>ss_block := 99, ss_block_hash := 99,
               ss_accounts := fmap_of_list [(1, old)]\<rparr> :: (nat, nat, nat) state_snapshot;
       ch = \<lparr>ec_accounts = fmap_of_list [(1, \<lparr>ac_info = None, ac_storage = fmempty\<rparr>)],
             ec_contracts = fmempty\<rparr>
   in fmlookup (ss_accounts (fst (build_commit_state cur caches_default ch []
        \<lparr>ct_number = 100, ct_hash = 100\<rparr>))) 1 = Some old"
  unfolding Let_def
  by (rule destroyed_account_survives_commit
      [where c = "\<lparr>ac_info = None, ac_storage = fmempty\<rparr>", THEN conjunct1])
    (simp_all add: fmlookup_of_list caches_default_def)

end
