(* ===== verification/Static_State.thy ===== *)
theory Static_State
  imports Transitions
begin

text \<open>
  \<open>rex-sim/src/state.rs\<close>, the shared state: the current snapshot behind an atomic pointer,
  its generation counter, the guards simulations take, and the four reads of revm's
  \<open>DatabaseRef\<close>.  A channel is the list of messages sent on it and whether its receiver is
  alive; what comes back on a reply channel within the timeout is an argument of the reads.

  \<open>swap\<close> is two atomic writes, a pointer store and a counter increment, and a guard is made
  and checked by five atomic loads.  The section on interleavings runs the loads against the
  writes, one atomic access at a time.
\<close>

section \<open>Channels\<close>

record 'm channel =
  chan_open :: bool
  chan_sent :: "'m list"

definition chan_send :: "'m \<Rightarrow> 'm channel \<Rightarrow> 'm channel option" where
  "chan_send m ch = (if chan_open ch then Some (ch\<lparr>chan_sent := chan_sent ch @ [m]\<rparr>) else None)"

record fetch_channels =
  ch_account :: "account_request channel"
  ch_code :: "code_request channel"
  ch_storage :: "storage_request channel"
  ch_block_hash :: "block_hash_request channel"

datatype ('e, 'a) recv_outcome = Received "'e sim_error + 'a" | RecvTimeout | RecvDisconnected

fun await_fetch ::
  "('e, 'a) recv_outcome \<Rightarrow> fetch_kind \<Rightarrow> u64 \<Rightarrow> 'e sim_error + 'a" where
  "await_fetch (Received response) kind timeout = response"
| "await_fetch RecvTimeout kind timeout = Inl (FetchTimeout kind timeout)"
| "await_fetch RecvDisconnected kind timeout = Inl FetcherClosed"

section \<open>The shared state\<close>

record ('c, 'w, 'l) static_state =
  st_inner :: "('c, 'w, 'l) state_snapshot"
  st_generation :: u64
  st_channels :: fetch_channels
  st_fetch :: fetch_config

definition static_state_new ::
  "('c, 'w, 'l) state_snapshot \<Rightarrow> fetch_channels \<Rightarrow> fetch_config \<Rightarrow> ('c, 'w, 'l) static_state" where
  "static_state_new initial channels fetch =
    \<lparr>st_inner = initial, st_generation = 0, st_channels = channels, st_fetch = fetch\<rparr>"

definition st_block :: "('c, 'w, 'l) static_state \<Rightarrow> u64" where
  "st_block st = ss_block (st_inner st)"

definition st_block_hash :: "('c, 'w, 'l) static_state \<Rightarrow> b256" where
  "st_block_hash st = ss_block_hash (st_inner st)"

definition st_header :: "('c, 'w, 'l) static_state \<Rightarrow> sealed_header option" where
  "st_header st = ss_header (st_inner st)"

definition st_withdrawals :: "('c, 'w, 'l) static_state \<Rightarrow> 'w option" where
  "st_withdrawals st = ss_withdrawals (st_inner st)"

definition st_is_stale :: "('c, 'w, 'l) static_state \<Rightarrow> bool" where
  "st_is_stale st = ss_stale (st_inner st)"

definition swap_store ::
  "('c, 'w, 'l) state_snapshot \<Rightarrow> ('c, 'w, 'l) static_state \<Rightarrow> ('c, 'w, 'l) static_state" where
  "swap_store new_state st = st\<lparr>st_inner := new_state\<rparr>"

definition swap_bump :: "('c, 'w, 'l) static_state \<Rightarrow> ('c, 'w, 'l) static_state" where
  "swap_bump st = st\<lparr>st_generation := st_generation st + 1\<rparr>"

definition swap ::
  "('c, 'w, 'l) state_snapshot \<Rightarrow> ('c, 'w, 'l) static_state \<Rightarrow> ('c, 'w, 'l) static_state" where
  "swap new_state st = swap_bump (swap_store new_state st)"

definition st_receipts :: "('c, 'w, 'l) static_state \<Rightarrow> u64 \<Rightarrow> 'l receipt list option" where
  "st_receipts st b = receipts (st_inner st) b"

definition st_receipts_and_tx_hashes ::
  "('c, 'w, 'l) static_state \<Rightarrow> u64 \<Rightarrow> ('l receipt list \<times> b256 list) option" where
  "st_receipts_and_tx_hashes st b = receipts_and_tx_hashes (st_inner st) b"

definition st_changed_accounts :: "('c, 'w, 'l) static_state \<Rightarrow> u64 \<Rightarrow> address list option" where
  "st_changed_accounts st b = changed_accounts (st_inner st) b"

lemmas st_accessors = st_block_def st_block_hash_def st_is_stale_def

section \<open>Guards\<close>

record state_guard =
  sg_generation :: u64
  sg_block_hash :: b256
  sg_stale :: bool

datatype state_validity = Valid | WasStale | BecameStale | Changed u64 u64

definition guard :: "('c, 'w, 'l) static_state \<Rightarrow> state_guard" where
  "guard st = \<lparr>sg_generation = st_generation st, sg_block_hash = st_block_hash st,
     sg_stale = st_is_stale st\<rparr>"

text \<open>
  The verdict from the two loads it makes: \<open>stale\<close> is what \<open>is_stale()\<close> read, \<open>current_gen\<close>
  what \<open>generation()\<close> read after it.
\<close>

definition check_loads :: "state_guard \<Rightarrow> bool \<Rightarrow> u64 \<Rightarrow> state_validity" where
  "check_loads g stale current_gen =
    (if sg_stale g then WasStale
     else if stale then BecameStale
     else if sg_generation g \<noteq> current_gen then Changed (sg_generation g) current_gen
     else Valid)"

definition check_guard :: "('c, 'w, 'l) static_state \<Rightarrow> state_guard \<Rightarrow> state_validity" where
  "check_guard st g = check_loads g (st_is_stale st) (st_generation st)"

lemmas guard_defs = guard_def check_guard_def check_loads_def st_accessors

section \<open>Database reads\<close>

definition basic_ref ::
  "(account_request \<Rightarrow> ('e, 'c account_info option) recv_outcome) \<Rightarrow> address
    \<Rightarrow> ('c, 'w, 'l) static_state
    \<Rightarrow> ('c, 'w, 'l) static_state \<times> ('e sim_error + 'c account_info option)" where
  "basic_ref reply address st =
    (let state = st_inner st in
     if ss_stale state then (st, Inl StaleState)
     else case fmlookup (ss_accounts state) address of
       Some info \<Rightarrow> (st, Inr (Some info))
     | None \<Rightarrow>
         (let req = \<lparr>ar_address = address, ar_block = ss_block state,
                     ar_block_hash = ss_block_hash state\<rparr>
          in case chan_send req (ch_account (st_channels st)) of
               None \<Rightarrow> (st, Inl FetcherClosed)
             | Some ch \<Rightarrow>
                 (st\<lparr>st_channels := (st_channels st)\<lparr>ch_account := ch\<rparr>\<rparr>,
                  await_fetch (reply req) FkAccount (fc_wait_timeout_ms (st_fetch st)))))"

definition code_by_hash_ref ::
  "(code_request \<Rightarrow> ('e, 'c) recv_outcome) \<Rightarrow> b256 \<Rightarrow> ('c, 'w, 'l) static_state
    \<Rightarrow> ('c, 'w, 'l) static_state \<times> ('e sim_error + 'c)" where
  "code_by_hash_ref reply code_hash st =
    (let state = st_inner st in
     if ss_stale state then (st, Inl StaleState)
     else case fmlookup (ss_code state) code_hash of
       Some code \<Rightarrow> (st, Inr code)
     | None \<Rightarrow>
         (let req = \<lparr>cr_code_hash = code_hash, cr_block = ss_block state,
                     cr_address_hint = None\<rparr>
          in case chan_send req (ch_code (st_channels st)) of
               None \<Rightarrow> (st, Inl FetcherClosed)
             | Some ch \<Rightarrow>
                 (st\<lparr>st_channels := (st_channels st)\<lparr>ch_code := ch\<rparr>\<rparr>,
                  await_fetch (reply req) FkCode (fc_wait_timeout_ms (st_fetch st)))))"

definition storage_ref ::
  "(storage_request \<Rightarrow> ('e, u256) recv_outcome) \<Rightarrow> address \<Rightarrow> u256 \<Rightarrow> ('c, 'w, 'l) static_state
    \<Rightarrow> ('c, 'w, 'l) static_state \<times> ('e sim_error + u256)" where
  "storage_ref reply address index st =
    (let state = st_inner st in
     if ss_stale state then (st, Inl StaleState)
     else case fmlookup (ss_storage state) (address, index) of
       Some value \<Rightarrow> (st, Inr value)
     | None \<Rightarrow>
         (let req = \<lparr>sr_address = address, sr_index = index, sr_block = ss_block state,
                     sr_block_hash = ss_block_hash state\<rparr>
          in case chan_send req (ch_storage (st_channels st)) of
               None \<Rightarrow> (st, Inl FetcherClosed)
             | Some ch \<Rightarrow>
                 (st\<lparr>st_channels := (st_channels st)\<lparr>ch_storage := ch\<rparr>\<rparr>,
                  await_fetch (reply req) FkStorage (fc_wait_timeout_ms (st_fetch st)))))"

definition block_hash_ref ::
  "(block_hash_request \<Rightarrow> ('e, b256) recv_outcome) \<Rightarrow> u64 \<Rightarrow> ('c, 'w, 'l) static_state
    \<Rightarrow> ('c, 'w, 'l) static_state \<times> ('e sim_error + b256)" where
  "block_hash_ref reply number st =
    (let state = st_inner st in
     if ss_stale state then (st, Inl StaleState)
     else case fmlookup (ss_block_hashes state) number of
       Some hash \<Rightarrow> (st, Inr hash)
     | None \<Rightarrow>
         (let req = \<lparr>br_number = number, br_at_block_hash = ss_block_hash state\<rparr>
          in case chan_send req (ch_block_hash (st_channels st)) of
               None \<Rightarrow> (st, Inl FetcherClosed)
             | Some ch \<Rightarrow>
                 (st\<lparr>st_channels := (st_channels st)\<lparr>ch_block_hash := ch\<rparr>\<rparr>,
                  await_fetch (reply req) FkBlockHash (fc_wait_timeout_ms (st_fetch st)))))"

lemmas ref_defs = basic_ref_def code_by_hash_ref_def storage_ref_def block_hash_ref_def

section \<open>Swaps\<close>

lemma swap_fields [simp]:
  "st_inner (swap s st) = s" "st_generation (swap s st) = st_generation st + 1"
  "st_channels (swap s st) = st_channels st" "st_fetch (swap s st) = st_fetch st"
  by (simp_all add: swap_def swap_store_def swap_bump_def)

lemma swaps_generation: "st_generation (fold swap xs st) = st_generation st + of_nat (length xs)"
  by (induction xs arbitrary: st) (simp_all add: algebra_simps)

lemma swaps_inner: "st_inner (fold swap xs st) = (if xs = [] then st_inner st else last xs)"
  by (induction xs arbitrary: st) simp_all

section \<open>Guards against a concurrent writer\<close>

text \<open>
  The one writer, the changeset manager, alternates \<open>WStore\<close> and \<open>WBump\<close>; \<open>pending\<close> says
  that it is between the two.
\<close>

datatype ('c, 'w, 'l) write_event = WStore "('c, 'w, 'l) state_snapshot" | WBump

fun run_writes ::
  "('c, 'w, 'l) write_event list \<Rightarrow> bool \<Rightarrow> ('c, 'w, 'l) static_state
    \<Rightarrow> (bool \<times> ('c, 'w, 'l) static_state) option" where
  "run_writes [] pending st = Some (pending, st)"
| "run_writes (WStore s # es) pending st =
     (if pending then None else run_writes es True (swap_store s st))"
| "run_writes (WBump # es) pending st =
     (if pending then run_writes es False (swap_bump st) else None)"

text \<open>
  \<open>guard()\<close> loads the generation, then the hash after the writes \<open>es1\<close>, then the stale flag
  after \<open>es2\<close>; \<open>check_guard()\<close> loads the stale flag after \<open>es3\<close> and the generation after
  \<open>es4\<close>.  The result is the verdict and the state at that moment.
\<close>

definition racing_check ::
  "bool \<Rightarrow> ('c, 'w, 'l) static_state \<Rightarrow> ('c, 'w, 'l) write_event list
    \<Rightarrow> ('c, 'w, 'l) write_event list \<Rightarrow> ('c, 'w, 'l) write_event list
    \<Rightarrow> ('c, 'w, 'l) write_event list \<Rightarrow> (state_validity \<times> ('c, 'w, 'l) static_state) option" where
  "racing_check pending st0 es1 es2 es3 es4 =
    (case run_writes es1 pending st0 of None \<Rightarrow> None | Some (p1, st1) \<Rightarrow>
     (case run_writes es2 p1 st1 of None \<Rightarrow> None | Some (p2, st2) \<Rightarrow>
      (case run_writes es3 p2 st2 of None \<Rightarrow> None | Some (p3, st3) \<Rightarrow>
       (case run_writes es4 p3 st3 of None \<Rightarrow> None | Some (p4, st4) \<Rightarrow>
         Some (check_loads
                 \<lparr>sg_generation = st_generation st0, sg_block_hash = st_block_hash st1,
                  sg_stale = st_is_stale st2\<rparr>
                 (st_is_stale st3) (st_generation st4), st4)))))"





lemma check_loads_Valid:
  "check_loads g stale n = Valid \<longleftrightarrow> \<not> sg_stale g \<and> \<not> stale \<and> sg_generation g = n"
  by (simp add: check_loads_def)


lemma racing_check_quiet:
  "racing_check p st [] [] [] [] = Some (check_guard st (guard st), st)"
  by (simp add: racing_check_def guard_def check_guard_def)

section \<open>Properties\<close>

text \<open>
  When nothing races with it, a guard checked after any sequence of swaps tells exactly
  what happened: it was stale from the start, the last snapshot is stale, or the generation
  moved by the number of swaps; \<open>Valid\<close> means that there was none.
\<close>

theorem guard_verdict_after_swaps:
  assumes "length xs < 2 ^ 64"
  shows "check_guard (fold swap xs st) (guard st) =
    (if st_is_stale st then WasStale
     else if xs \<noteq> [] \<and> ss_stale (last xs) then BecameStale
     else if xs = [] then Valid
     else Changed (st_generation st) (st_generation st + of_nat (length xs)))"
proof -
  have "of_nat (length xs) = (0 :: u64) \<Longrightarrow> xs = []"
    using word_add_nat_inj [of "0 :: u64" "length xs"] assms by simp
  then show ?thesis
    by (auto simp: guard_defs swaps_inner swaps_generation)
qed

theorem guard_verdict_after_swaps_witness:
  "let ch = \<lparr>ch_account = \<lparr>chan_open = True, chan_sent = []\<rparr>, ch_code = \<lparr>chan_open = True, chan_sent = []\<rparr>,
         ch_storage = \<lparr>chan_open = True, chan_sent = []\<rparr>,
         ch_block_hash = \<lparr>chan_open = True, chan_sent = []\<rparr>\<rparr>;
       st = static_state_new (snapshot_default :: (nat, nat, nat) state_snapshot) ch fetch_config_default
   in check_guard (fold swap [snapshot_default, snapshot_default] st) (guard st) = Changed 0 2"
  unfolding Let_def
  by (subst guard_verdict_after_swaps) (simp_all add: st_is_stale_def static_state_new_def)



text \<open>
  The one store does slip through: if the writer has stored a fresh snapshot \<open>s\<close> and not
  yet bumped the generation, the check of a guard taken before the store answers \<open>Valid\<close>,
  although the state already is \<open>s\<close>; once the bump is visible it answers \<open>Changed\<close>.
\<close>

theorem half_swap_checks_valid:
  "racing_check False st [] [] [WStore s] [] =
     Some (if st_is_stale st then WasStale else if ss_stale s then BecameStale else Valid,
           swap_store s st)
   \<and> racing_check False st [] [] [WStore s] [WBump] =
     Some (if st_is_stale st then WasStale else if ss_stale s then BecameStale
           else Changed (st_generation st) (st_generation st + 1), swap s st)
   \<and> st_block_hash (swap_store s st) = ss_block_hash s"
  by (simp add: racing_check_def check_loads_def st_accessors swap_store_def swap_def swap_bump_def)

text \<open>
  On a stale snapshot all four reads fail with \<open>StaleState\<close>, whatever it holds and
  whatever the managers would answer, and send nothing.
\<close>

lemma stale_state_refuses_reads:
  assumes "st_is_stale st"
  shows "basic_ref r1 a st = (st, Inl StaleState) \<and> code_by_hash_ref r2 h st = (st, Inl StaleState)
    \<and> storage_ref r3 a i st = (st, Inl StaleState) \<and> block_hash_ref r4 n st = (st, Inl StaleState)"
  using assms by (simp add: ref_defs st_is_stale_def)

text \<open>
  An account read succeeds exactly when the snapshot is fresh and either holds the
  account or the account manager, asked for it at the snapshot's block and hash, answers in
  time; it fails with \<open>FetchTimeout\<close> carrying the configured wait exactly when the reply does
  not come (or says so itself), and a read changes nothing but the requests sent, at most one.
\<close>

theorem account_read_classified:
  "let s = st_inner st;
      req = \<lparr>ar_address = a, ar_block = ss_block s, ar_block_hash = ss_block_hash s\<rparr>;
      asks = (\<not> ss_stale s \<and> fmlookup (ss_accounts s) a = None
    \<and> chan_open (ch_account (st_channels st)))
   in (snd (basic_ref reply a st) = Inr v \<longleftrightarrow>
      (\<exists>i. \<not> ss_stale s \<and> v = Some i \<and> fmlookup (ss_accounts s) a = Some i)
      \<or> asks \<and> reply req = Received (Inr v))
    \<and> (snd (basic_ref reply a st) = Inl (FetchTimeout k t) \<longleftrightarrow>
      asks \<and> (reply req = RecvTimeout \<and> k = FkAccount \<and> t = fc_wait_timeout_ms (st_fetch st)
              \<or> reply req = Received (Inl (FetchTimeout k t))))
    \<and> fst (basic_ref reply a st) = st\<lparr>st_channels := (st_channels st)\<lparr>ch_account :=
        (ch_account (st_channels st))\<lparr>chan_sent := chan_sent (ch_account (st_channels st))
          @ (if asks then [req] else [])\<rparr>\<rparr>\<rparr>"
  unfolding Let_def
  by (cases "reply \<lparr>ar_address = a, ar_block = ss_block (st_inner st),
        ar_block_hash = ss_block_hash (st_inner st)\<rparr>")
    (auto simp: basic_ref_def chan_send_def Let_def split: option.split)

end
