(* ===== verification/Rpc.thy ===== *)
theory Rpc
  imports Sim_Types
begin

text \<open>
  \<open>rex-sim/src/rpc.rs\<close>: the typed RPC client.  The node behind it is alloy's provider, code
  that is not in this repository: a record of its answers, \<open>node\<close>, given to every operation.
  The hash function, its value on empty code and revm's \<open>Bytecode::new_raw\<close> are the record
  \<open>env\<close>.  Each operation is the pure function from the node's answers to the result.
\<close>

record 'e node =
  nd_get_balance :: "address \<Rightarrow> u64 \<Rightarrow> 'e + u256"
  nd_get_transaction_count :: "address \<Rightarrow> u64 \<Rightarrow> 'e + u64"
  nd_get_code_at :: "address \<Rightarrow> u64 \<Rightarrow> 'e + bytes"
  nd_get_storage_at :: "address \<Rightarrow> u256 \<Rightarrow> u64 \<Rightarrow> 'e + u256"
  nd_get_block_by_number :: "u64 \<Rightarrow> 'e + b256 option"
  nd_get_block_number :: "'e + u64"

record 'c env =
  en_keccak256 :: "bytes \<Rightarrow> b256"
  en_KECCAK_EMPTY :: b256
  en_new_raw :: "bytes \<Rightarrow> 'c"

text \<open>\<open>if code.is_empty() { KECCAK_EMPTY } else { keccak256(&code) }\<close>\<close>

definition code_hash_of :: "'c env \<Rightarrow> bytes \<Rightarrow> b256" where
  "code_hash_of E code = (if code = [] then en_KECCAK_EMPTY E else en_keccak256 E code)"

text \<open>
  \<open>try_join!\<close> runs the three requests concurrently and fails with the error that arrives
  first, so with several failures there are several possible results: the model lists them.
\<close>

fun errors_of :: "'e + 'a \<Rightarrow> 'e list" where
  "errors_of (Inl e) = [e]"
| "errors_of (Inr _) = []"

definition get_account ::
  "'c env \<Rightarrow> 'e node \<Rightarrow> address \<Rightarrow> u64 \<Rightarrow> ('e sim_error + 'c account_info option) list" where
  "get_account E node address block =
    (let balance = nd_get_balance node address block;
         nonce = nd_get_transaction_count node address block;
         code = nd_get_code_at node address block
     in case (balance, nonce, code) of
          (Inr b, Inr n, Inr c) \<Rightarrow>
            [Inr (Some \<lparr>ai_balance = b, ai_nonce = n, ai_code_hash = code_hash_of E c,
                        ai_account_id = None, ai_code = None\<rparr>)]
        | _ \<Rightarrow> map (\<lambda>e. Inl (Rpc e)) (errors_of balance @ errors_of nonce @ errors_of code))"

definition get_code_by_hash ::
  "'c env \<Rightarrow> 'e node \<Rightarrow> b256 \<Rightarrow> address option \<Rightarrow> u64 \<Rightarrow> 'e sim_error + 'c" where
  "get_code_by_hash E node code_hash address block =
    (case address of
       None \<Rightarrow> Inl (MissingAddressHint code_hash)
     | Some addr \<Rightarrow>
         (case nd_get_code_at node addr block of
            Inl e \<Rightarrow> Inl (Rpc e)
          | Inr code \<Rightarrow>
              (let actual_hash = code_hash_of E code
               in if actual_hash \<noteq> code_hash
                  then Inl (CodeHashMismatch addr code_hash actual_hash)
                  else Inr (en_new_raw E code))))"

definition get_storage :: "'e node \<Rightarrow> address \<Rightarrow> u256 \<Rightarrow> u64 \<Rightarrow> 'e sim_error + u256" where
  "get_storage node address index block =
    (case nd_get_storage_at node address index block of
       Inl e \<Rightarrow> Inl (Rpc e)
     | Inr value \<Rightarrow> Inr value)"

definition get_block_hash :: "'e node \<Rightarrow> u64 \<Rightarrow> 'e sim_error + b256" where
  "get_block_hash node number =
    (case nd_get_block_by_number node number of
       Inl e \<Rightarrow> Inl (Rpc e)
     | Inr (Some h) \<Rightarrow> Inr h
     | Inr None \<Rightarrow> Inl (BlockNotFound number))"

definition get_block_number :: "'e node \<Rightarrow> 'e sim_error + u64" where
  "get_block_number node =
    (case nd_get_block_number node of Inl e \<Rightarrow> Inl (Rpc e) | Inr n \<Rightarrow> Inr n)"

lemma get_account_nonempty: "get_account E node a b \<noteq> []"
  by (auto simp: get_account_def Let_def split: sum.splits)

lemma get_account_Inr:
  "Inr r \<in> set (get_account E node a b) \<Longrightarrow>
    \<exists>c. nd_get_code_at node a b = Inr c \<and>
      r = Some \<lparr>ai_balance = projr (nd_get_balance node a b),
                ai_nonce = projr (nd_get_transaction_count node a b),
                ai_code_hash = code_hash_of E c, ai_account_id = None, ai_code = None\<rparr>"
  by (auto simp: get_account_def Let_def split: sum.splits)

lemma get_code_by_hash_Inr:
  "get_code_by_hash E node h hint block = Inr c \<Longrightarrow>
    \<exists>code. code_hash_of E code = h \<and> c = en_new_raw E code"
  by (auto simp: get_code_by_hash_def Let_def split: option.splits sum.splits if_splits)

section \<open>Properties\<close>

text \<open>
  Fetching code by hash succeeds exactly when there is a hint and the node has code of
  exactly this hash at the hinted address; code of another hash is never returned.
\<close>

lemma code_by_hash_verified:
  "get_code_by_hash E node h hint block = Inr c \<longleftrightarrow>
    (\<exists>a code. hint = Some a \<and> nd_get_code_at node a block = Inr code
       \<and> code_hash_of E code = h \<and> c = en_new_raw E code)"
  by (auto simp: get_code_by_hash_def Let_def split: option.splits sum.splits)

end
