(* ===== verification/Manager_Core.thy ===== *)
theory Manager_Core
  imports Sim_Types
begin

text \<open>
  \<open>rex-sim/src/manager_core.rs\<close>: the generic fetch manager.  The trait \<open>FetchSpec\<close> is a
  record of its items, the struct \<open>FetchManager\<close> a record of its state, each arm of the
  \<open>select!\<close> loop a function on it.  The tasks the manager spawns, its completion channel and
  the order in which the scheduler runs them are the step relation \<open>mstep\<close>: one rule per
  atomic action, the loop's control point in \<open>sy_phase\<close>.

  A future returned by \<open>FetchSpec::fetch\<close> is the RPC call it has captured (type \<open>'call\<close>);
  what the node answers is the relation \<open>answers\<close>, a parameter.  \<open>usize\<close> and \<open>u64\<close>
  counters are 64-bit words; the invariants are indexed by the number of steps taken and hold
  up to \<open>2 ^ 64\<close> of them.
\<close>

section \<open>The trait and the manager\<close>

record ('req, 'key, 'val, 'resp, 'cache, 'ctx, 'side, 'call) fetch_spec =
  fs_label :: string
  fs_epoch_guarded :: bool
  fs_permits :: "fetch_config \<Rightarrow> u64"
  fs_tag :: "'req \<Rightarrow> b256 option"
  fs_key :: "'req \<Rightarrow> 'key"
  fs_hit :: "'val \<Rightarrow> 'resp"
  fs_store :: "'resp \<Rightarrow> 'val option"
  fs_on_success :: "'ctx \<Rightarrow> 'key \<Rightarrow> 'resp \<Rightarrow> 'ctx"
  fs_on_side :: "'ctx \<Rightarrow> 'side \<Rightarrow> 'ctx"
  fs_into_cache :: "b256 \<Rightarrow> ('key, 'val) fmap \<Rightarrow> 'cache"
  fs_fetch :: "'ctx \<Rightarrow> 'req \<Rightarrow> 'call"

definition COMPLETION_CHANNEL_DEPTH :: nat where
  "COMPLETION_CHANNEL_DEPTH = 4096"

text \<open>A reply channel is named by a number, the ticket of the request.\<close>

record ('key, 'resp, 'e) fetch_done =
  fd_key :: 'key
  fd_result :: "'e sim_error + 'resp"
  fd_epoch :: u64
  fd_respond_to :: nat

record ('key, 'val, 'ctx) fetch_manager =
  mg_ctx :: 'ctx
  mg_cache_hash :: b256
  mg_cache :: "('key, 'val) fmap"
  mg_permits :: nat
  mg_epoch :: u64
  mg_inflight :: u64

definition manager_new ::
  "('req, 'key, 'val, 'resp, 'cache, 'ctx, 'side, 'call) fetch_spec \<Rightarrow> 'ctx \<Rightarrow> fetch_config
    \<Rightarrow> ('key, 'val, 'ctx) fetch_manager" where
  "manager_new S ctx fetch = \<lparr>
     mg_ctx = ctx,
     mg_cache_hash = 0,
     mg_cache = fmempty,
     mg_permits = unat (fs_permits S fetch),
     mg_epoch = 0,
     mg_inflight = 0\<rparr>"

text \<open>\<open>while let Ok(msg) = self.side_rx.try_recv()\<close>: the messages that are there.\<close>

definition drain_side ::
  "('req, 'key, 'val, 'resp, 'cache, 'ctx, 'side, 'call) fetch_spec \<Rightarrow> 'side list
    \<Rightarrow> ('key, 'val, 'ctx) fetch_manager \<Rightarrow> ('key, 'val, 'ctx) fetch_manager" where
  "drain_side S msgs m = m\<lparr>mg_ctx := fold (\<lambda>msg ctx. fs_on_side S ctx msg) msgs (mg_ctx m)\<rparr>"

definition apply_completion ::
  "('req, 'key, 'val, 'resp, 'cache, 'ctx, 'side, 'call) fetch_spec
    \<Rightarrow> ('key, 'resp, 'e) fetch_done \<Rightarrow> ('key, 'val, 'ctx) fetch_manager
    \<Rightarrow> ('key, 'val, 'ctx) fetch_manager \<times> nat \<times> ('e sim_error + 'resp)" where
  "apply_completion S d m =
    (let m = m\<lparr>mg_inflight := mg_inflight m - 1\<rparr>;
         m = (case fd_result d of
                Inl _ \<Rightarrow> m
              | Inr resp \<Rightarrow>
                  (let m = m\<lparr>mg_ctx := fs_on_success S (mg_ctx m) (fd_key d) resp\<rparr>
                   in if \<not> fs_epoch_guarded S \<or> fd_epoch d = mg_epoch m
                      then (case fs_store S resp of
                              Some value \<Rightarrow> m\<lparr>mg_cache := fmupd (fd_key d) value (mg_cache m)\<rparr>
                            | None \<Rightarrow> m)
                      else m))
     in (m, fd_respond_to d, fd_result d))"

text \<open>A request whose tag is not the cache's: the cache is cleared, the epoch moves on.\<close>

definition retag ::
  "('req, 'key, 'val, 'resp, 'cache, 'ctx, 'side, 'call) fetch_spec \<Rightarrow> 'req
    \<Rightarrow> ('key, 'val, 'ctx) fetch_manager \<Rightarrow> ('key, 'val, 'ctx) fetch_manager" where
  "retag S req m =
    (case fs_tag S req of
       Some tag \<Rightarrow>
         (if mg_cache_hash m \<noteq> tag
          then m\<lparr>mg_cache := fmempty, mg_cache_hash := tag, mg_epoch := mg_epoch m + 1\<rparr>
          else m)
     | None \<Rightarrow> m)"

text \<open>The task spawned on a miss: the captured call and what its completion will carry.\<close>

record ('key, 'call) fetch_task =
  tk_key :: 'key
  tk_call :: 'call
  tk_epoch :: u64
  tk_respond_to :: nat

definition spawn_fetch ::
  "('req, 'key, 'val, 'resp, 'cache, 'ctx, 'side, 'call) fetch_spec \<Rightarrow> 'req \<Rightarrow> nat
    \<Rightarrow> ('key, 'val, 'ctx) fetch_manager
    \<Rightarrow> ('key, 'val, 'ctx) fetch_manager \<times> ('key, 'call) fetch_task" where
  "spawn_fetch S req respond_to m =
    (m\<lparr>mg_permits := mg_permits m - 1, mg_inflight := mg_inflight m + 1\<rparr>,
     \<lparr>tk_key = fs_key S req, tk_call = fs_fetch S (mg_ctx m) req, tk_epoch = mg_epoch m,
      tk_respond_to = respond_to\<rparr>)"

definition finish_task ::
  "('key, 'call) fetch_task \<Rightarrow> 'e sim_error + 'resp \<Rightarrow> ('key, 'resp, 'e) fetch_done" where
  "finish_task t result = \<lparr>fd_key = tk_key t, fd_result = result, fd_epoch = tk_epoch t,
     fd_respond_to = tk_respond_to t\<rparr>"

text \<open>The end of a flush: hand the cache over, forget the tag, move the epoch on.\<close>

definition flush_take ::
  "('req, 'key, 'val, 'resp, 'cache, 'ctx, 'side, 'call) fetch_spec
    \<Rightarrow> ('key, 'val, 'ctx) fetch_manager \<Rightarrow> ('key, 'val, 'ctx) fetch_manager \<times> 'cache" where
  "flush_take S m =
    (m\<lparr>mg_cache_hash := 0, mg_cache := fmempty, mg_epoch := mg_epoch m + 1\<rparr>,
     fs_into_cache S (mg_cache_hash m) (mg_cache m))"

section \<open>The manager among its tasks\<close>

text \<open>
  \<open>Selecting\<close>: at the \<open>select!\<close>.  \<open>Burst\<close>: in the inner loop over waiting requests.
  \<open>Acquiring req t\<close>: awaiting a permit for the request with ticket \<open>t\<close>.  \<open>Draining\<close>: in the
  flush arm, awaiting completions.
\<close>

datatype 'req phase = Selecting | Burst | Acquiring 'req nat | Draining

record ('req, 'key, 'val, 'resp, 'cache, 'ctx, 'call, 'e) msys =
  sy_mg :: "('key, 'val, 'ctx) fetch_manager"
  sy_phase :: "'req phase"
  sy_running :: "('key, 'call) fetch_task list"
  sy_finished :: "('key, 'resp, 'e) fetch_done list"
  sy_queue :: "('key, 'resp, 'e) fetch_done list"
  sy_replies :: "(nat \<times> ('e sim_error + 'resp)) list"
  sy_flushed :: "'cache list"
  sy_accepted :: "(nat \<times> 'req) list"

definition msys_init ::
  "('req, 'key, 'val, 'resp, 'cache, 'ctx, 'side, 'call) fetch_spec \<Rightarrow> 'ctx \<Rightarrow> fetch_config
    \<Rightarrow> ('req, 'key, 'val, 'resp, 'cache, 'ctx, 'call, 'e) msys" where
  "msys_init S ctx fetch = \<lparr>
     sy_mg = manager_new S ctx fetch, sy_phase = Selecting, sy_running = [], sy_finished = [],
     sy_queue = [], sy_replies = [], sy_flushed = [], sy_accepted = []\<rparr>"

text \<open>\<open>apply_completion\<close> on the head of the completion channel.\<close>

definition take_completion ::
  "('req, 'key, 'val, 'resp, 'cache, 'ctx, 'side, 'call) fetch_spec
    \<Rightarrow> ('key, 'resp, 'e) fetch_done \<Rightarrow> ('key, 'resp, 'e) fetch_done list
    \<Rightarrow> ('req, 'key, 'val, 'resp, 'cache, 'ctx, 'call, 'e) msys
    \<Rightarrow> ('req, 'key, 'val, 'resp, 'cache, 'ctx, 'call, 'e) msys" where
  "take_completion S d q s =
    (case apply_completion S d (sy_mg s) of (m, reply) \<Rightarrow>
      s\<lparr>sy_mg := m, sy_queue := q, sy_replies := sy_replies s @ [reply]\<rparr>)"

inductive mstep ::
  "('req, 'key, 'val, 'resp, 'cache, 'ctx, 'side, 'call) fetch_spec
    \<Rightarrow> ('call \<Rightarrow> 'e sim_error + 'resp \<Rightarrow> bool)
    \<Rightarrow> ('req, 'key, 'val, 'resp, 'cache, 'ctx, 'call, 'e) msys
    \<Rightarrow> ('req, 'key, 'val, 'resp, 'cache, 'ctx, 'call, 'e) msys \<Rightarrow> bool"
  for S answers where
  side: "sy_phase s = Selecting \<Longrightarrow>
    mstep S answers s (s\<lparr>sy_mg := drain_side S msgs (sy_mg s)\<rparr>)"
| burst_begin: "sy_phase s = Selecting \<Longrightarrow>
    mstep S answers s (s\<lparr>sy_mg := drain_side S msgs (sy_mg s), sy_phase := Burst\<rparr>)"
| hit: "sy_phase s = Burst \<Longrightarrow> t \<notin> fst ` set (sy_accepted s) \<Longrightarrow>
    m = retag S req (sy_mg s) \<Longrightarrow> fmlookup (mg_cache m) (fs_key S req) = Some v \<Longrightarrow>
    mstep S answers s (s\<lparr>sy_mg := m, sy_replies := sy_replies s @ [(t, Inr (fs_hit S v))],
      sy_accepted := sy_accepted s @ [(t, req)]\<rparr>)"
| miss: "sy_phase s = Burst \<Longrightarrow> t \<notin> fst ` set (sy_accepted s) \<Longrightarrow>
    m = retag S req (sy_mg s) \<Longrightarrow> fmlookup (mg_cache m) (fs_key S req) = None \<Longrightarrow>
    mstep S answers s (s\<lparr>sy_mg := m, sy_phase := Acquiring req t,
      sy_accepted := sy_accepted s @ [(t, req)]\<rparr>)"
| acquire: "sy_phase s = Acquiring req t \<Longrightarrow> 0 < mg_permits (sy_mg s) \<Longrightarrow>
    spawn_fetch S req t (sy_mg s) = (m, task) \<Longrightarrow>
    mstep S answers s (s\<lparr>sy_mg := m, sy_phase := Burst, sy_running := sy_running s @ [task]\<rparr>)"
| burst_end: "sy_phase s = Burst \<Longrightarrow> mstep S answers s (s\<lparr>sy_phase := Selecting\<rparr>)"
| finish: "sy_running s = xs @ task # ys \<Longrightarrow> answers (tk_call task) r \<Longrightarrow>
    mstep S answers s (s\<lparr>sy_running := xs @ ys,
      sy_mg := (sy_mg s)\<lparr>mg_permits := Suc (mg_permits (sy_mg s))\<rparr>,
      sy_finished := sy_finished s @ [finish_task task r]\<rparr>)"
| send: "sy_finished s = xs @ d # ys \<Longrightarrow> length (sy_queue s) < COMPLETION_CHANNEL_DEPTH \<Longrightarrow>
    mstep S answers s (s\<lparr>sy_finished := xs @ ys, sy_queue := sy_queue s @ [d]\<rparr>)"
| complete: "sy_phase s = Selecting \<Longrightarrow> sy_queue s = d # q \<Longrightarrow>
    mstep S answers s (take_completion S d q s)"
| flush_begin: "sy_phase s = Selecting \<Longrightarrow> mstep S answers s (s\<lparr>sy_phase := Draining\<rparr>)"
| flush_drain: "sy_phase s = Draining \<Longrightarrow> 0 < mg_inflight (sy_mg s) \<Longrightarrow> sy_queue s = d # q \<Longrightarrow>
    mstep S answers s (take_completion S d q s)"
| flush_end: "sy_phase s = Draining \<Longrightarrow> flush_take S (sy_mg s) = (m, cache) \<Longrightarrow>
    mstep S answers s (s\<lparr>sy_mg := m, sy_phase := Selecting, sy_flushed := sy_flushed s @ [cache]\<rparr>)"

text \<open>
  \<open>flush_end\<close> covers both exits of the drain loop, nothing in flight and the deadline; the
  deadline may strike at any moment.
\<close>

inductive mreach ::
  "('req, 'key, 'val, 'resp, 'cache, 'ctx, 'side, 'call) fetch_spec
    \<Rightarrow> ('call \<Rightarrow> 'e sim_error + 'resp \<Rightarrow> bool) \<Rightarrow> 'ctx \<Rightarrow> fetch_config \<Rightarrow> nat
    \<Rightarrow> ('req, 'key, 'val, 'resp, 'cache, 'ctx, 'call, 'e) msys \<Rightarrow> bool"
  for S answers ctx fetch where
  start: "mreach S answers ctx fetch 0 (msys_init S ctx fetch)"
| step: "mreach S answers ctx fetch n s \<Longrightarrow> mstep S answers s s' \<Longrightarrow>
    mreach S answers ctx fetch (Suc n) s'"

inductive_simps mreach_0: "mreach S answers ctx fetch 0 s"
inductive_cases mreach_SucE: "mreach S answers ctx fetch (Suc n) s"

section \<open>What a cached value and a reply stand on\<close>

definition tag_ok :: "b256 option \<Rightarrow> b256 \<Rightarrow> bool" where
  "tag_ok tag h \<longleftrightarrow> tag = None \<or> tag = Some h"

text \<open>
  The node answered an accepted request with this tag and key with \<open>resp\<close>.
\<close>

definition vouched ::
  "('req, 'key, 'val, 'resp, 'cache, 'ctx, 'side, 'call) fetch_spec
    \<Rightarrow> ('call \<Rightarrow> 'e sim_error + 'resp \<Rightarrow> bool) \<Rightarrow> (nat \<times> 'req) list
    \<Rightarrow> b256 option \<Rightarrow> 'key \<Rightarrow> 'resp \<Rightarrow> bool" where
  "vouched S answers acc tag key resp \<longleftrightarrow>
    (\<exists>t req ctx. (t, req) \<in> set acc \<and> fs_tag S req = tag \<and> fs_key S req = key
       \<and> answers (fs_fetch S ctx req) (Inr resp))"

definition cache_ok ::
  "('req, 'key, 'val, 'resp, 'cache, 'ctx, 'side, 'call) fetch_spec
    \<Rightarrow> ('call \<Rightarrow> 'e sim_error + 'resp \<Rightarrow> bool) \<Rightarrow> (nat \<times> 'req) list
    \<Rightarrow> ('key, 'val, 'ctx) fetch_manager \<Rightarrow> bool" where
  "cache_ok S answers acc m \<longleftrightarrow>
    (\<forall>k v. fmlookup (mg_cache m) k = Some v \<longrightarrow>
      (\<exists>tag resp. tag_ok tag (mg_cache_hash m) \<and> vouched S answers acc tag k resp
         \<and> fs_store S resp = Some v))"

text \<open>
  A fetch in progress: it belongs to an accepted request, its epoch is not from the future and,
  if it is the current one and epochs count, the request's tag is the cache's.
\<close>

definition pend_ok ::
  "('req, 'key, 'val, 'resp, 'cache, 'ctx, 'side, 'call) fetch_spec
    \<Rightarrow> (nat \<times> 'req) list \<Rightarrow> ('key, 'val, 'ctx) fetch_manager
    \<Rightarrow> 'key \<Rightarrow> u64 \<Rightarrow> nat \<Rightarrow> ('call \<Rightarrow> bool) \<Rightarrow> bool" where
  "pend_ok S acc m key epoch t P \<longleftrightarrow>
    (\<exists>req ctx. (t, req) \<in> set acc \<and> key = fs_key S req \<and> P (fs_fetch S ctx req)
       \<and> unat epoch \<le> unat (mg_epoch m)
       \<and> (fs_epoch_guarded S \<and> epoch = mg_epoch m \<longrightarrow> tag_ok (fs_tag S req) (mg_cache_hash m)))"

abbreviation task_ok where
  "task_ok S acc m tk \<equiv>
    pend_ok S acc m (tk_key tk) (tk_epoch tk) (tk_respond_to tk) (\<lambda>c. c = tk_call tk)"

abbreviation done_ok where
  "done_ok S answers acc m d \<equiv>
    pend_ok S acc m (fd_key d) (fd_epoch d) (fd_respond_to d) (\<lambda>c. answers c (fd_result d))"

definition reply_ok ::
  "('req, 'key, 'val, 'resp, 'cache, 'ctx, 'side, 'call) fetch_spec
    \<Rightarrow> ('call \<Rightarrow> 'e sim_error + 'resp \<Rightarrow> bool) \<Rightarrow> (nat \<times> 'req) list
    \<Rightarrow> nat \<times> ('e sim_error + 'resp) \<Rightarrow> bool" where
  "reply_ok S answers acc x \<longleftrightarrow>
    (\<exists>req. (fst x, req) \<in> set acc \<and>
      (case snd x of
         Inr resp \<Rightarrow> vouched S answers acc (fs_tag S req) (fs_key S req) resp
       | Inl e \<Rightarrow> (\<exists>ctx. answers (fs_fetch S ctx req) (Inl e))))"

text \<open>The epoch and the tag stay, or the epoch moves forward.\<close>

definition advances ::
  "('key, 'val, 'ctx) fetch_manager \<Rightarrow> ('key, 'val, 'ctx) fetch_manager \<Rightarrow> bool" where
  "advances m m' \<longleftrightarrow>
    mg_epoch m' = mg_epoch m \<and> mg_cache_hash m' = mg_cache_hash m
    \<or> unat (mg_epoch m') = Suc (unat (mg_epoch m))"

lemma pend_ok_advances:
  "pend_ok S acc m key epoch t P \<Longrightarrow> advances m m' \<Longrightarrow> set acc \<subseteq> set acc' \<Longrightarrow>
    pend_ok S acc' m' key epoch t P"
  by (fastforce simp: pend_ok_def advances_def)

lemma pend_ok_weaken:
  "pend_ok S acc m key epoch t P \<Longrightarrow> (\<And>c. P c \<Longrightarrow> Q c) \<Longrightarrow> pend_ok S acc m key epoch t Q"
  by (auto simp: pend_ok_def)

lemma vouchedI:
  "(t, req) \<in> set acc \<Longrightarrow> answers (fs_fetch S ctx req) (Inr resp) \<Longrightarrow>
    vouched S answers acc (fs_tag S req) (fs_key S req) resp"
  unfolding vouched_def by blast

lemma vouched_mono:
  "vouched S answers acc tag k r \<Longrightarrow> set acc \<subseteq> set acc' \<Longrightarrow> vouched S answers acc' tag k r"
  unfolding vouched_def by blast

lemma cache_ok_mono: "cache_ok S answers acc m \<Longrightarrow> set acc \<subseteq> set acc' \<Longrightarrow> cache_ok S answers acc' m"
  unfolding cache_ok_def by (meson vouched_mono)

lemma reply_ok_mono:
  assumes "reply_ok S answers acc x" and "set acc \<subseteq> set acc'"
  shows "reply_ok S answers acc' x"
proof -
  from assms(1) obtain req where req: "(fst x, req) \<in> set acc"
    "case snd x of Inr resp \<Rightarrow> vouched S answers acc (fs_tag S req) (fs_key S req) resp
       | Inl e \<Rightarrow> (\<exists>ctx. answers (fs_fetch S ctx req) (Inl e))"
    unfolding reply_ok_def by blast
  with assms(2) vouched_mono [OF _ assms(2)] show ?thesis
    unfolding reply_ok_def by (intro exI [of _ req]) (auto split: sum.splits)
qed

lemma advances_refl [simp]: "advances m m"
  by (simp add: advances_def)

lemma advances_same: "mg_epoch m' = mg_epoch m \<Longrightarrow> mg_cache_hash m' = mg_cache_hash m \<Longrightarrow> advances m m'"
  by (simp add: advances_def)

lemma retag_advances:
  "unat (mg_epoch m) < 2 ^ 64 - 1 \<Longrightarrow> advances m (retag S req m)"
  by (auto simp: retag_def advances_def unat_suc_bound split: option.splits)

lemma retag_tag_ok: "tag_ok (fs_tag S req) (mg_cache_hash (retag S req m))"
  by (auto simp: retag_def tag_ok_def split: option.splits)

lemma retag_cache_ok: "cache_ok S answers acc m \<Longrightarrow> cache_ok S answers acc (retag S req m)"
  by (auto simp: retag_def cache_ok_def split: option.splits)

lemma retag_epoch_le: "unat (mg_epoch (retag S req m)) \<le> Suc (unat (mg_epoch m))"
  using unat_suc_le [of "mg_epoch m"] by (auto simp: retag_def split: option.splits)

lemma retag_counters [simp]:
  "mg_inflight (retag S req m) = mg_inflight m" "mg_permits (retag S req m) = mg_permits m"
  "mg_ctx (retag S req m) = mg_ctx m"
  by (auto simp: retag_def split: option.splits)

lemma flush_take_facts:
  assumes "flush_take S m = (m', c)"
  shows "unat (mg_epoch m) < 2 ^ 64 - 1 \<Longrightarrow> advances m m'"
    and "cache_ok S answers acc m'"
    and "unat (mg_epoch m') \<le> Suc (unat (mg_epoch m))"
    and "mg_inflight m' = mg_inflight m" and "mg_permits m' = mg_permits m"
    and "mg_ctx m' = mg_ctx m"
  using assms unat_suc_le [of "mg_epoch m"]
  by (auto simp: flush_take_def advances_def cache_ok_def unat_suc_bound)

lemma apply_completion_facts:
  assumes "apply_completion S d m = (m', t, r)"
  shows "mg_epoch m' = mg_epoch m" and "mg_cache_hash m' = mg_cache_hash m"
    and "mg_inflight m' = mg_inflight m - 1" and "mg_permits m' = mg_permits m"
    and "t = fd_respond_to d" and "r = fd_result d"
  using assms by (auto simp: apply_completion_def Let_def split: sum.splits option.splits if_splits)

lemma cache_ok_cong:
  "mg_cache m' = mg_cache m \<Longrightarrow> mg_cache_hash m' = mg_cache_hash m \<Longrightarrow>
    cache_ok S answers acc m' = cache_ok S answers acc m"
  by (simp add: cache_ok_def)

lemma spawn_fetch_facts:
  assumes "spawn_fetch S req t m = (m', tk)"
  shows "mg_epoch m' = mg_epoch m" and "mg_cache_hash m' = mg_cache_hash m"
    and "mg_cache m' = mg_cache m"
    and "mg_inflight m' = mg_inflight m + 1" and "mg_permits m' = mg_permits m - 1"
    and "tk_respond_to tk = t" and "tk_key tk = fs_key S req"
    and "tk_epoch tk = mg_epoch m" and "tk_call tk = fs_fetch S (mg_ctx m) req"
  using assms by (auto simp: spawn_fetch_def)

lemma drain_side_facts [simp]:
  "mg_epoch (drain_side S msgs m) = mg_epoch m"
  "mg_cache_hash (drain_side S msgs m) = mg_cache_hash m"
  "mg_cache (drain_side S msgs m) = mg_cache m"
  "mg_inflight (drain_side S msgs m) = mg_inflight m"
  "mg_permits (drain_side S msgs m) = mg_permits m"
  by (simp_all add: drain_side_def)

section \<open>The laws of a fetch spec and what they give\<close>

text \<open>
  What the manager relies on from an implementation of the trait: storing and serving a value
  gives the response back, requests are all tagged or all untagged, and only an untagged spec
  may switch the epoch guard off.
\<close>

locale fetch_laws =
  fixes S :: "('req, 'key, 'val, 'resp, 'cache, 'ctx, 'side, 'call) fetch_spec"
  assumes store_hit: "fs_store S resp = Some v \<Longrightarrow> fs_hit S v = resp"
    and tags_uniform: "fs_tag S req = None \<longleftrightarrow> fs_tag S req' = None"
    and guarded_or_untagged: "\<not> fs_epoch_guarded S \<Longrightarrow> fs_tag S req = None"
begin

lemma completion_cache_ok:
  assumes "apply_completion S d m = (m', t, r)" and "done_ok S answers acc m d"
    and "cache_ok S answers acc m"
  shows "cache_ok S answers acc m'"
proof -
  from assms(2) obtain req ctx where req: "(fd_respond_to d, req) \<in> set acc" "fd_key d = fs_key S req"
      "answers (fs_fetch S ctx req) (fd_result d)"
      "fs_epoch_guarded S \<and> fd_epoch d = mg_epoch m \<longrightarrow> tag_ok (fs_tag S req) (mg_cache_hash m)"
    by (auto simp: pend_ok_def)
  have tag: "tag_ok (fs_tag S req) (mg_cache_hash m)"
    if "\<not> fs_epoch_guarded S \<or> fd_epoch d = mg_epoch m"
    using that req(4) guarded_or_untagged by (cases "fs_epoch_guarded S") (auto simp: tag_ok_def)
  have "vouched S answers acc (fs_tag S req) (fd_key d) resp" if "fd_result d = Inr resp" for resp
    using vouchedI [where answers = answers, OF req(1)] req(2,3) that by simp
  with tag assms(1,3) show ?thesis
    by (auto simp: cache_ok_def apply_completion_def Let_def
        split: sum.splits option.splits if_splits; blast)
qed

lemma completion_reply_ok:
  assumes "done_ok S answers acc m d"
  shows "reply_ok S answers acc (fd_respond_to d, fd_result d)"
proof -
  from assms obtain req ctx where "(fd_respond_to d, req) \<in> set acc" "fd_key d = fs_key S req"
      "answers (fs_fetch S ctx req) (fd_result d)"
    by (auto simp: pend_ok_def)
  then show ?thesis
    by (cases "fd_result d") (auto simp: reply_ok_def vouched_def)
qed

lemma hit_reply_ok:
  assumes "cache_ok S answers acc m" and "fmlookup (mg_cache m) (fs_key S req) = Some v"
    and "tag_ok (fs_tag S req) (mg_cache_hash m)"
  shows "vouched S answers acc (fs_tag S req) (fs_key S req) (fs_hit S v)"
proof -
  from assms obtain tag resp where *: "tag_ok tag (mg_cache_hash m)"
      "vouched S answers acc tag (fs_key S req) resp" "fs_store S resp = Some v"
    unfolding cache_ok_def by blast
  then obtain req' where "fs_tag S req' = tag" by (auto simp: vouched_def)
  with * assms(3) tags_uniform [of req req'] have "tag = fs_tag S req"
    by (auto simp: tag_ok_def)
  with * show ?thesis by (simp add: store_hit)
qed

end

text \<open>The invariant of the whole system after \<open>n\<close> steps.\<close>

definition pending :: "('req, 'key, 'val, 'resp, 'cache, 'ctx, 'call, 'e) msys
    \<Rightarrow> ('key, 'resp, 'e) fetch_done list" where
  "pending s = sy_finished s @ sy_queue s"

definition flushed_ok ::
  "('req, 'key, 'val, 'resp, 'cache, 'ctx, 'side, 'call) fetch_spec
    \<Rightarrow> ('call \<Rightarrow> 'e sim_error + 'resp \<Rightarrow> bool) \<Rightarrow> (nat \<times> 'req) list \<Rightarrow> 'cache \<Rightarrow> bool" where
  "flushed_ok S answers acc c \<longleftrightarrow>
    (\<exists>h data. c = fs_into_cache S h data \<and>
      (\<forall>k v. fmlookup data k = Some v \<longrightarrow>
        (\<exists>tag resp. tag_ok tag h \<and> vouched S answers acc tag k resp \<and> fs_store S resp = Some v)))"

lemma flushed_ok_mono:
  assumes "flushed_ok S answers acc c" and "set acc \<subseteq> set acc'"
  shows "flushed_ok S answers acc' c"
proof -
  from assms(1) obtain h data where c: "c = fs_into_cache S h data" and
    d: "\<And>k v. fmlookup data k = Some v \<Longrightarrow>
      \<exists>tag resp. tag_ok tag h \<and> vouched S answers acc tag k resp \<and> fs_store S resp = Some v"
    unfolding flushed_ok_def by blast
  have "\<exists>tag resp. tag_ok tag h \<and> vouched S answers acc' tag k resp \<and> fs_store S resp = Some v"
    if "fmlookup data k = Some v" for k v
    using d [OF that] vouched_mono [where S = S and answers = answers, OF _ assms(2)] by blast
  with c show ?thesis unfolding flushed_ok_def by blast
qed

lemma flush_take_flushed_ok:
  "cache_ok S answers acc m \<Longrightarrow> flush_take S m = (m', c) \<Longrightarrow> flushed_ok S answers acc c"
  unfolding flushed_ok_def cache_ok_def flush_take_def by blast

definition msys_ok ::
  "('req, 'key, 'val, 'resp, 'cache, 'ctx, 'side, 'call) fetch_spec
    \<Rightarrow> ('call \<Rightarrow> 'e sim_error + 'resp \<Rightarrow> bool) \<Rightarrow> nat
    \<Rightarrow> ('req, 'key, 'val, 'resp, 'cache, 'ctx, 'call, 'e) msys \<Rightarrow> bool" where
  "msys_ok S answers n s \<longleftrightarrow>
    unat (mg_epoch (sy_mg s)) \<le> n
    \<and> cache_ok S answers (sy_accepted s) (sy_mg s)
    \<and> (\<forall>tk \<in> set (sy_running s). task_ok S (sy_accepted s) (sy_mg s) tk)
    \<and> (\<forall>d \<in> set (pending s). done_ok S answers (sy_accepted s) (sy_mg s) d)
    \<and> (\<forall>x \<in> set (sy_replies s). reply_ok S answers (sy_accepted s) x)
    \<and> (\<forall>c \<in> set (sy_flushed s). flushed_ok S answers (sy_accepted s) c)
    \<and> (\<forall>req t. sy_phase s = Acquiring req t \<longrightarrow>
          (t, req) \<in> set (sy_accepted s) \<and> tag_ok (fs_tag S req) (mg_cache_hash (sy_mg s)))"

text \<open>A step that only moves the manager forward keeps what is in progress.\<close>

lemma msys_ok_update:
  assumes "msys_ok S answers n s" and "advances (sy_mg s) (sy_mg s')"
    and "unat (mg_epoch (sy_mg s')) \<le> Suc n" and "cache_ok S answers (sy_accepted s') (sy_mg s')"
    and "sy_running s' = sy_running s" and "set (pending s') \<subseteq> set (pending s)"
    and "set (sy_accepted s) \<subseteq> set (sy_accepted s')"
    and "\<And>x. x \<in> set (sy_replies s') \<Longrightarrow> x \<notin> set (sy_replies s) \<Longrightarrow>
            reply_ok S answers (sy_accepted s') x"
    and "\<And>c. c \<in> set (sy_flushed s') \<Longrightarrow> c \<notin> set (sy_flushed s) \<Longrightarrow>
            flushed_ok S answers (sy_accepted s') c"
    and "\<And>req t. sy_phase s' = Acquiring req t \<Longrightarrow>
            (t, req) \<in> set (sy_accepted s') \<and> tag_ok (fs_tag S req) (mg_cache_hash (sy_mg s'))"
  shows "msys_ok S answers (Suc n) s'"
proof -
  note ok = assms(1) [unfolded msys_ok_def]
  have replies: "reply_ok S answers (sy_accepted s') x" if "x \<in> set (sy_replies s')" for x
    using that assms(8) reply_ok_mono [where S = S and answers = answers, OF _ assms(7)] ok by blast
  have flushes: "flushed_ok S answers (sy_accepted s') c" if "c \<in> set (sy_flushed s')" for c
    using that assms(9) flushed_ok_mono [where S = S and answers = answers, OF _ assms(7)] ok by blast
  have tasks: "task_ok S (sy_accepted s') (sy_mg s') tk" if "tk \<in> set (sy_running s')" for tk
    by (rule pend_ok_advances [OF _ assms(2,7)]) (use that assms(5) ok in simp)
  have dones: "done_ok S answers (sy_accepted s') (sy_mg s') d" if "d \<in> set (pending s')" for d
    by (rule pend_ok_advances [OF _ assms(2,7)]) (use that assms(6) ok in blast)
  from assms(3,4,10) replies flushes tasks dones show ?thesis
    unfolding msys_ok_def by blast
qed

context fetch_laws
begin

lemma msys_ok_take_completion:
  assumes "msys_ok S answers n s" and "sy_queue s = d # q" and "\<forall>req t. sy_phase s \<noteq> Acquiring req t"
  shows "msys_ok S answers (Suc n) (take_completion S d q s)"
proof -
  obtain m t r where ac: "apply_completion S d (sy_mg s) = (m, t, r)" by (metis prod_cases3)
  note facts = apply_completion_facts [OF ac]
  from assms have d: "done_ok S answers (sy_accepted s) (sy_mg s) d"
    by (auto simp: msys_ok_def pending_def)
  have "cache_ok S answers (sy_accepted s) (sy_mg s)" using assms(1) by (simp add: msys_ok_def)
  then have c: "cache_ok S answers (sy_accepted s) m"
    by (rule completion_cache_ok [where answers = answers, OF ac d])
  show ?thesis
    by (rule msys_ok_update [OF assms(1)])
      (use assms c d in \<open>auto simp: take_completion_def ac facts msys_ok_def pending_def
         completion_reply_ok intro: advances_same\<close>)
qed

lemma msys_ok_step:
  assumes "mstep S answers s s'" and "msys_ok S answers n s" and "Suc n < 2 ^ 64"
  shows "msys_ok S answers (Suc n) s'"
  using assms(1)
proof cases
  case (side msgs)
  show ?thesis
    by (rule msys_ok_update [OF assms(2)])
      (use assms(2) side in \<open>auto simp: msys_ok_def pending_def cache_ok_def intro: advances_same\<close>)
next
  case (burst_begin msgs)
  show ?thesis
    by (rule msys_ok_update [OF assms(2)])
      (use assms(2) burst_begin in \<open>auto simp: msys_ok_def pending_def cache_ok_def intro: advances_same\<close>)
next
  case (hit t m req v)
  from assms(2) have c: "cache_ok S answers (sy_accepted s) (sy_mg s)" by (simp add: msys_ok_def)
  have "cache_ok S answers (sy_accepted s) m" using hit(4) retag_cache_ok [OF c] by simp
  from hit_reply_ok [OF this hit(5)] have
    "vouched S answers (sy_accepted s) (fs_tag S req) (fs_key S req) (fs_hit S v)"
    using hit(4) retag_tag_ok [of S req "sy_mg s"] by simp
  from vouched_mono [OF this, of "sy_accepted s @ [(t, req)]"] have r: "reply_ok S answers (sy_accepted s @ [(t, req)]) (t, Inr (fs_hit S v))"
    by (auto simp: reply_ok_def)
  show ?thesis
    by (rule msys_ok_update [OF assms(2)])
      (use assms(2,3) hit r c retag_epoch_le [of S req "sy_mg s"] in
        \<open>auto simp: msys_ok_def pending_def intro: retag_advances retag_cache_ok cache_ok_mono\<close>)
next
  case (miss t m req)
  from assms(2) have c: "cache_ok S answers (sy_accepted s) (sy_mg s)" by (simp add: msys_ok_def)
  show ?thesis
    by (rule msys_ok_update [OF assms(2)])
      (use assms(2,3) miss c retag_epoch_le [of S req "sy_mg s"] in
        \<open>auto simp: msys_ok_def pending_def intro: retag_advances retag_cache_ok
          cache_ok_mono retag_tag_ok\<close>)
next
  case (acquire req t m task)
  note facts = spawn_fetch_facts [OF acquire(4)]
  have adv: "advances (sy_mg s) m" using facts by (intro advances_same) simp_all
  have "(t, req) \<in> set (sy_accepted s)" "tag_ok (fs_tag S req) (mg_cache_hash (sy_mg s))"
    using assms(2) acquire(2) by (auto simp: msys_ok_def)
  then have "task_ok S (sy_accepted s) m task"
    unfolding pend_ok_def by (intro exI [of _ req] exI [of _ "mg_ctx (sy_mg s)"]) (simp add: facts)
  then show ?thesis
    using assms(2) adv acquire facts
    by (auto simp: msys_ok_def pending_def cache_ok_cong [of m "sy_mg s"] intro: pend_ok_advances)
next
  case burst_end
  with assms(2) show ?thesis by (auto simp: msys_ok_def pending_def)
next
  case (finish xs task ys r)
  let ?m = "(sy_mg s)\<lparr>mg_permits := Suc (mg_permits (sy_mg s))\<rparr>"
  have adv: "advances (sy_mg s) ?m" by (simp add: advances_same)
  have "task_ok S (sy_accepted s) (sy_mg s) task"
    using assms(2) finish(2) by (auto simp: msys_ok_def)
  then have "done_ok S answers (sy_accepted s) (sy_mg s) (finish_task task r)"
    using finish(3) by (auto simp: finish_task_def intro: pend_ok_weaken)
  then show ?thesis
    using assms(2) finish adv
    by (auto simp: msys_ok_def pending_def cache_ok_def intro: pend_ok_advances)
next
  case (send xs d ys)
  with assms(2) show ?thesis by (auto simp: msys_ok_def pending_def)
next
  case (complete d q)
  then show ?thesis using msys_ok_take_completion [OF assms(2), of d q] by auto
next
  case flush_begin
  with assms(2) show ?thesis by (auto simp: msys_ok_def pending_def)
next
  case (flush_drain d q)
  then show ?thesis using msys_ok_take_completion [OF assms(2), of d q] by auto
next
  case (flush_end m cache)
  note facts = flush_take_facts [OF flush_end(3)]
  show ?thesis
    by (rule msys_ok_update [OF assms(2)])
      (use assms(2,3) flush_end facts in
        \<open>auto simp: msys_ok_def pending_def intro: flush_take_flushed_ok\<close>)
qed

lemma msys_ok_reach: "mreach S answers ctx fetch n s \<Longrightarrow> n < 2 ^ 64 \<Longrightarrow> msys_ok S answers n s"
proof (induction rule: mreach.induct)
  case start
  then show ?case
    by (simp add: msys_ok_def msys_init_def manager_new_def pending_def cache_ok_def)
next
  case (step n s s')
  then show ?case by (intro msys_ok_step) simp_all
qed

lemma cache_vouched:
  assumes "mreach S answers ctx fetch n s" and "n < 2 ^ 64"
    and "fmlookup (mg_cache (sy_mg s)) k = Some v"
  shows "\<exists>tag. tag_ok tag (mg_cache_hash (sy_mg s))
    \<and> vouched S answers (sy_accepted s) tag k (fs_hit S v)"
proof -
  from msys_ok_reach [OF assms(1,2)] assms(3) obtain tag resp where
    "tag_ok tag (mg_cache_hash (sy_mg s))" "vouched S answers (sy_accepted s) tag k resp" "fs_store S resp = Some v"
    unfolding msys_ok_def cache_ok_def by blast
  then show ?thesis by (auto simp: store_hit)
qed

lemma flushed_vouched:
  assumes "mreach S answers ctx fetch n s" and "n < 2 ^ 64" and "c \<in> set (sy_flushed s)"
  shows "\<exists>h data. c = fs_into_cache S h data \<and>
    (\<forall>k v. fmlookup data k = Some v \<longrightarrow>
      (\<exists>tag. tag_ok tag h \<and> vouched S answers (sy_accepted s) tag k (fs_hit S v)))"
proof -
  from msys_ok_reach [OF assms(1,2)] assms(3) have "flushed_ok S answers (sy_accepted s) c"
    by (simp add: msys_ok_def)
  then show ?thesis unfolding flushed_ok_def using store_hit by metis
qed

lemma reply_vouched:
  assumes "mreach S answers ctx fetch n s" and "n < 2 ^ 64"
    and "(t, Inr resp) \<in> set (sy_replies s)"
  shows "\<exists>req. (t, req) \<in> set (sy_accepted s)
     \<and> vouched S answers (sy_accepted s) (fs_tag S req) (fs_key S req) resp"
  using msys_ok_reach [OF assms(1,2)] assms(3) by (fastforce simp: msys_ok_def reply_ok_def)

end

section \<open>Counting: permits, in-flight fetches, replies\<close>

definition waiting :: "('req, 'key, 'val, 'resp, 'cache, 'ctx, 'call, 'e) msys \<Rightarrow> nat multiset" where
  "waiting s = mset (map tk_respond_to (sy_running s)) + mset (map fd_respond_to (pending s))
     + (case sy_phase s of Acquiring _ t \<Rightarrow> {#t#} | _ \<Rightarrow> {#})"

definition counts_ok ::
  "('req, 'key, 'val, 'resp, 'cache, 'ctx, 'side, 'call) fetch_spec \<Rightarrow> fetch_config \<Rightarrow> nat
    \<Rightarrow> ('req, 'key, 'val, 'resp, 'cache, 'ctx, 'call, 'e) msys \<Rightarrow> bool" where
  "counts_ok S fetch n s \<longleftrightarrow>
    mg_permits (sy_mg s) + length (sy_running s) = unat (fs_permits S fetch)
    \<and> unat (mg_inflight (sy_mg s)) = length (sy_running s) + length (pending s)
    \<and> length (sy_running s) + length (pending s) \<le> n
    \<and> length (sy_queue s) \<le> COMPLETION_CHANNEL_DEPTH
    \<and> mset (map fst (sy_accepted s)) = mset (map fst (sy_replies s)) + waiting s
    \<and> distinct (map fst (sy_accepted s))"

lemma unat_minus_one_pos: "0 < unat w \<Longrightarrow> unat (w - 1 :: u64) = unat w - 1"
  by (simp add: unat_minus_one unat_gt_0)

lemma counts_take_completion:
  assumes "counts_ok S fetch n s" and "sy_queue s = d # q" and "\<forall>req t. sy_phase s \<noteq> Acquiring req t"
  shows "counts_ok S fetch (Suc n) (take_completion S d q s)"
proof -
  obtain m t r where ac: "apply_completion S d (sy_mg s) = (m, t, r)" by (metis prod_cases3)
  have "0 < unat (mg_inflight (sy_mg s))" using assms by (simp add: counts_ok_def pending_def)
  from unat_minus_one_pos [OF this] show ?thesis
    using assms apply_completion_facts [OF ac]
    by (cases "sy_phase s") (auto simp: counts_ok_def take_completion_def ac pending_def waiting_def)
qed

lemma counts_step:
  assumes "mstep S answers s s'" and "counts_ok S fetch n s" and "Suc n < 2 ^ 64"
  shows "counts_ok S fetch (Suc n) s'"
  using assms(1)
proof cases
  case (acquire req t m task)
  have "unat (mg_inflight (sy_mg s)) < 2 ^ 64 - 1"
    using assms(2,3) by (simp add: counts_ok_def)
  from unat_suc_bound [OF this] show ?thesis
    using assms(2) acquire spawn_fetch_facts [OF acquire(4)]
    by (auto simp: counts_ok_def pending_def waiting_def)
next
  case (complete d q)
  then show ?thesis using counts_take_completion [OF assms(2), of d q] by auto
next
  case (flush_drain d q)
  then show ?thesis using counts_take_completion [OF assms(2), of d q] by auto
next
  case (flush_end m cache)
  then show ?thesis
    using assms(2) flush_take_facts [OF flush_end(3)]
    by (auto simp: counts_ok_def pending_def waiting_def)
qed (use assms(2) in \<open>auto simp: counts_ok_def pending_def waiting_def finish_task_def\<close>)

lemma counts_reach:
  "mreach S answers ctx fetch n s \<Longrightarrow> n < 2 ^ 64 \<Longrightarrow> counts_ok S fetch n s"
proof (induction rule: mreach.induct)
  case start
  then show ?case
    by (simp add: counts_ok_def msys_init_def manager_new_def pending_def waiting_def)
next
  case (step n s s')
  then show ?case by (intro counts_step) simp_all
qed

section \<open>Progress\<close>

text \<open>
  A manager that waits for a permit is never stuck: either one is free, or one of the running
  fetches, once answered, frees one.
\<close>

definition answering :: "('call \<Rightarrow> 'e sim_error + 'resp \<Rightarrow> bool) \<Rightarrow> bool" where
  "answering answers \<longleftrightarrow> (\<forall>c. \<exists>r. answers c r)"

lemma acquiring_steps:
  assumes "counts_ok S fetch n s" and "sy_phase s = Acquiring req t"
    and "0 < fs_permits S fetch" and "answering answers"
  shows "\<exists>s1 s2. (s1 = s \<or> mstep S answers s s1) \<and> mstep S answers s1 s2 \<and> sy_phase s2 = Burst
    \<and> sy_phase s1 = Acquiring req t \<and> sy_accepted s1 = sy_accepted s \<and> sy_flushed s1 = sy_flushed s"
proof (cases "0 < mg_permits (sy_mg s)")
  case True
  obtain m task where sp: "spawn_fetch S req t (sy_mg s) = (m, task)" by fastforce
  show ?thesis
    by (intro exI [of _ s] exI conjI, rule disjI1, rule refl,
        rule mstep.acquire [where answers = answers, OF assms(2) True sp]) (simp_all add: assms(2))
next
  case False
  have "unat (fs_permits S fetch) \<noteq> 0" using assms(3) by (simp add: unat_eq_0 word_gt_0)
  with False assms(1) obtain task ys where run: "sy_running s = [] @ task # ys"
    by (cases "sy_running s") (auto simp: counts_ok_def)
  obtain r where r: "answers (tk_call task) r"
    using assms(4) by (auto simp: answering_def)
  define s1 where "s1 = s\<lparr>sy_running := [] @ ys,
      sy_mg := (sy_mg s)\<lparr>mg_permits := Suc (mg_permits (sy_mg s))\<rparr>,
      sy_finished := sy_finished s @ [finish_task task r]\<rparr>"
  have 1: "mstep S answers s s1" unfolding s1_def by (rule mstep.finish [where answers = answers, OF run r])
  have ph: "sy_phase s1 = Acquiring req t" and pm: "0 < mg_permits (sy_mg s1)"
    by (simp_all add: s1_def assms(2))
  obtain m task' where sp: "spawn_fetch S req t (sy_mg s1) = (m, task')" by fastforce
  show ?thesis
    by (intro exI [of _ s1] exI conjI, rule disjI2, rule 1,
        rule mstep.acquire [where answers = answers, OF ph pm sp]) (simp_all add: ph, simp_all add: s1_def)
qed

lemma acquiring_progress:
  assumes "counts_ok S fetch n s" and "sy_phase s = Acquiring req t"
    and "0 < fs_permits S fetch" and "answering answers"
  shows "\<exists>s1 s2. (s1 = s \<or> mstep S answers s s1) \<and> mstep S answers s1 s2 \<and> sy_phase s2 = Burst"
  using acquiring_steps [OF assms] by blast

text \<open>Left alone, the manager and its tasks work off everything in progress.\<close>

definition work :: "('req, 'key, 'val, 'resp, 'cache, 'ctx, 'call, 'e) msys \<Rightarrow> nat" where
  "work s = 3 * length (sy_running s) + 2 * length (sy_finished s) + length (sy_queue s)"

lemma take_completion_frame [simp]:
  "sy_phase (take_completion S d q s) = sy_phase s"
  "sy_accepted (take_completion S d q s) = sy_accepted s"
  "sy_running (take_completion S d q s) = sy_running s"
  "sy_finished (take_completion S d q s) = sy_finished s"
  "sy_queue (take_completion S d q s) = q"
  by (simp_all add: take_completion_def split_beta)

lemma work_step:
  assumes "sy_phase s = Selecting" and "work s \<noteq> 0" and "answering answers"
  shows "\<exists>s'. mstep S answers s s' \<and> work s' < work s \<and> sy_phase s' = Selecting
    \<and> sy_accepted s' = sy_accepted s"
proof (cases "sy_queue s")
  case (Cons d q)
  from mstep.complete [OF assms(1) Cons] show ?thesis
    by (intro exI [of _ "take_completion S d q s"]) (simp add: work_def Cons assms(1))
next
  case Nil
  show ?thesis
  proof (cases "sy_finished s")
    case (Cons d ds)
    then have "sy_finished s = [] @ d # ds" by simp
    moreover have "length (sy_queue s) < COMPLETION_CHANNEL_DEPTH"
      by (simp add: Nil COMPLETION_CHANNEL_DEPTH_def)
    ultimately show ?thesis
      by (intro exI, intro conjI, rule mstep.send)
        (auto simp: work_def Cons Nil assms(1))
  next
    case finished: Nil
    with Nil assms(2) obtain task ys where run: "sy_running s = [] @ task # ys"
      by (cases "sy_running s") (auto simp: work_def)
    obtain r where r: "answers (tk_call task) r"
      using assms(3) by (auto simp: answering_def)
    show ?thesis
      by (intro exI, intro conjI, rule mstep.finish [where answers = answers, OF run r])
        (auto simp: work_def run assms(1))
  qed
qed

lemma work_off:
  assumes "mreach S answers ctx fetch n s" and "sy_phase s = Selecting"
    and "answering answers"
  shows "\<exists>k s'. mreach S answers ctx fetch (n + k) s' \<and> k \<le> work s \<and> work s' = 0
    \<and> sy_phase s' = Selecting \<and> sy_accepted s' = sy_accepted s"
  using assms(1,2)
proof (induction "work s" arbitrary: n s rule: less_induct)
  case less
  show ?case
  proof (cases "work s = 0")
    case True
    with less.prems show ?thesis by (intro exI [of _ 0] exI [of _ s]) simp
  next
    case False
    from work_step [OF less.prems(2) this assms(3)] obtain s1 where s1:
      "mstep S answers s s1" "work s1 < work s" "sy_phase s1 = Selecting"
      "sy_accepted s1 = sy_accepted s" by blast
    from less.hyps [OF s1(2) mreach.step [OF less.prems(1) s1(1)] s1(3)] obtain k s' where
      "mreach S answers ctx fetch (Suc n + k) s'" "k \<le> work s1" "work s' = 0"
      "sy_phase s' = Selecting" "sy_accepted s' = sy_accepted s1" by blast
    with s1 show ?thesis by (intro exI [of _ "Suc k"] exI [of _ s']) simp
  qed
qed

lemma no_work_all_answered:
  assumes "counts_ok S fetch n s" and "work s = 0" and "sy_phase s = Selecting"
  shows "mset (map fst (sy_replies s)) = mset (map fst (sy_accepted s))"
  using assms by (simp add: counts_ok_def waiting_def pending_def work_def)

section \<open>An interpreter for the step relation\<close>

text \<open>
  \<open>mexec1\<close> performs one named action; it is sound and complete for \<open>mstep\<close>.
\<close>

datatype ('req, 'side, 'resp, 'e) mevent =
    EvSide "'side list"
  | EvBurst "'side list"
  | EvRequest nat 'req
  | EvAcquire
  | EvBurstEnd
  | EvFinish nat "'e sim_error + 'resp"
  | EvSend nat
  | EvComplete
  | EvFlushBegin
  | EvFlushEnd

fun mexec1 ::
  "('req, 'key, 'val, 'resp, 'cache, 'ctx, 'side, 'call) fetch_spec
    \<Rightarrow> ('call \<Rightarrow> 'e sim_error + 'resp \<Rightarrow> bool)
    \<Rightarrow> ('req, 'key, 'val, 'resp, 'cache, 'ctx, 'call, 'e) msys
    \<Rightarrow> ('req, 'side, 'resp, 'e) mevent
    \<Rightarrow> ('req, 'key, 'val, 'resp, 'cache, 'ctx, 'call, 'e) msys option" where
  "mexec1 S answers s (EvSide msgs) =
    (case sy_phase s of
       Selecting \<Rightarrow> Some (s\<lparr>sy_mg := drain_side S msgs (sy_mg s)\<rparr>) | _ \<Rightarrow> None)"
| "mexec1 S answers s (EvBurst msgs) =
    (case sy_phase s of
       Selecting \<Rightarrow> Some (s\<lparr>sy_mg := drain_side S msgs (sy_mg s), sy_phase := Burst\<rparr>) | _ \<Rightarrow> None)"
| "mexec1 S answers s (EvRequest t req) =
    (case sy_phase s of
       Burst \<Rightarrow>
         (if t \<in> fst ` set (sy_accepted s) then None
          else let m = retag S req (sy_mg s)
               in case fmlookup (mg_cache m) (fs_key S req) of
                    Some v \<Rightarrow> Some (s\<lparr>sy_mg := m, sy_replies := sy_replies s @ [(t, Inr (fs_hit S v))],
                                    sy_accepted := sy_accepted s @ [(t, req)]\<rparr>)
                  | None \<Rightarrow> Some (s\<lparr>sy_mg := m, sy_phase := Acquiring req t,
                                    sy_accepted := sy_accepted s @ [(t, req)]\<rparr>))
     | _ \<Rightarrow> None)"
| "mexec1 S answers s EvAcquire =
    (case sy_phase s of
       Acquiring req t \<Rightarrow>
         (if 0 < mg_permits (sy_mg s)
          then (case spawn_fetch S req t (sy_mg s) of (m, task) \<Rightarrow>
                  Some (s\<lparr>sy_mg := m, sy_phase := Burst, sy_running := sy_running s @ [task]\<rparr>))
          else None)
     | _ \<Rightarrow> None)"
| "mexec1 S answers s EvBurstEnd =
    (case sy_phase s of Burst \<Rightarrow> Some (s\<lparr>sy_phase := Selecting\<rparr>) | _ \<Rightarrow> None)"
| "mexec1 S answers s (EvFinish i r) =
    (if i < length (sy_running s) \<and> answers (tk_call (sy_running s ! i)) r
     then Some (s\<lparr>sy_running := take i (sy_running s) @ drop (Suc i) (sy_running s),
                 sy_mg := (sy_mg s)\<lparr>mg_permits := Suc (mg_permits (sy_mg s))\<rparr>,
                 sy_finished := sy_finished s @ [finish_task (sy_running s ! i) r]\<rparr>)
     else None)"
| "mexec1 S answers s (EvSend i) =
    (if i < length (sy_finished s) \<and> length (sy_queue s) < COMPLETION_CHANNEL_DEPTH
     then Some (s\<lparr>sy_finished := take i (sy_finished s) @ drop (Suc i) (sy_finished s),
                 sy_queue := sy_queue s @ [sy_finished s ! i]\<rparr>)
     else None)"
| "mexec1 S answers s EvComplete =
    (case sy_queue s of
       [] \<Rightarrow> None
     | d # q \<Rightarrow>
         (case sy_phase s of
            Selecting \<Rightarrow> Some (take_completion S d q s)
          | Draining \<Rightarrow> (if 0 < mg_inflight (sy_mg s) then Some (take_completion S d q s) else None)
          | _ \<Rightarrow> None))"
| "mexec1 S answers s EvFlushBegin =
    (case sy_phase s of Selecting \<Rightarrow> Some (s\<lparr>sy_phase := Draining\<rparr>) | _ \<Rightarrow> None)"
| "mexec1 S answers s EvFlushEnd =
    (case sy_phase s of
       Draining \<Rightarrow>
         (case flush_take S (sy_mg s) of (m, cache) \<Rightarrow>
            Some (s\<lparr>sy_mg := m, sy_phase := Selecting, sy_flushed := sy_flushed s @ [cache]\<rparr>))
     | _ \<Rightarrow> None)"

fun mexec ::
  "('req, 'key, 'val, 'resp, 'cache, 'ctx, 'side, 'call) fetch_spec
    \<Rightarrow> ('call \<Rightarrow> 'e sim_error + 'resp \<Rightarrow> bool)
    \<Rightarrow> ('req, 'key, 'val, 'resp, 'cache, 'ctx, 'call, 'e) msys
    \<Rightarrow> ('req, 'side, 'resp, 'e) mevent list
    \<Rightarrow> ('req, 'key, 'val, 'resp, 'cache, 'ctx, 'call, 'e) msys option" where
  "mexec S answers s [] = Some s"
| "mexec S answers s (e # es) =
    (case mexec1 S answers s e of None \<Rightarrow> None | Some s' \<Rightarrow> mexec S answers s' es)"

lemma mexec1_sound: "mexec1 S answers s e = Some s' \<Longrightarrow> mstep S answers s s'"
  by (cases e)
    (auto split: phase.splits option.splits prod.splits list.splits if_splits
      simp: Let_def id_take_nth_drop [symmetric] intro: mstep.intros
      mstep.finish [OF id_take_nth_drop] mstep.send [OF id_take_nth_drop])

lemma mexec1_complete: "mstep S answers s s' \<Longrightarrow> \<exists>e. mexec1 S answers s e = Some s'"
proof (induction rule: mstep.cases)
  case (side s msgs)
  then show ?case by (intro exI [of _ "EvSide msgs"]) simp
next
  case (burst_begin s msgs)
  then show ?case by (intro exI [of _ "EvBurst msgs"]) simp
next
  case (hit s t m req v)
  then show ?case by (intro exI [of _ "EvRequest t req"]) (simp add: Let_def)
next
  case (miss s t m req)
  then show ?case by (intro exI [of _ "EvRequest t req"]) (simp add: Let_def)
next
  case (acquire s req t m task)
  then show ?case by (intro exI [of _ EvAcquire]) simp
next
  case (burst_end s)
  then show ?case by (intro exI [of _ EvBurstEnd]) simp
next
  case (finish s xs task ys r)
  then show ?case by (intro exI [of _ "EvFinish (length xs) r"]) simp
next
  case (send s xs d ys)
  then show ?case by (intro exI [of _ "EvSend (length xs)"]) simp
next
  case (complete s d q)
  then show ?case by (intro exI [of _ EvComplete]) simp
next
  case (flush_begin s)
  then show ?case by (intro exI [of _ EvFlushBegin]) simp
next
  case (flush_drain s d q)
  then show ?case by (intro exI [of _ EvComplete]) simp
next
  case (flush_end s m cache)
  then show ?case by (intro exI [of _ EvFlushEnd]) simp
qed

lemma mexec_reach:
  "mreach S answers ctx fetch n s \<Longrightarrow> mexec S answers s es = Some s' \<Longrightarrow>
    mreach S answers ctx fetch (n + length es) s'"
proof (induction es arbitrary: n s)
  case Nil
  then show ?case by simp
next
  case (Cons e es)
  then obtain s1 where s1: "mexec1 S answers s e = Some s1" "mexec S answers s1 es = Some s'"
    by (auto split: option.splits)
  from Cons.IH [OF mreach.step [OF Cons.prems(1) mexec1_sound [OF s1(1)]] s1(2)]
  show ?case by simp
qed

lemmas mexec_init_reach = mexec_reach [OF mreach.start, simplified]

end
