(* ===== verification/Managers.thy ===== *)
theory Managers
  imports Manager_Core Rpc
begin

text \<open>
  \<open>rex-sim/src/managers.rs\<close>: the four instances of the fetch manager.  Each is a value of the
  trait record; each satisfies the trait's laws, so the generic invariants hold for all four.
  The context of the account manager is the outgoing side channel, a list of the registrations
  sent; the context of the code manager is its table of address hints.
\<close>

section \<open>The four specs\<close>

type_synonym 'c account_spec_t =
  "(account_request, address, 'c account_info, 'c account_info option, 'c account_cache,
    code_registration list, unit, address \<times> u64) fetch_spec"

definition account_spec :: "'c account_spec_t" where
  "account_spec = \<lparr>
     fs_label = ''Account'',
     fs_epoch_guarded = True,
     fs_permits = fc_account,
     fs_tag = (\<lambda>req. Some (ar_block_hash req)),
     fs_key = (\<lambda>req. ar_address req),
     fs_hit = (\<lambda>value. Some value),
     fs_store = (\<lambda>resp. resp),
     fs_on_success = (\<lambda>ctx address resp.
       case resp of
         Some info \<Rightarrow> ctx @ [\<lparr>reg_code_hash = ai_code_hash info, reg_address = address\<rparr>]
       | None \<Rightarrow> ctx),
     fs_on_side = (\<lambda>ctx _. ctx),
     fs_into_cache = (\<lambda>tag data. \<lparr>tc_block_hash = tag, tc_data = data\<rparr>),
     fs_fetch = (\<lambda>_ req. (ar_address req, ar_block req))\<rparr>"

type_synonym code_hints = "(b256, address) fmap"

type_synonym 'c code_spec_t =
  "(code_request, b256, 'c, 'c, 'c code_cache, code_hints, code_registration,
    b256 \<times> address option \<times> u64) fetch_spec"

definition code_spec :: "'c code_spec_t" where
  "code_spec = \<lparr>
     fs_label = ''Code'',
     fs_epoch_guarded = False,
     fs_permits = fc_code,
     fs_tag = (\<lambda>_. None),
     fs_key = (\<lambda>req. cr_code_hash req),
     fs_hit = (\<lambda>value. value),
     fs_store = (\<lambda>resp. Some resp),
     fs_on_success = (\<lambda>ctx _ _. ctx),
     fs_on_side = (\<lambda>ctx reg. fmupd (reg_code_hash reg) (reg_address reg) ctx),
     fs_into_cache = (\<lambda>_ data. \<lparr>cc_data = data\<rparr>),
     fs_fetch = (\<lambda>ctx req.
       (cr_code_hash req,
        (case cr_address_hint req of
           Some a \<Rightarrow> Some a
         | None \<Rightarrow> fmlookup ctx (cr_code_hash req)),
        cr_block req))\<rparr>"

type_synonym storage_spec_t =
  "(storage_request, address \<times> u256, u256, u256, storage_cache, unit, unit,
    address \<times> u256 \<times> u64) fetch_spec"

definition storage_spec :: storage_spec_t where
  "storage_spec = \<lparr>
     fs_label = ''Storage'',
     fs_epoch_guarded = True,
     fs_permits = fc_storage,
     fs_tag = (\<lambda>req. Some (sr_block_hash req)),
     fs_key = (\<lambda>req. (sr_address req, sr_index req)),
     fs_hit = (\<lambda>value. value),
     fs_store = (\<lambda>resp. Some resp),
     fs_on_success = (\<lambda>ctx _ _. ctx),
     fs_on_side = (\<lambda>ctx _. ctx),
     fs_into_cache = (\<lambda>tag data. \<lparr>tc_block_hash = tag, tc_data = data\<rparr>),
     fs_fetch = (\<lambda>_ req. (sr_address req, sr_index req, sr_block req))\<rparr>"

type_synonym block_hash_spec_t =
  "(block_hash_request, u64, b256, b256, block_hash_cache, unit, unit, u64) fetch_spec"

definition block_hash_spec :: block_hash_spec_t where
  "block_hash_spec = \<lparr>
     fs_label = ''Block hash'',
     fs_epoch_guarded = True,
     fs_permits = fc_block_hash,
     fs_tag = (\<lambda>req. Some (br_at_block_hash req)),
     fs_key = (\<lambda>req. br_number req),
     fs_hit = (\<lambda>value. value),
     fs_store = (\<lambda>resp. Some resp),
     fs_on_success = (\<lambda>ctx _ _. ctx),
     fs_on_side = (\<lambda>ctx _. ctx),
     fs_into_cache = (\<lambda>tag data. \<lparr>tc_block_hash = tag, tc_data = data\<rparr>),
     fs_fetch = (\<lambda>_ req. br_number req)\<rparr>"

lemmas spec_defs = account_spec_def code_spec_def storage_spec_def block_hash_spec_def

section \<open>What the node may answer\<close>

text \<open>
  The node moves while the manager runs: \<open>views\<close> is the set of its states, each call is
  answered by one of them.
\<close>

definition account_answers ::
  "'c env \<Rightarrow> 'e node set \<Rightarrow> address \<times> u64 \<Rightarrow> 'e sim_error + 'c account_info option \<Rightarrow> bool" where
  "account_answers E views c r \<longleftrightarrow> (\<exists>nd \<in> views. r \<in> set (get_account E nd (fst c) (snd c)))"

definition code_answers ::
  "'c env \<Rightarrow> 'e node set \<Rightarrow> b256 \<times> address option \<times> u64 \<Rightarrow> 'e sim_error + 'c \<Rightarrow> bool" where
  "code_answers E views c r \<longleftrightarrow>
    (\<exists>nd \<in> views. r = get_code_by_hash E nd (fst c) (fst (snd c)) (snd (snd c)))"

definition storage_answers ::
  "'e node set \<Rightarrow> address \<times> u256 \<times> u64 \<Rightarrow> 'e sim_error + u256 \<Rightarrow> bool" where
  "storage_answers views c r \<longleftrightarrow>
    (\<exists>nd \<in> views. r = get_storage nd (fst c) (fst (snd c)) (snd (snd c)))"

definition block_hash_answers :: "'e node set \<Rightarrow> u64 \<Rightarrow> 'e sim_error + b256 \<Rightarrow> bool" where
  "block_hash_answers views c r \<longleftrightarrow> (\<exists>nd \<in> views. r = get_block_hash nd c)"

lemmas answers_defs =
  account_answers_def code_answers_def storage_answers_def block_hash_answers_def

lemma account_answering: "views \<noteq> {} \<Longrightarrow> answering (account_answers E views)"
proof -
  assume "views \<noteq> {}"
  then obtain nd where nd: "nd \<in> views" by blast
  have "\<exists>r. account_answers E views c r" for c
    using nd get_account_nonempty [of E nd "fst c" "snd c"]
    unfolding account_answers_def by (metis list.set_intros(1) neq_Nil_conv)
  then show ?thesis by (simp add: answering_def)
qed

section \<open>The laws hold for all four\<close>

interpretation acct: fetch_laws account_spec
  by unfold_locales (auto simp: account_spec_def)

interpretation code: fetch_laws code_spec
  by unfold_locales (auto simp: code_spec_def)

interpretation stor: fetch_laws storage_spec
  by unfold_locales (auto simp: storage_spec_def)

interpretation bhash: fetch_laws block_hash_spec
  by unfold_locales (auto simp: block_hash_spec_def)

text \<open>What the generic facts say of each spec.\<close>

lemma account_vouched:
  assumes "vouched account_spec (account_answers E views) acc (Some h) a resp"
  shows "\<exists>t req nd. (t, req) \<in> set acc \<and> ar_address req = a \<and> ar_block_hash req = h
    \<and> nd \<in> views \<and> Inr resp \<in> set (get_account E nd a (ar_block req))"
proof -
  from assms obtain t req where "(t, req) \<in> set acc"
    "ar_block_hash req = h" "ar_address req = a"
    "account_answers E views (ar_address req, ar_block req) (Inr resp)"
    by (auto simp: vouched_def account_spec_def)
  then show ?thesis
    by (intro exI [of _ t] exI [of _ req]) (auto simp: account_answers_def)
qed

lemma storage_vouched:
  assumes "vouched storage_spec (storage_answers views) acc (Some h) (a, slot) v"
  shows "\<exists>t req nd. (t, req) \<in> set acc \<and> sr_address req = a \<and> sr_index req = slot
    \<and> sr_block_hash req = h \<and> nd \<in> views \<and> get_storage nd a slot (sr_block req) = Inr v"
proof -
  from assms obtain t req where "(t, req) \<in> set acc"
    "sr_block_hash req = h" "sr_address req = a" "sr_index req = slot"
    "storage_answers views (sr_address req, sr_index req, sr_block req) (Inr v)"
    by (auto simp: vouched_def storage_spec_def)
  then show ?thesis
    by (intro exI [of _ t] exI [of _ req]) (auto simp: storage_answers_def dest: sym)
qed

lemma block_hash_vouched:
  assumes "vouched block_hash_spec (block_hash_answers views) acc (Some h) k v"
  shows "\<exists>t req nd. (t, req) \<in> set acc \<and> br_number req = k \<and> br_at_block_hash req = h
    \<and> nd \<in> views \<and> get_block_hash nd k = Inr v"
proof -
  from assms obtain t req where "(t, req) \<in> set acc" "br_at_block_hash req = h" "br_number req = k"
    "block_hash_answers views (br_number req) (Inr v)"
    by (auto simp: vouched_def block_hash_spec_def)
  then show ?thesis
    by (intro exI [of _ t] exI [of _ req]) (auto simp: block_hash_answers_def dest: sym)
qed

lemma account_spec_tags:
  "\<not> vouched account_spec answers acc None a resp" "fs_hit account_spec i = Some i"
  by (auto simp: vouched_def account_spec_def)

lemma storage_spec_tags:
  "\<not> vouched storage_spec answers acc None k v" "fs_hit storage_spec w = w"
  by (auto simp: vouched_def storage_spec_def)

lemma block_hash_spec_tags:
  "\<not> vouched block_hash_spec answers acc None k v" "fs_hit block_hash_spec w = w"
  by (auto simp: vouched_def block_hash_spec_def)

lemma code_vouched:
  "vouched code_spec (code_answers E views) acc tag h c \<Longrightarrow>
    \<exists>bs. code_hash_of E bs = h \<and> c = en_new_raw E bs"
  by (auto simp: vouched_def code_spec_def code_answers_def dest!: get_code_by_hash_Inr [OF sym])

text \<open>What a flushed cache holds.\<close>

lemma account_flushed_entry:
  assumes "mreach account_spec (account_answers E views) ctx fetch n s" and "n < 2 ^ 64"
    and "c \<in> set (sy_flushed s)" and "fmlookup (tc_data c) a = Some info"
  shows "\<exists>t req nd. (t, req) \<in> set (sy_accepted s) \<and> ar_address req = a
     \<and> ar_block_hash req = tc_block_hash c \<and> nd \<in> views
     \<and> Inr (Some info) \<in> set (get_account E nd a (ar_block req))"
proof -
  from acct.flushed_vouched [OF assms(1,2,3)] obtain h data where c:
    "c = fs_into_cache account_spec h data" and v:
    "\<And>k v. fmlookup data k = Some v \<Longrightarrow>
      \<exists>tag. tag_ok tag h \<and> vouched account_spec (account_answers E views) (sy_accepted s) tag k
        (fs_hit account_spec v)"
    by blast
  from c assms(4) have "fmlookup data a = Some info" and "tc_block_hash c = h"
    by (simp_all add: account_spec_def)
  with v [of a info] have
    "vouched account_spec (account_answers E views) (sy_accepted s) (Some (tc_block_hash c)) a (Some info)"
    by (auto simp: account_spec_tags tag_ok_def)
  from account_vouched [OF this] show ?thesis .
qed

lemma storage_flushed_entry:
  assumes "mreach storage_spec (storage_answers views) ctx fetch n s" and "n < 2 ^ 64"
    and "c \<in> set (sy_flushed s)" and "fmlookup (tc_data c) (a, slot) = Some v"
  shows "\<exists>t req nd. (t, req) \<in> set (sy_accepted s) \<and> sr_address req = a \<and> sr_index req = slot
     \<and> sr_block_hash req = tc_block_hash c \<and> nd \<in> views \<and> get_storage nd a slot (sr_block req) = Inr v"
proof -
  from stor.flushed_vouched [OF assms(1,2,3)] obtain h data where c:
    "c = fs_into_cache storage_spec h data" and d:
    "\<And>k v. fmlookup data k = Some v \<Longrightarrow>
      \<exists>tag. tag_ok tag h \<and> vouched storage_spec (storage_answers views) (sy_accepted s) tag k
        (fs_hit storage_spec v)"
    by blast
  from c assms(4) have "fmlookup data (a, slot) = Some v" and "tc_block_hash c = h"
    by (simp_all add: storage_spec_def)
  with d [of "(a, slot)" v] have
    "vouched storage_spec (storage_answers views) (sy_accepted s) (Some (tc_block_hash c)) (a, slot) v"
    by (auto simp: storage_spec_tags tag_ok_def)
  from storage_vouched [OF this] show ?thesis .
qed

lemma block_hash_flushed_entry:
  assumes "mreach block_hash_spec (block_hash_answers views) ctx fetch n s" and "n < 2 ^ 64"
    and "c \<in> set (sy_flushed s)" and "fmlookup (tc_data c) k = Some v"
  shows "\<exists>t req nd. (t, req) \<in> set (sy_accepted s) \<and> br_number req = k
     \<and> br_at_block_hash req = tc_block_hash c \<and> nd \<in> views \<and> get_block_hash nd k = Inr v"
proof -
  from bhash.flushed_vouched [OF assms(1,2,3)] obtain h data where c:
    "c = fs_into_cache block_hash_spec h data" and d:
    "\<And>k v. fmlookup data k = Some v \<Longrightarrow>
      \<exists>tag. tag_ok tag h \<and> vouched block_hash_spec (block_hash_answers views) (sy_accepted s) tag k
        (fs_hit block_hash_spec v)"
    by blast
  from c assms(4) have "fmlookup data k = Some v" and "tc_block_hash c = h"
    by (simp_all add: block_hash_spec_def)
  with d [of k v] have
    "vouched block_hash_spec (block_hash_answers views) (sy_accepted s) (Some (tc_block_hash c)) k v"
    by (auto simp: block_hash_spec_tags tag_ok_def)
  from block_hash_vouched [OF this] show ?thesis .
qed

lemma code_flushed_entry:
  assumes "mreach code_spec (code_answers E views) ctx fetch n s" and "n < 2 ^ 64"
    and "c \<in> set (sy_flushed s)" and "fmlookup (cc_data c) h = Some v"
  shows "\<exists>bs. code_hash_of E bs = h \<and> v = en_new_raw E bs"
proof -
  from code.flushed_vouched [OF assms(1,2,3)] obtain t data where c:
    "c = fs_into_cache code_spec t data" and d:
    "\<And>k v. fmlookup data k = Some v \<Longrightarrow>
      \<exists>tag. tag_ok tag t \<and> vouched code_spec (code_answers E views) (sy_accepted s) tag k
        (fs_hit code_spec v)"
    by blast
  from c assms(4) have "fmlookup data h = Some v" by (simp add: code_spec_def)
  from d [OF this] obtain tag where
    "vouched code_spec (code_answers E views) (sy_accepted s) tag h (fs_hit code_spec v)" by blast
  then show ?thesis using code_vouched by (simp add: code_spec_def)
qed

section \<open>A run, for the witnesses\<close>

text \<open>
  A node that knows one balance, and the account manager serving one request from the RPC, the
  same one again from its cache, and a flush.
\<close>

definition demo_env :: "bytes env" where
  "demo_env = \<lparr>en_keccak256 = (\<lambda>bs. of_nat (length bs)), en_KECCAK_EMPTY = 0, en_new_raw = (\<lambda>bs. bs)\<rparr>"

definition demo_node :: "nat node" where
  "demo_node = \<lparr>nd_get_balance = (\<lambda>_ _. Inr 10), nd_get_transaction_count = (\<lambda>_ _. Inr 1),
     nd_get_code_at = (\<lambda>_ _. Inr [0x60, 0x00]), nd_get_storage_at = (\<lambda>_ _ _. Inr 42),
     nd_get_block_by_number = (\<lambda>_. Inr (Some 7)), nd_get_block_number = Inr 100\<rparr>"

definition demo_info :: "bytes account_info" where
  "demo_info = \<lparr>ai_balance = 10, ai_nonce = 1, ai_code_hash = 2, ai_account_id = None, ai_code = None\<rparr>"

definition demo_req :: account_request where
  "demo_req = \<lparr>ar_address = 1, ar_block = 100, ar_block_hash = 7\<rparr>"

definition demo_sreq :: storage_request where
  "demo_sreq = \<lparr>sr_address = 1, sr_index = 3, sr_block = 100, sr_block_hash = 7\<rparr>"

definition demo_breq :: block_hash_request where
  "demo_breq = \<lparr>br_number = 99, br_at_block_hash = 7\<rparr>"

lemmas demo_defs = demo_env_def demo_node_def demo_info_def demo_req_def demo_sreq_def demo_breq_def

lemma demo_account_run:
  "\<exists>s. mreach account_spec (account_answers demo_env {demo_node}) [] fetch_config_default 12 s
    \<and> sy_phase s = Selecting
    \<and> sy_accepted s = [(0, demo_req), (1, demo_req)]
    \<and> sy_replies s = [(0, Inr (Some demo_info)), (1, Inr (Some demo_info))]
    \<and> (\<exists>c. sy_flushed s = [c] \<and> tc_block_hash c = 7 \<and> fmlookup (tc_data c) 1 = Some demo_info)"
proof -
  let ?es = "[EvBurst [], EvRequest 0 demo_req, EvAcquire, EvBurstEnd,
      EvFinish 0 (Inr (Some demo_info)), EvSend 0, EvComplete,
      EvBurst [], EvRequest 1 demo_req, EvBurstEnd, EvFlushBegin]
      :: (account_request, unit, bytes account_info option, nat) mevent list"
  obtain s where s: "mexec account_spec (account_answers demo_env {demo_node})
      (msys_init account_spec [] fetch_config_default) (?es @ [EvFlushEnd]) = Some s"
    "sy_phase s = Selecting" "sy_accepted s = [(0, demo_req), (1, demo_req)]"
    "sy_replies s = [(0, Inr (Some demo_info)), (1, Inr (Some demo_info))]"
    "\<exists>c. sy_flushed s = [c] \<and> tc_block_hash c = 7 \<and> fmlookup (tc_data c) 1 = Some demo_info"
    by (simp add: demo_defs account_spec_def account_answers_def get_account_def msys_init_def
        manager_new_def fetch_config_default_def drain_side_def retag_def spawn_fetch_def
        finish_task_def take_completion_def apply_completion_def flush_take_def code_hash_of_def
        COMPLETION_CHANNEL_DEPTH_def)
  have "mreach account_spec (account_answers demo_env {demo_node}) [] fetch_config_default 12 s"
    using mexec_init_reach [OF s(1)] by (simp add: eval_nat_numeral)
  with s(2-5) show ?thesis by blast
qed

lemma demo_code_run:
  "\<exists>s. mreach code_spec (code_answers demo_env {demo_node}) fmempty fetch_config_default 7 s
    \<and> fmlookup (mg_ctx (sy_mg s)) 2 = Some 9
    \<and> sy_accepted s = [(0, \<lparr>cr_code_hash = 2, cr_block = 100, cr_address_hint = None\<rparr>)]
    \<and> sy_replies s = [(0, Inr [0x60, 0x00])]
    \<and> fmlookup (mg_cache (sy_mg s)) 2 = Some [0x60, 0x00]"
proof -
  let ?req = "\<lparr>cr_code_hash = 2, cr_block = 100, cr_address_hint = None\<rparr>"
  let ?es = "[EvBurst [\<lparr>reg_code_hash = 2, reg_address = 9\<rparr>], EvRequest 0 ?req, EvAcquire,
      EvBurstEnd, EvFinish 0 (Inr [0x60, 0x00])]
      :: (code_request, code_registration, bytes, nat) mevent list"
  obtain s where s: "mexec code_spec (code_answers demo_env {demo_node})
      (msys_init code_spec fmempty fetch_config_default) (?es @ [EvSend 0, EvComplete]) = Some s"
    "fmlookup (mg_ctx (sy_mg s)) 2 = Some 9"
    "sy_accepted s = [(0, ?req)]" "sy_replies s = [(0, Inr [0x60, 0x00])]"
    "fmlookup (mg_cache (sy_mg s)) 2 = Some [0x60, 0x00]"
    by (simp add: demo_defs code_spec_def code_answers_def get_code_by_hash_def msys_init_def
        manager_new_def fetch_config_default_def drain_side_def retag_def spawn_fetch_def
        finish_task_def take_completion_def apply_completion_def code_hash_of_def
        COMPLETION_CHANNEL_DEPTH_def)
  have "mreach code_spec (code_answers demo_env {demo_node}) fmempty fetch_config_default 7 s"
    using mexec_init_reach [OF s(1)] by (simp add: eval_nat_numeral)
  with s(2-5) show ?thesis by blast
qed

lemma demo_code_flush:
  "\<exists>s cc. mreach code_spec (code_answers demo_env {demo_node}) fmempty fetch_config_default 9 s
    \<and> sy_flushed s = [cc] \<and> fmlookup (cc_data cc) 2 = Some [0x60, 0x00]"
proof -
  let ?req = "\<lparr>cr_code_hash = 2, cr_block = 100, cr_address_hint = None\<rparr>"
  let ?es = "[EvBurst [\<lparr>reg_code_hash = 2, reg_address = 9\<rparr>], EvRequest 0 ?req, EvAcquire,
      EvBurstEnd, EvFinish 0 (Inr [0x60, 0x00]), EvSend 0, EvComplete, EvFlushBegin]
      :: (code_request, code_registration, bytes, nat) mevent list"
  obtain s cc where s: "mexec code_spec (code_answers demo_env {demo_node})
      (msys_init code_spec fmempty fetch_config_default) (?es @ [EvFlushEnd]) = Some s"
    "sy_flushed s = [cc]" "fmlookup (cc_data cc) 2 = Some [0x60, 0x00]"
    by (simp add: demo_defs code_spec_def code_answers_def get_code_by_hash_def msys_init_def
        manager_new_def fetch_config_default_def drain_side_def retag_def spawn_fetch_def
        finish_task_def take_completion_def apply_completion_def flush_take_def code_hash_of_def
        COMPLETION_CHANNEL_DEPTH_def)
  have "mreach code_spec (code_answers demo_env {demo_node}) fmempty fetch_config_default 9 s"
    using mexec_init_reach [OF s(1)] by (simp add: eval_nat_numeral)
  with s(2,3) show ?thesis by blast
qed

lemma demo_blocked_run:
  "\<exists>s. mreach account_spec (account_answers demo_env {demo_node}) [] (fetch_config_uniform 1) 4 s
    \<and> sy_phase s = Acquiring demo_req 1 \<and> mg_permits (sy_mg s) = 0"
proof -
  let ?es = "[EvBurst [], EvRequest 0 demo_req, EvAcquire, EvRequest 1 demo_req]
      :: (account_request, unit, bytes account_info option, nat) mevent list"
  obtain s where s: "mexec account_spec (account_answers demo_env {demo_node})
      (msys_init account_spec [] (fetch_config_uniform 1)) ?es = Some s"
    "sy_phase s = Acquiring demo_req 1" "mg_permits (sy_mg s) = 0"
    by (simp add: demo_defs account_spec_def msys_init_def manager_new_def fetch_config_default_def
        fetch_config_uniform_def drain_side_def retag_def spawn_fetch_def)
  have "mreach account_spec (account_answers demo_env {demo_node}) [] (fetch_config_uniform 1) 4 s"
    using mexec_init_reach [OF s(1)] by (simp add: eval_nat_numeral)
  with s(2-3) show ?thesis by blast
qed

text \<open>One storage slot fetched at 100 under hash 7, then the flush.\<close>

lemma demo_storage_run:
  "\<exists>s. mreach storage_spec (storage_answers {demo_node}) () fetch_config_default 9 s
    \<and> sy_accepted s = [(0, demo_sreq)] \<and> sy_replies s = [(0, Inr 42)]
    \<and> (\<exists>c. sy_flushed s = [c] \<and> tc_block_hash c = 7 \<and> fmlookup (tc_data c) (1, 3) = Some 42)"
proof -
  let ?es = "[EvBurst [], EvRequest 0 demo_sreq, EvAcquire, EvBurstEnd, EvFinish 0 (Inr 42), EvSend 0,
      EvComplete, EvFlushBegin] :: (storage_request, unit, u256, nat) mevent list"
  obtain s where s: "mexec storage_spec (storage_answers {demo_node})
      (msys_init storage_spec () fetch_config_default) (?es @ [EvFlushEnd]) = Some s"
    "sy_accepted s = [(0, demo_sreq)]" "sy_replies s = [(0, Inr 42)]"
    "\<exists>c. sy_flushed s = [c] \<and> tc_block_hash c = 7 \<and> fmlookup (tc_data c) (1, 3) = Some 42"
    by (simp add: demo_defs storage_spec_def storage_answers_def get_storage_def msys_init_def
        manager_new_def fetch_config_default_def drain_side_def retag_def spawn_fetch_def
        finish_task_def take_completion_def apply_completion_def flush_take_def
        COMPLETION_CHANNEL_DEPTH_def)
  have "mreach storage_spec (storage_answers {demo_node}) () fetch_config_default 9 s"
    using mexec_init_reach [OF s(1)] by (simp add: eval_nat_numeral)
  with s(2-4) show ?thesis by blast
qed

text \<open>One ancestor's hash fetched under hash 7, then the flush.\<close>

lemma demo_block_hash_run:
  "\<exists>s. mreach block_hash_spec (block_hash_answers {demo_node}) () fetch_config_default 9 s
    \<and> sy_accepted s = [(0, demo_breq)] \<and> sy_replies s = [(0, Inr 7)]
    \<and> (\<exists>c. sy_flushed s = [c] \<and> tc_block_hash c = 7 \<and> fmlookup (tc_data c) 99 = Some 7)"
proof -
  let ?es = "[EvBurst [], EvRequest 0 demo_breq, EvAcquire, EvBurstEnd, EvFinish 0 (Inr 7), EvSend 0,
      EvComplete, EvFlushBegin] :: (block_hash_request, unit, b256, nat) mevent list"
  obtain s where s: "mexec block_hash_spec (block_hash_answers {demo_node})
      (msys_init block_hash_spec () fetch_config_default) (?es @ [EvFlushEnd]) = Some s"
    "sy_accepted s = [(0, demo_breq)]" "sy_replies s = [(0, Inr 7)]"
    "\<exists>c. sy_flushed s = [c] \<and> tc_block_hash c = 7 \<and> fmlookup (tc_data c) 99 = Some 7"
    by (simp add: demo_defs block_hash_spec_def block_hash_answers_def get_block_hash_def msys_init_def
        manager_new_def fetch_config_default_def drain_side_def retag_def spawn_fetch_def
        finish_task_def take_completion_def apply_completion_def flush_take_def
        COMPLETION_CHANNEL_DEPTH_def)
  have "mreach block_hash_spec (block_hash_answers {demo_node}) () fetch_config_default 9 s"
    using mexec_init_reach [OF s(1)] by (simp add: eval_nat_numeral)
  with s(2-4) show ?thesis by blast
qed

text \<open>The account manager with one fetch outstanding.\<close>

lemma demo_open_run:
  "\<exists>s. mreach account_spec (account_answers demo_env {demo_node}) [] fetch_config_default 4 s
    \<and> sy_phase s = Selecting \<and> sy_accepted s = [(0, demo_req)] \<and> sy_replies s = [] \<and> work s = 3"
proof -
  let ?es = "[EvBurst [], EvRequest 0 demo_req, EvAcquire, EvBurstEnd]
      :: (account_request, unit, bytes account_info option, nat) mevent list"
  obtain s where s: "mexec account_spec (account_answers demo_env {demo_node})
      (msys_init account_spec [] fetch_config_default) ?es = Some s"
    "sy_phase s = Selecting" "sy_accepted s = [(0, demo_req)]" "sy_replies s = []" "work s = 3"
    by (simp add: demo_defs account_spec_def msys_init_def work_def
        manager_new_def fetch_config_default_def drain_side_def retag_def spawn_fetch_def)
  have "mreach account_spec (account_answers demo_env {demo_node}) [] fetch_config_default 4 s"
    using mexec_init_reach [OF s(1)] by (simp add: eval_nat_numeral)
  with s(2-5) show ?thesis by blast
qed

section \<open>Properties\<close>

text \<open>
  C4: the account cache a flush hands over is what it is tagged with: every entry is the
  node's answer to a request it accepted for that address and exactly that block hash, no
  matter how requests for other blocks, late completions and earlier flushes interleaved.
\<close>

theorem account_flush_tagged:
  assumes "mreach account_spec (account_answers E views) ctx fetch n s" and "n < 2 ^ 64"
    and "c \<in> set (sy_flushed s)" and "fmlookup (tc_data c) a = Some info"
  shows "\<exists>t req nd. (t, req) \<in> set (sy_accepted s) \<and> ar_address req = a
     \<and> ar_block_hash req = tc_block_hash c \<and> nd \<in> views
     \<and> Inr (Some info) \<in> set (get_account E nd a (ar_block req))"
  using assms by (rule account_flushed_entry)

theorem account_flush_tagged_witness:
  "\<exists>s c (req :: account_request) nd. c \<in> set (sy_flushed s) \<and> fmlookup (tc_data c) 1 = Some demo_info
     \<and> ar_block_hash req = (7 :: b256) \<and> nd \<in> {demo_node}
     \<and> Inr (Some demo_info) \<in> set (get_account demo_env nd 1 (ar_block req))
     \<and> mreach account_spec (account_answers demo_env {demo_node}) [] fetch_config_default 12 s"
proof -
  from demo_account_run obtain s c where s:
    "mreach account_spec (account_answers demo_env {demo_node}) [] fetch_config_default 12 s"
    "c \<in> set (sy_flushed s)" "tc_block_hash c = 7" "fmlookup (tc_data c) 1 = Some demo_info"
    by auto
  from account_flush_tagged [OF s(1) _ s(2,4)] s(3) show ?thesis
    using s by auto
qed

text \<open>
  Code handed out by the code manager has the hash it was asked for: every entry of its
  cache, at any moment and whatever the hints said, is the code of a byte string that hashes
  to its key.
\<close>

theorem code_cache_verified:
  assumes "mreach code_spec (code_answers E views) ctx fetch n s" and "n < 2 ^ 64"
    and "fmlookup (mg_cache (sy_mg s)) h = Some c"
  shows "\<exists>bs. code_hash_of E bs = h \<and> c = en_new_raw E bs"
proof -
  have "fs_hit code_spec c = c" by (simp add: code_spec_def)
  with code.cache_vouched [OF assms] obtain tag where
    "vouched code_spec (code_answers E views) (sy_accepted s) tag h c" by metis
  then show ?thesis by (rule code_vouched)
qed

theorem code_cache_verified_witness:
  "\<exists>s c bs. fmlookup (mg_cache (sy_mg s)) 2 = Some c \<and> code_hash_of demo_env bs = 2
     \<and> c = en_new_raw demo_env bs
     \<and> mreach code_spec (code_answers demo_env {demo_node}) fmempty fetch_config_default 7 s"
proof -
  from demo_code_run obtain s where s:
    "mreach code_spec (code_answers demo_env {demo_node}) fmempty fetch_config_default 7 s"
    "fmlookup (mg_cache (sy_mg s)) 2 = Some [0x60, 0x00]" by blast
  from code_cache_verified [OF s(1) _ s(2)] s show ?thesis by auto
qed

text \<open>
  An account reply is an answer to a request for the same address at the same block hash
  as the one it replies to, also when it comes out of the cache.
\<close>

theorem account_reply_tagged:
  assumes "mreach account_spec (account_answers E views) ctx fetch n s" and "n < 2 ^ 64"
    and "(t, Inr resp) \<in> set (sy_replies s)"
  shows "\<exists>req t' req' nd. (t, req) \<in> set (sy_accepted s) \<and> (t', req') \<in> set (sy_accepted s)
     \<and> ar_address req' = ar_address req \<and> ar_block_hash req' = ar_block_hash req
     \<and> nd \<in> views \<and> Inr resp \<in> set (get_account E nd (ar_address req) (ar_block req'))"
proof -
  from acct.reply_vouched [OF assms] obtain req where req: "(t, req) \<in> set (sy_accepted s)"
    "vouched account_spec (account_answers E views) (sy_accepted s) (Some (ar_block_hash req))
      (ar_address req) resp"
    by (auto simp: account_spec_def)
  from req(1) account_vouched [OF req(2)] show ?thesis by blast
qed

theorem account_reply_tagged_witness:
  "\<exists>s req' nd. (1, Inr (Some demo_info)) \<in> set (sy_replies s)
     \<and> req' \<in> snd ` set (sy_accepted s) \<and> ar_block_hash req' = 7 \<and> nd \<in> {demo_node}
     \<and> Inr (Some demo_info) \<in> set (get_account demo_env nd 1 (ar_block req'))
     \<and> mreach account_spec (account_answers demo_env {demo_node}) [] fetch_config_default 12 s"
proof -
  from demo_account_run obtain s where s:
    "mreach account_spec (account_answers demo_env {demo_node}) [] fetch_config_default 12 s"
    "sy_accepted s = [(0, demo_req), (1, demo_req)]"
    "(1, Inr (Some demo_info)) \<in> set (sy_replies s)"
    by auto
  from account_reply_tagged [OF s(1) _ s(3)] s show ?thesis
    by (auto simp: demo_req_def)
qed

text \<open>
  C6: no request is lost and none is answered twice, for any spec: the tickets replied to,
  together with those still waiting in a running fetch, a completion or the semaphore queue,
  are exactly the accepted ones, each once; running fetches hold exactly the permits missing
  from the semaphore; \<open>inflight\<close> counts what has not been applied, so the subtraction in
  \<open>apply_completion\<close> never underflows; and the completion channel never exceeds its depth.
\<close>

theorem replies_exactly_once:
  assumes "mreach S answers ctx fetch n s" and "n < 2 ^ 64"
  shows "mset (map fst (sy_replies s)) + waiting s = mset (map fst (sy_accepted s))
    \<and> distinct (map fst (sy_replies s))
    \<and> mg_permits (sy_mg s) + length (sy_running s) = unat (fs_permits S fetch)
    \<and> unat (mg_inflight (sy_mg s)) = length (sy_running s) + length (pending s)
    \<and> length (sy_queue s) \<le> COMPLETION_CHANNEL_DEPTH"
proof -
  from counts_reach [OF assms] have c: "counts_ok S fetch n s" .
  then have m: "mset (map fst (sy_accepted s)) = mset (map fst (sy_replies s)) + waiting s"
    and d: "distinct (map fst (sy_accepted s))"
    by (simp_all only: counts_ok_def)
  from d m have "\<forall>a. count (mset (map fst (sy_replies s)) + waiting s) a \<le> 1"
    unfolding m [symmetric] by (simp add: distinct_count_atmost_1)
  then have "\<forall>a. count (mset (map fst (sy_replies s))) a \<le> 1"
    by (auto intro: le_trans [OF le_add1])
  then have "distinct (map fst (sy_replies s))"
    by (metis distinct_count_atmost_1 in_multiset_in_set le_SucE One_nat_def le_zero_eq
        not_in_iff Suc_leI count_greater_zero_iff le_antisym)
  with m c show ?thesis by (simp add: counts_ok_def)
qed

theorem replies_exactly_once_witness:
  "\<exists>s. mreach account_spec (account_answers demo_env {demo_node}) [] fetch_config_default 12 s
     \<and> mset (map fst (sy_replies s)) + waiting s = {#0, 1#}"
proof -
  from demo_account_run obtain s where s:
    "mreach account_spec (account_answers demo_env {demo_node}) [] fetch_config_default 12 s"
    "sy_accepted s = [(0, demo_req), (1, demo_req)]" by blast
  from replies_exactly_once [OF s(1)] s show ?thesis by auto
qed

text \<open>
  C15: from every state at the \<open>select!\<close>, the manager and its tasks can work off all that is in
  progress, in a number of steps the state bounds, and then every request ever accepted has
  been replied to.
\<close>

theorem every_request_can_be_answered:
  assumes "mreach S answers ctx fetch n s" and "sy_phase s = Selecting" and "answering answers"
    and "n + work s < 2 ^ 64"
  shows "\<exists>k s'. k \<le> work s \<and> mreach S answers ctx fetch (n + k) s' \<and> sy_phase s' = Selecting
    \<and> sy_accepted s' = sy_accepted s
    \<and> mset (map fst (sy_replies s')) = mset (map fst (sy_accepted s))"
proof -
  from work_off [OF assms(1-3)] obtain k s' where w:
    "mreach S answers ctx fetch (n + k) s'" "k \<le> work s" "work s' = 0"
    "sy_phase s' = Selecting" "sy_accepted s' = sy_accepted s" by blast
  from w(2) assms(4) have "n + k < 2 ^ 64" by simp
  from no_work_all_answered [OF counts_reach [OF w(1) this] w(3,4)] w show ?thesis
    by (intro exI [of _ k] exI [of _ s']) simp
qed

theorem every_request_can_be_answered_witness:
  "\<exists>s k s'. mreach account_spec (account_answers demo_env {demo_node}) [] fetch_config_default 4 s
     \<and> sy_replies s = [] \<and> k \<le> 3
     \<and> mreach account_spec (account_answers demo_env {demo_node}) [] fetch_config_default (4 + k) s'
     \<and> sy_accepted s' = [(0, demo_req)] \<and> mset (map fst (sy_replies s')) = {#0#}"
proof -
  from demo_open_run obtain s where s:
    "mreach account_spec (account_answers demo_env {demo_node}) [] fetch_config_default 4 s"
    "sy_phase s = Selecting" "sy_accepted s = [(0, demo_req)]" "sy_replies s = []" "work s = 3"
    by blast
  have "answering (account_answers demo_env {demo_node})" by (rule account_answering) simp
  from every_request_can_be_answered [OF s(1,2) this] s(5) obtain k s' where
    "k \<le> 3" "mreach account_spec (account_answers demo_env {demo_node}) [] fetch_config_default (4 + k) s'"
    "sy_accepted s' = sy_accepted s" "mset (map fst (sy_replies s')) = mset (map fst (sy_accepted s))"
    by auto
  with s(1,3,4) show ?thesis
    by (intro exI [of _ s] exI [of _ k] exI [of _ s']) simp
qed

text \<open>
  What a completed account fetch does, on every branch: the requester always gets the
  result; a found account always registers its address as a hint for its code hash, but
  enters the cache only in the epoch it was issued in; a missing account and an error leave
  the cache and the hints alone.
\<close>

lemma account_completion:
  "apply_completion account_spec d m =
    (let m1 = m\<lparr>mg_inflight := mg_inflight m - 1\<rparr>;
         hint = (\<lambda>i. \<lparr>reg_code_hash = ai_code_hash i, reg_address = fd_key d\<rparr>)
     in (case fd_result d of
           Inr (Some i) \<Rightarrow>
             if fd_epoch d = mg_epoch m
             then m1\<lparr>mg_ctx := mg_ctx m @ [hint i], mg_cache := fmupd (fd_key d) i (mg_cache m)\<rparr>
             else m1\<lparr>mg_ctx := mg_ctx m @ [hint i]\<rparr>
         | _ \<Rightarrow> m1,
         fd_respond_to d, fd_result d))"
proof (cases "fd_result d")
  case (Inl e)
  then show ?thesis by (simp add: apply_completion_def)
next
  case (Inr r)
  then show ?thesis
    by (cases r; cases "fd_epoch d = mg_epoch m")
      (simp_all add: apply_completion_def account_spec_def)
qed

text \<open>
  The code manager keeps its cache across blocks: its completions enter the cache in
  whatever epoch they arrive, no request clears it, and a registered address is the hint of
  the next request for its code hash.
\<close>

lemma code_cache_spans_blocks:
  "retag code_spec req m = m
   \<and> fmlookup (mg_cache (fst (apply_completion code_spec d m))) h =
      (case fd_result d of
         Inr c \<Rightarrow> if h = fd_key d then Some c else fmlookup (mg_cache m) h
       | Inl _ \<Rightarrow> fmlookup (mg_cache m) h)
   \<and> fs_fetch code_spec (fs_on_side code_spec ctx reg)
        \<lparr>cr_code_hash = reg_code_hash reg, cr_block = b, cr_address_hint = None\<rparr>
      = (reg_code_hash reg, Some (reg_address reg), b)"
  by (cases "fd_result d") (simp_all add: retag_def apply_completion_def code_spec_def)

end
