(* ===== verification/Hints.thy ===== *)
theory Hints
  imports Managers
begin

text \<open>
  The account manager and the code manager together (\<open>rex-sim/src/manager_core.rs\<close>,
  \<open>managers.rs\<close>, wired up in \<open>lib.rs\<close>).  Their only link is the side channel: each account
  resolved sends its code hash with its address, and the code manager drains what is there
  when it wakes up for a side message and once at the start of every burst of requests.

  The channel is the account manager's context, the list of all registrations ever sent, with
  a mark of how many the code manager has taken.
\<close>

section \<open>The two managers and their channel\<close>

type_synonym ('c, 'e) account_msys =
  "(account_request, address, 'c account_info, 'c account_info option, 'c account_cache,
    code_registration list, address \<times> u64, 'e) msys"

type_synonym ('c, 'e) code_msys =
  "(code_request, b256, 'c, 'c, 'c code_cache, code_hints, b256 \<times> address option \<times> u64, 'e) msys"

record ('c, 'e) duo =
  du_acct :: "('c, 'e) account_msys"
  du_code :: "('c, 'e) code_msys"
  du_seen :: nat

definition outbox :: "('c, 'e) duo \<Rightarrow> code_registration list" where
  "outbox d = mg_ctx (sy_mg (du_acct d))"

definition duo_init :: "fetch_config \<Rightarrow> ('c, 'e) duo" where
  "duo_init fetch = \<lparr>du_acct = msys_init account_spec [] fetch,
     du_code = msys_init code_spec fmempty fetch, du_seen = 0\<rparr>"

text \<open>
  \<open>drain\<close>: the side arm, or the first request of a burst, takes everything in the channel.
  \<open>code\<close>: any other step of the code manager and its tasks; none of them touches the hints.
\<close>

inductive duo_step :: "'c env \<Rightarrow> 'e node set \<Rightarrow> ('c, 'e) duo \<Rightarrow> ('c, 'e) duo \<Rightarrow> bool"
  for E views where
  acct: "mstep account_spec (account_answers E views) (du_acct d) a \<Longrightarrow>
    duo_step E views d (d\<lparr>du_acct := a\<rparr>)"
| drain: "sy_phase (du_code d) = Selecting \<Longrightarrow> ph = Selecting \<or> ph = Burst \<Longrightarrow>
    duo_step E views d
      (d\<lparr>du_code := (du_code d)\<lparr>sy_mg := drain_side code_spec (drop (du_seen d) (outbox d)) (sy_mg (du_code d)),
                               sy_phase := ph\<rparr>,
         du_seen := length (outbox d)\<rparr>)"
| code: "mstep code_spec (code_answers E views) (du_code d) c \<Longrightarrow>
    mg_ctx (sy_mg c) = mg_ctx (sy_mg (du_code d)) \<Longrightarrow>
    \<not> (sy_phase (du_code d) = Selecting \<and> sy_phase c = Burst) \<Longrightarrow>
    duo_step E views d (d\<lparr>du_code := c\<rparr>)"

inductive duo_reach :: "'c env \<Rightarrow> 'e node set \<Rightarrow> fetch_config \<Rightarrow> nat \<Rightarrow> ('c, 'e) duo \<Rightarrow> bool"
  for E views fetch where
  start: "duo_reach E views fetch 0 (duo_init fetch)"
| step: "duo_reach E views fetch n d \<Longrightarrow> duo_step E views d d' \<Longrightarrow>
    duo_reach E views fetch (Suc n) d'"

abbreviation duo_steps :: "'c env \<Rightarrow> 'e node set \<Rightarrow> ('c, 'e) duo \<Rightarrow> ('c, 'e) duo \<Rightarrow> bool" where
  "duo_steps E views \<equiv> (duo_step E views)\<^sup>*\<^sup>*"

text \<open>Each manager, looked at alone, makes a run of its own.\<close>

lemma drain_mstep:
  assumes "sy_phase s = Selecting" and "ph = Selecting \<or> ph = Burst"
  shows "mstep S answers s (s\<lparr>sy_mg := drain_side S msgs (sy_mg s), sy_phase := ph\<rparr>)"
proof (cases "ph = Burst")
  case True
  with mstep.burst_begin [where answers = answers, OF assms(1), of S msgs] show ?thesis by simp
next
  case False
  with assms have "s\<lparr>sy_mg := m, sy_phase := ph\<rparr> = s\<lparr>sy_mg := m\<rparr>" for m by (cases s) simp
  with mstep.side [where answers = answers, OF assms(1), of S msgs] show ?thesis by simp
qed

lemma duo_reach_parts:
  "duo_reach E views fetch n d \<Longrightarrow>
    (\<exists>k \<le> n. mreach account_spec (account_answers E views) [] fetch k (du_acct d))
    \<and> (\<exists>k \<le> n. mreach code_spec (code_answers E views) fmempty fetch k (du_code d))"
proof (induction rule: duo_reach.induct)
  case start
  show ?case by (auto simp: duo_init_def intro: mreach.start)
next
  case (step n d d')
  from step(3) obtain j k where
    a: "j \<le> n" "mreach account_spec (account_answers E views) [] fetch j (du_acct d)" and
    c: "k \<le> n" "mreach code_spec (code_answers E views) fmempty fetch k (du_code d)" by blast
  from step(2) show ?case
  proof cases
    case (acct a')
    with a(1) c mreach.step [OF a(2) acct(2)] show ?thesis
      by (auto intro: exI [of _ k] exI [of _ "Suc j"])
  next
    case (drain ph)
    with a c(1) mreach.step [OF c(2) drain_mstep [OF drain(2,3)]] show ?thesis
      by (auto intro: exI [of _ j] exI [of _ "Suc k"])
  next
    case (code c')
    with a c(1) mreach.step [OF c(2) code(2)] show ?thesis
      by (auto intro: exI [of _ j] exI [of _ "Suc k"])
  qed
qed

section \<open>Hints run ahead of replies\<close>

definition registered :: "code_registration list \<Rightarrow> b256 \<Rightarrow> bool" where
  "registered regs h \<longleftrightarrow> h \<in> reg_code_hash ` set regs"

text \<open>
  Every account in the cache and every account replied has been registered.
\<close>

definition announced :: "('c, 'e) account_msys \<Rightarrow> bool" where
  "announced s \<longleftrightarrow>
    (\<forall>a i. fmlookup (mg_cache (sy_mg s)) a = Some i \<longrightarrow> registered (mg_ctx (sy_mg s)) (ai_code_hash i))
    \<and> (\<forall>t i. (t, Inr (Some i)) \<in> set (sy_replies s) \<longrightarrow> registered (mg_ctx (sy_mg s)) (ai_code_hash i))"

lemma registered_append [simp]: "registered (xs @ ys) h \<longleftrightarrow> registered xs h \<or> registered ys h"
  by (auto simp: registered_def)

lemma account_drain [simp]: "drain_side account_spec msgs m = m"
proof -
  have "fold (\<lambda>_ ctx. ctx) msgs c = c" for c :: "code_registration list" by (induction msgs) auto
  then show ?thesis by (simp add: drain_side_def account_spec_def)
qed

lemma account_completion_hints:
  assumes "apply_completion account_spec d m = (m', t, r)"
  shows "\<exists>new. mg_ctx m' = mg_ctx m @ new \<and> (\<forall>i. r = Inr (Some i) \<longrightarrow> registered new (ai_code_hash i))"
    and "fmlookup (mg_cache m') a = Some i \<Longrightarrow>
      fmlookup (mg_cache m) a = Some i \<or> r = Inr (Some i)"
  using assms
  by (auto simp: account_completion Let_def registered_def split: sum.splits option.splits if_splits)

lemma announced_take_completion:
  assumes "announced s"
  shows "announced (take_completion account_spec d q s)"
    and "\<exists>new. mg_ctx (sy_mg (take_completion account_spec d q s)) = mg_ctx (sy_mg s) @ new"
proof -
  obtain m t r where ac: "apply_completion account_spec d (sy_mg s) = (m, t, r)" by (metis prod_cases3)
  from account_completion_hints(1) [OF ac] obtain new where
    new: "mg_ctx m = mg_ctx (sy_mg s) @ new" "\<forall>i. r = Inr (Some i) \<longrightarrow> registered new (ai_code_hash i)"
    by blast
  with assms account_completion_hints(2) [OF ac] show "announced (take_completion account_spec d q s)"
    by (fastforce simp: announced_def take_completion_def ac)
  from new(1) show "\<exists>new. mg_ctx (sy_mg (take_completion account_spec d q s)) = mg_ctx (sy_mg s) @ new"
    by (simp add: take_completion_def ac)
qed

lemma account_retag_cache:
  "fmlookup (mg_cache (retag S req m)) k = Some v \<Longrightarrow> fmlookup (mg_cache m) k = Some v"
  by (auto simp: retag_def split: option.splits if_splits)

lemma announced_step:
  assumes "mstep account_spec answers s s'" and "announced s"
  shows "announced s' \<and> (\<exists>new. mg_ctx (sy_mg s') = mg_ctx (sy_mg s) @ new)"
  using assms(1)
proof cases
  case (hit t m req v)
  with assms(2) show ?thesis
    by (fastforce simp: announced_def account_spec_tags dest: account_retag_cache)
next
  case (miss t m req)
  with assms(2) show ?thesis by (fastforce simp: announced_def dest: account_retag_cache)
next
  case (acquire req t m task)
  with assms(2) show ?thesis by (auto simp: announced_def spawn_fetch_def)
next
  case (complete d q)
  with announced_take_completion [OF assms(2), of d q] show ?thesis by simp
next
  case (flush_drain d q)
  with announced_take_completion [OF assms(2), of d q] show ?thesis by simp
next
  case (flush_end m cache)
  with assms(2) show ?thesis by (auto simp: announced_def flush_take_def)
qed (use assms(2) in \<open>auto simp: announced_def\<close>)

text \<open>The code manager's table is what it has taken from the channel.\<close>

definition hints_of :: "code_registration list \<Rightarrow> code_hints" where
  "hints_of regs = fold (\<lambda>reg m. fmupd (reg_code_hash reg) (reg_address reg) m) regs fmempty"

lemma hints_of_snoc [simp]:
  "hints_of (regs @ [r]) = fmupd (reg_code_hash r) (reg_address r) (hints_of regs)"
  by (simp add: hints_of_def)

lemma hints_of_append:
  "hints_of (xs @ ys) = fold (\<lambda>reg m. fmupd (reg_code_hash reg) (reg_address reg) m) ys (hints_of xs)"
  by (simp add: hints_of_def)

lemma hints_of_known: "registered regs h \<Longrightarrow> fmlookup (hints_of regs) h \<noteq> None"
  by (induction regs rule: rev_induct) (auto simp: registered_def)

definition channel_ok :: "('c, 'e) duo \<Rightarrow> bool" where
  "channel_ok d \<longleftrightarrow> announced (du_acct d) \<and> du_seen d \<le> length (outbox d)
    \<and> mg_ctx (sy_mg (du_code d)) = hints_of (take (du_seen d) (outbox d))"

lemma code_drain_ctx:
  "mg_ctx (drain_side code_spec msgs m)
    = fold (\<lambda>reg m. fmupd (reg_code_hash reg) (reg_address reg) m) msgs (mg_ctx m)"
  by (simp add: drain_side_def code_spec_def)

lemma channel_ok_step: "duo_step E views d d' \<Longrightarrow> channel_ok d \<Longrightarrow> channel_ok d'"
proof (induction rule: duo_step.induct)
  case (acct d a)
  then obtain new where "announced a" "mg_ctx (sy_mg a) = outbox d @ new"
    using announced_step [OF acct(1)] by (auto simp: channel_ok_def outbox_def)
  with acct(2) show ?case by (simp add: channel_ok_def outbox_def)
next
  case (drain d ph)
  let ?seen = "take (du_seen d) (outbox d)" and ?rest = "drop (du_seen d) (outbox d)"
  have "mg_ctx (drain_side code_spec ?rest (sy_mg (du_code d))) = hints_of (?seen @ ?rest)"
    using drain(3) unfolding code_drain_ctx hints_of_append by (simp add: channel_ok_def)
  then show ?case using drain(3) by (simp add: channel_ok_def outbox_def)
qed (simp add: channel_ok_def outbox_def)

lemma channel_ok_reach: "duo_reach E views fetch n d \<Longrightarrow> channel_ok d"
proof (induction rule: duo_reach.induct)
  case start
  show ?case
    by (simp add: channel_ok_def duo_init_def outbox_def msys_init_def manager_new_def announced_def
        hints_of_def)
qed (rule channel_ok_step)

section \<open>A known hash is not refused\<close>

text \<open>
  From a moment when the hint for \<open>h\<close> is in the table, only the tickets \<open>old\<close> accepted by then
  can still be refused for want of an address.
\<close>

definition refusal :: "b256 \<Rightarrow> 'e sim_error + 'c" where
  "refusal h = Inl (MissingAddressHint h)"

definition served :: "b256 \<Rightarrow> nat set \<Rightarrow> ('c, 'e) code_msys \<Rightarrow> bool" where
  "served h old s \<longleftrightarrow> fmlookup (mg_ctx (sy_mg s)) h \<noteq> None
    \<and> (\<forall>tk \<in> set (sy_running s). tk_respond_to tk \<in> old \<or> fst (tk_call tk) \<noteq> h \<or> fst (snd (tk_call tk)) \<noteq> None)
    \<and> (\<forall>d \<in> set (pending s). fd_respond_to d \<in> old \<or> fd_result d \<noteq> refusal h)
    \<and> (\<forall>x \<in> set (sy_replies s). fst x \<in> old \<or> snd x \<noteq> refusal h)"

lemma refused_for_want_of_hint:
  "get_code_by_hash E nd h' hint b = refusal h \<longleftrightarrow> hint = None \<and> h' = h"
proof (cases hint)
  case (Some a)
  then show ?thesis
    by (cases "nd_get_code_at nd a b") (simp_all add: get_code_by_hash_def refusal_def Let_def)
qed (simp add: get_code_by_hash_def refusal_def)

lemma code_answers_refusal:
  "code_answers E views c (refusal h) \<Longrightarrow> fst c = h \<and> fst (snd c) = None"
  by (auto simp: code_answers_def refused_for_want_of_hint dest!: sym [of "refusal h"])

lemma code_completion_ctx:
  "apply_completion code_spec d m = (m', t, r) \<Longrightarrow> mg_ctx m' = mg_ctx m"
  by (auto simp: apply_completion_def code_spec_def Let_def split: sum.splits option.splits if_splits)

lemma code_retag [simp]: "retag code_spec req m = m"
  by (simp add: retag_def code_spec_def)

lemma code_fetch_hinted:
  "fmlookup ctx h \<noteq> None \<Longrightarrow>
    fst (fs_fetch code_spec ctx req) \<noteq> h \<or> fst (snd (fs_fetch code_spec ctx req)) \<noteq> None"
  by (auto simp: code_spec_def split: option.splits)

lemma served_take_completion:
  assumes "served h old s" and "sy_queue s = d # q"
  shows "served h old (take_completion code_spec d q s)"
proof -
  obtain m t r where ac: "apply_completion code_spec d (sy_mg s) = (m, t, r)" by (metis prod_cases3)
  with assms code_completion_ctx [OF ac] apply_completion_facts(5,6) [OF ac] show ?thesis
    by (auto simp: served_def take_completion_def ac pending_def)
qed

lemma served_step:
  assumes "mstep code_spec (code_answers E views) s s'" and "served h old s"
    and "fmlookup (mg_ctx (sy_mg s')) h \<noteq> None"
  shows "served h old s'"
  using assms(1)
proof cases
  case (hit t m req v)
  with assms(2,3) show ?thesis by (auto simp: served_def pending_def refusal_def)
next
  case (acquire req t m task)
  note facts = spawn_fetch_facts [OF acquire(4)]
  have "mg_ctx m = mg_ctx (sy_mg s)" using acquire(4) by (auto simp: spawn_fetch_def)
  with code_fetch_hinted [of "mg_ctx (sy_mg s)" h req] assms(2) acquire facts show ?thesis
    by (auto simp: served_def pending_def)
next
  case (finish xs task ys r)
  have "tk_respond_to task \<in> old \<or> r \<noteq> refusal h"
    using assms(2) finish code_answers_refusal [of E views "tk_call task" h] by (auto simp: served_def)
  with assms(2) finish show ?thesis by (auto simp: served_def pending_def finish_task_def)
next
  case (send xs d ys)
  with assms(2) show ?thesis by (auto simp: served_def pending_def)
next
  case (complete d q)
  with served_take_completion [OF assms(2), of d q] show ?thesis by simp
next
  case (flush_drain d q)
  with served_take_completion [OF assms(2), of d q] show ?thesis by simp
next
  case (flush_end m cache)
  with assms(2) show ?thesis by (auto simp: served_def pending_def flush_take_def)
qed (use assms(2,3) in \<open>auto simp: served_def pending_def\<close>)

lemma fold_hints_keep:
  "fmlookup m h \<noteq> None \<Longrightarrow>
    fmlookup (fold (\<lambda>reg m. fmupd (reg_code_hash reg) (reg_address reg) m) regs m) h \<noteq> None"
  by (induction regs arbitrary: m) auto

lemma served_duo_step:
  assumes "duo_step E views d d'" and "served h old (du_code d)"
  shows "served h old (du_code d')"
  using assms(1)
proof cases
  case (drain ph)
  have "fmlookup (mg_ctx (drain_side code_spec (drop (du_seen d) (outbox d)) (sy_mg (du_code d)))) h \<noteq> None"
    unfolding code_drain_ctx by (rule fold_hints_keep) (use assms(2) in \<open>simp add: served_def\<close>)
  with served_step [OF drain_mstep [OF drain(2,3)] assms(2)] drain show ?thesis by simp
next
  case (code c)
  with served_step [OF code(2) assms(2)] assms(2) show ?thesis by (simp add: served_def)
qed (use assms(2) in simp)

lemma served_duo_steps:
  "duo_steps E views d d' \<Longrightarrow> served h old (du_code d) \<Longrightarrow> served h old (du_code d')"
  by (induction rule: rtranclp_induct) (auto intro: served_duo_step)

text \<open>What is in the manager at any moment belongs to tickets accepted by then.\<close>

lemma tickets_accepted:
  assumes "mreach S answers ctx fetch n s" and "n < 2 ^ 64"
  shows "tk \<in> set (sy_running s) \<Longrightarrow> tk_respond_to tk \<in> fst ` set (sy_accepted s)"
    and "d \<in> set (pending s) \<Longrightarrow> fd_respond_to d \<in> fst ` set (sy_accepted s)"
    and "x \<in> set (sy_replies s) \<Longrightarrow> fst x \<in> fst ` set (sy_accepted s)"
proof -
  from counts_reach [OF assms] have "mset (map fst (sy_accepted s)) = mset (map fst (sy_replies s)) + waiting s"
    by (simp add: counts_ok_def)
  then have "set_mset (mset (map fst (sy_accepted s))) = set_mset (mset (map fst (sy_replies s)) + waiting s)"
    by simp
  then have "fst ` set (sy_accepted s) = fst ` set (sy_replies s) \<union> set_mset (waiting s)" by simp
  then show "tk \<in> set (sy_running s) \<Longrightarrow> tk_respond_to tk \<in> fst ` set (sy_accepted s)"
    and "d \<in> set (pending s) \<Longrightarrow> fd_respond_to d \<in> fst ` set (sy_accepted s)"
    and "x \<in> set (sy_replies s) \<Longrightarrow> fst x \<in> fst ` set (sy_accepted s)"
    by (auto simp: waiting_def)
qed

lemma drained_served:
  assumes "duo_reach E views fetch n d" and "n < 2 ^ 64"
    and "du_seen d = length (outbox d)" and "registered (outbox d) h"
  shows "served h (fst ` set (sy_accepted (du_code d))) (du_code d)"
proof -
  from duo_reach_parts [OF assms(1)] assms(2) obtain k where
    "mreach code_spec (code_answers E views) fmempty fetch k (du_code d)" "k < 2 ^ 64" by force
  note tickets = tickets_accepted [OF this]
  have "fmlookup (mg_ctx (sy_mg (du_code d))) h \<noteq> None"
    using channel_ok_reach [OF assms(1)] assms(3) hints_of_known [OF assms(4)] by (simp add: channel_ok_def)
  with tickets show ?thesis by (auto simp: served_def)
qed

section \<open>Running the two by the interpreter\<close>

lemma duo_reach_steps:
  "(duo_step E views ^^ k) d d' \<Longrightarrow> duo_reach E views fetch n d \<Longrightarrow> duo_reach E views fetch (n + k) d'"
  by (induction k arbitrary: d') (auto intro: duo_reach.step)

lemma account_events:
  "mexec account_spec (account_answers E views) (du_acct d) es = Some a \<Longrightarrow>
    (duo_step E views ^^ length es) d (d\<lparr>du_acct := a\<rparr>)"
proof (induction es arbitrary: d)
  case Nil
  then show ?case by auto
next
  case (Cons e es)
  then obtain a1 where 1: "mexec1 account_spec (account_answers E views) (du_acct d) e = Some a1"
    "mexec account_spec (account_answers E views) a1 es = Some a"
    by (auto split: option.splits)
  have "(duo_step E views ^^ length es) (d\<lparr>du_acct := a1\<rparr>) (d\<lparr>du_acct := a\<rparr>)"
    using Cons.IH [of "d\<lparr>du_acct := a1\<rparr>"] 1(2) by simp
  from relpowp_Suc_I2 [OF duo_step.acct [OF mexec1_sound [OF 1(1)]] this]
  show ?case by (simp only: length_Cons)
qed

fun own_event :: "('req, 'side, 'resp, 'e) mevent \<Rightarrow> bool" where
  "own_event (EvSide _) = False"
| "own_event (EvBurst _) = False"
| "own_event _ = True"

lemma own_event_step:
  assumes "mexec1 code_spec answers s e = Some s'" and "own_event e"
  shows "mg_ctx (sy_mg s') = mg_ctx (sy_mg s) \<and> \<not> (sy_phase s = Selecting \<and> sy_phase s' = Burst)"
proof -
  have tc: "mg_ctx (sy_mg (take_completion code_spec d q s)) = mg_ctx (sy_mg s)" for d q
    by (auto simp: take_completion_def code_completion_ctx split: prod.split)
  show ?thesis using assms tc
    by (cases e) (auto simp: Let_def spawn_fetch_def flush_take_def
        split: phase.splits option.splits list.splits if_splits)
qed

lemma code_events:
  "mexec code_spec (code_answers E views) (du_code d) es = Some c \<Longrightarrow> list_all own_event es \<Longrightarrow>
    (duo_step E views ^^ length es) d (d\<lparr>du_code := c\<rparr>)"
proof (induction es arbitrary: d)
  case Nil
  then show ?case by auto
next
  case (Cons e es)
  then obtain c1 where 1: "mexec1 code_spec (code_answers E views) (du_code d) e = Some c1"
    "mexec code_spec (code_answers E views) c1 es = Some c"
    by (auto split: option.splits)
  have "duo_step E views d (d\<lparr>du_code := c1\<rparr>)"
    using own_event_step [OF 1(1)] Cons.prems(2) by (intro duo_step.code mexec1_sound [OF 1(1)]) simp_all
  moreover have "(duo_step E views ^^ length es) (d\<lparr>du_code := c1\<rparr>) (d\<lparr>du_code := c\<rparr>)"
    using Cons.IH [of "d\<lparr>du_code := c1\<rparr>"] 1(2) Cons.prems(2) by simp
  ultimately show ?case by (simp only: length_Cons relpowp_Suc_I2)
qed

text \<open>The account manager resolving one account.\<close>

lemma demo_account_resolved:
  "\<exists>es (a :: (bytes, nat) account_msys).
    mexec account_spec (account_answers demo_env {demo_node}) (msys_init account_spec [] fetch_config_default)
      es = Some a
    \<and> length es = 7 \<and> sy_replies a = [(0, Inr (Some demo_info))]
    \<and> mg_ctx (sy_mg a) = [\<lparr>reg_code_hash = 2, reg_address = 1\<rparr>]"
  by (rule exI [of _ "[EvBurst [], EvRequest 0 demo_req, EvAcquire, EvBurstEnd,
        EvFinish 0 (Inr (Some demo_info)), EvSend 0, EvComplete]"])
    (simp add: demo_defs account_spec_def account_answers_def get_account_def msys_init_def
      manager_new_def fetch_config_default_def drain_side_def retag_def spawn_fetch_def
      finish_task_def take_completion_def apply_completion_def code_hash_of_def
      COMPLETION_CHANNEL_DEPTH_def)

lemma duo_init_parts [simp]:
  "du_acct (duo_init fetch) = msys_init account_spec [] fetch"
  "du_code (duo_init fetch) = msys_init code_spec fmempty fetch"
  "du_seen (duo_init fetch) = 0" "outbox (duo_init fetch) = []"
  by (simp_all add: duo_init_def outbox_def msys_init_def manager_new_def)

definition demo_creq :: "b256 \<Rightarrow> address option \<Rightarrow> code_request" where
  "demo_creq h hint = \<lparr>cr_code_hash = h, cr_block = 100, cr_address_hint = hint\<rparr>"

lemmas code_run_defs = demo_env_def demo_node_def demo_creq_def code_spec_def code_answers_def
  get_code_by_hash_def msys_init_def manager_new_def fetch_config_default_def drain_side_def
  retag_def spawn_fetch_def finish_task_def take_completion_def apply_completion_def
  code_hash_of_def COMPLETION_CHANNEL_DEPTH_def

section \<open>Properties\<close>

text \<open>
  C13: hints run ahead of replies: once the account manager has replied with an account, every
  code request for that account's code hash that the code manager accepts in a burst begun
  later is served with an address; it is never refused for want of a hint, through every
  interleaving of the two managers and their fetches.
\<close>

theorem hint_reaches_code_manager:
  assumes "duo_reach E views fetch n d" and "Suc n < 2 ^ 64"
    and "(t, Inr (Some i)) \<in> set (sy_replies (du_acct d))"
    and "duo_step E views d d1" and "sy_phase (du_code d) = Selecting" and "sy_phase (du_code d1) = Burst"
    and "duo_steps E views d1 d2" and "t' \<notin> fst ` set (sy_accepted (du_code d))"
  shows "(t', Inl (MissingAddressHint (ai_code_hash i))) \<notin> set (sy_replies (du_code d2))"
proof -
  let ?h = "ai_code_hash i"
  from assms(4-6) have "du_seen d1 = length (outbox d1) \<and> outbox d1 = outbox d
      \<and> sy_accepted (du_code d1) = sy_accepted (du_code d)"
    by cases (auto simp: outbox_def)
  moreover have "registered (outbox d) ?h"
    using channel_ok_reach [OF assms(1)] assms(3) by (auto simp: channel_ok_def announced_def outbox_def)
  ultimately have "served ?h (fst ` set (sy_accepted (du_code d))) (du_code d1)"
    using drained_served [OF duo_reach.step [OF assms(1,4)] assms(2)] by simp
  from served_duo_steps [OF assms(7) this] have
    "\<forall>x \<in> set (sy_replies (du_code d2)). fst x \<in> fst ` set (sy_accepted (du_code d)) \<or> snd x \<noteq> refusal ?h"
    unfolding served_def by blast
  from bspec [OF this, of "(t', refusal ?h)"] assms(8) show ?thesis
    unfolding refusal_def fst_conv snd_conv by blast
qed

theorem hint_reaches_code_manager_witness:
  "\<exists>n d d1 d2 :: (bytes, nat) duo. duo_reach demo_env {demo_node} fetch_config_default n d
    \<and> (0, Inr (Some demo_info)) \<in> set (sy_replies (du_acct d))
    \<and> duo_step demo_env {demo_node} d d1 \<and> duo_steps demo_env {demo_node} d1 d2
    \<and> (8, demo_creq 2 None) \<in> set (sy_accepted (du_code d2))
    \<and> (8, Inr [0x60, 0x00]) \<in> set (sy_replies (du_code d2))
    \<and> (8, Inl (MissingAddressHint (ai_code_hash demo_info))) \<notin> set (sy_replies (du_code d2))"
proof -
  let ?step = "duo_step demo_env {demo_node}"
  let ?d0 = "duo_init fetch_config_default :: (bytes, nat) duo"
  let ?es2 = "[EvRequest 8 (demo_creq 2 None), EvAcquire, EvBurstEnd,
      EvFinish 0 (Inr [0x60, 0x00]), EvSend 0, EvComplete]
      :: (code_request, code_registration, bytes, nat) mevent list"
  obtain a :: "(bytes, nat) account_msys" and es where a:
    "mexec account_spec (account_answers demo_env {demo_node}) (du_acct ?d0) es = Some a" "length es = 7"
    "sy_replies a = [(0, Inr (Some demo_info))]"
    "mg_ctx (sy_mg a) = [\<lparr>reg_code_hash = 2, reg_address = 1\<rparr>]"
    using demo_account_resolved by (metis duo_init_parts(1))
  let ?d = "?d0\<lparr>du_acct := a\<rparr>"
  have ob: "outbox ?d = [\<lparr>reg_code_hash = 2, reg_address = 1\<rparr>]" by (simp add: outbox_def a(4))
  define c0 where "c0 = (du_code ?d0)\<lparr>sy_mg := drain_side code_spec [\<lparr>reg_code_hash = 2, reg_address = 1\<rparr>] (sy_mg (du_code ?d0)),
      sy_phase := Burst\<rparr>"
  let ?d1 = "?d\<lparr>du_code := c0, du_seen := 1\<rparr>"
  have 1: "duo_reach demo_env {demo_node} fetch_config_default (0 + length es) ?d"
    by (rule duo_reach_steps [OF account_events [OF a(1)] duo_reach.start])
  have 2: "?step ?d ?d1"
    using duo_step.drain [of ?d Burst] by (simp add: ob c0_def msys_init_def)
  obtain c2 where c2: "mexec code_spec (code_answers demo_env {demo_node}) c0 ?es2 = Some c2"
      "sy_accepted c2 = [(8, demo_creq 2 None)]" "sy_replies c2 = [(8, Inr [0x60, 0x00])]"
    by (simp add: c0_def code_run_defs)
  have 3: "duo_steps demo_env {demo_node} ?d1 (?d1\<lparr>du_code := c2\<rparr>)"
    using code_events [of demo_env "{demo_node}" ?d1 ?es2 c2] c2(1)
    by (intro relpowp_imp_rtranclp [of "length ?es2"]) (simp del: relpowp.simps mexec.simps)
  have "(8, Inl (MissingAddressHint (ai_code_hash demo_info))) \<notin> set (sy_replies (du_code (?d1\<lparr>du_code := c2\<rparr>)))"
    by (rule hint_reaches_code_manager [OF 1 _ _ 2 _ _ 3]) (simp_all add: a c0_def msys_init_def)
  with 1 2 3 show ?thesis
    by (intro exI [of _ "0 + length es"] exI [of _ ?d] exI [of _ ?d1] exI [of _ "?d1\<lparr>du_code := c2\<rparr>"])
      (simp add: a(3) c2(2,3))
qed


end
