(* ===== verification/Changeset.thy ===== *)
theory Changeset
  imports Static_State Rpc
begin

text \<open>
  \<open>rex-sim/src/changeset.rs\<close>: the changeset manager, the only writer of the shared state.
  Each notification of the execution extension is checked for continuity, all four fetch
  managers are flushed, the next snapshot is built and swapped in, and the subscribers are
  told.  What it does to the outside is a trace of effects, in the order of the code.

  The chain of a notification is reth's type; its view here is the list of its blocks with
  their receipts, ascending, and the bundle state of its execution.  Its accessors \<open>tip\<close> and
  \<open>first\<close> panic on an empty chain: the handlers return \<open>None\<close> then.
\<close>

section \<open>What a notification carries\<close>

record 'w block_view =
  bv_header :: sealed_header
  bv_withdrawals :: "'w option"
  bv_tx_hashes :: "b256 list"

record storage_slot =
  sl_previous_or_original_value :: u256
  sl_present_value :: u256

record 'c bundle_account =
  ba_info :: "'c account_info option"
  ba_storage :: "(u256, storage_slot) fmap"

record 'c bundle_state =
  bs_state :: "(address, 'c bundle_account) fmap"
  bs_contracts :: "(b256, 'c) fmap"

record ('c, 'w, 'l) chain =
  cn_blocks_and_receipts :: "('w block_view \<times> 'l receipt list) list"
  cn_bundle :: "'c bundle_state"

definition chain_first :: "('c, 'w, 'l) chain \<Rightarrow> sealed_header option" where
  "chain_first c = (case cn_blocks_and_receipts c of [] \<Rightarrow> None | (b, _) # _ \<Rightarrow> Some (bv_header b))"

definition chain_tip_of :: "('c, 'w, 'l) chain \<Rightarrow> sealed_header option" where
  "chain_tip_of c =
    (if cn_blocks_and_receipts c = [] then None
     else Some (bv_header (fst (last (cn_blocks_and_receipts c)))))"

definition chain_ids :: "('c, 'w, 'l) chain \<Rightarrow> (u64 \<times> b256) list" where
  "chain_ids c = map (\<lambda>(b, _). (sh_number (bv_header b), sh_hash (bv_header b))) (cn_blocks_and_receipts c)"

datatype ('c, 'w, 'l) notification =
    ChainCommitted "('c, 'w, 'l) chain"
  | ChainReorged "('c, 'w, 'l) chain" "('c, 'w, 'l) chain"
  | ChainReverted "('c, 'w, 'l) chain"

section \<open>Extraction\<close>

text \<open>The slot loop of one account, and the account and contract loops.\<close>

definition extract_storage :: "(u256, storage_slot) fmap \<Rightarrow> (u256, u256) fmap" where
  "extract_storage slots =
    fold (\<lambda>(slot, v) m. fmupd (from_be_bytes (to_be_bytes slot)) (sl_present_value v) m)
      (sorted_list_of_fmap slots) fmempty"

definition extract_execution_changes ::
  "'c env \<Rightarrow> ('c \<Rightarrow> bytes) \<Rightarrow> ('c, 'w, 'l) chain \<Rightarrow> 'c execution_changes" where
  "extract_execution_changes E original_bytes c =
    (let bundle = cn_bundle c;
         accounts = fold (\<lambda>(address, ba) m. fmupd address
             \<lparr>ac_info = ba_info ba, ac_storage = extract_storage (ba_storage ba)\<rparr> m)
           (sorted_list_of_fmap (bs_state bundle)) fmempty;
         contracts = fold (\<lambda>(code_hash, bytecode) m.
             fmupd code_hash (en_new_raw E (original_bytes bytecode)) m)
           (sorted_list_of_fmap (bs_contracts bundle)) fmempty
     in \<lparr>ec_accounts = accounts, ec_contracts = contracts\<rparr>)"

definition extract_block_data :: "('c, 'w, 'l) chain \<Rightarrow> ('w, 'l) block_data list" where
  "extract_block_data c =
    map (\<lambda>(b, rs). \<lparr>bd_number = sh_number (bv_header b), bd_hash = sh_hash (bv_header b),
           bd_header = bv_header b, bd_withdrawals = bv_withdrawals b, bd_receipts = rs,
           bd_tx_hashes = bv_tx_hashes b\<rparr>)
      (cn_blocks_and_receipts c)"

definition extract_logs :: "('c, 'w, 'l) chain \<Rightarrow> 'l list" where
  "extract_logs c =
    fold (\<lambda>(_, rs) logs. fold (\<lambda>r logs. fold (\<lambda>l logs. logs @ [l]) (rc_logs r) logs) rs logs)
      (cn_blocks_and_receipts c) []"

section \<open>Flushing\<close>

text \<open>What each manager hands back; \<open>None\<close> when it is gone.\<close>

record 'c flush_replies =
  fr_account :: "'c account_cache option"
  fr_code :: "'c code_cache option"
  fr_storage :: "storage_cache option"
  fr_block_hash :: "block_hash_cache option"

definition unwrap_or :: "'a option \<Rightarrow> 'a \<Rightarrow> 'a" where
  "unwrap_or x d = (case x of Some v \<Rightarrow> v | None \<Rightarrow> d)"

definition flush_all_caches ::
  "'c flush_replies \<Rightarrow> 'c account_cache \<times> 'c code_cache \<times> storage_cache \<times> block_hash_cache" where
  "flush_all_caches fr =
    (unwrap_or (fr_account fr) tagged_cache_default, unwrap_or (fr_code fr) code_cache_default,
     unwrap_or (fr_storage fr) tagged_cache_default, unwrap_or (fr_block_hash fr) tagged_cache_default)"

definition caches_from_tuple ::
  "'c account_cache \<times> 'c code_cache \<times> storage_cache \<times> block_hash_cache \<Rightarrow> 'c caches" where
  "caches_from_tuple t =
    (case t of (account, code, storage, block_hash) \<Rightarrow>
      \<lparr>ca_accounts = account, ca_code = code, ca_storage = storage, ca_block_hashes = block_hash\<rparr>)"

section \<open>The manager\<close>

record state_update =
  su_block :: u64
  su_block_hash :: b256
  su_generation :: u64

datatype ('c, 'w, 'l) effect =
    EfFlush
  | EfSwap "('c, 'w, 'l) state_snapshot"
  | EfUpdate state_update
  | EfLogs "'l list"
  | EfReady u64

record ('c, 'w, 'l) changeset_manager =
  cm_state :: "('c, 'w, 'l) static_state"
  cm_ready_signal :: bool
  cm_update_sender :: bool
  cm_log_sink :: bool
  cm_trace :: "('c, 'w, 'l) effect list"

definition emit ::
  "('c, 'w, 'l) effect \<Rightarrow> ('c, 'w, 'l) changeset_manager \<Rightarrow> ('c, 'w, 'l) changeset_manager" where
  "emit e cm = cm\<lparr>cm_trace := cm_trace cm @ [e]\<rparr>"

definition do_swap ::
  "('c, 'w, 'l) state_snapshot \<Rightarrow> ('c, 'w, 'l) changeset_manager \<Rightarrow> ('c, 'w, 'l) changeset_manager" where
  "do_swap new_state cm = emit (EfSwap new_state) (cm\<lparr>cm_state := swap new_state (cm_state cm)\<rparr>)"

definition send_update ::
  "u64 \<Rightarrow> b256 \<Rightarrow> ('c, 'w, 'l) changeset_manager \<Rightarrow> ('c, 'w, 'l) changeset_manager" where
  "send_update block block_hash cm =
    (if cm_update_sender cm
     then emit (EfUpdate \<lparr>su_block = block, su_block_hash = block_hash,
                 su_generation = st_generation (cm_state cm)\<rparr>) cm
     else cm)"

definition send_logs ::
  "('c, 'w, 'l) chain \<Rightarrow> ('c, 'w, 'l) changeset_manager \<Rightarrow> ('c, 'w, 'l) changeset_manager" where
  "send_logs new cm =
    (if cm_log_sink cm
     then (let logs = extract_logs new in if logs \<noteq> [] then emit (EfLogs logs) cm else cm)
     else cm)"

definition fire_ready ::
  "u64 \<Rightarrow> ('c, 'w, 'l) changeset_manager \<Rightarrow> ('c, 'w, 'l) changeset_manager" where
  "fire_ready tip_num cm =
    (if cm_ready_signal cm then emit (EfReady tip_num) (cm\<lparr>cm_ready_signal := False\<rparr>) else cm)"

definition saturating_pred :: "u64 \<Rightarrow> u64" where
  "saturating_pred n = (if n = 0 then 0 else n - 1)"

definition handle_commit ::
  "'c env \<Rightarrow> ('c \<Rightarrow> bytes) \<Rightarrow> 'c flush_replies \<Rightarrow> ('c, 'w, 'l) chain
    \<Rightarrow> ('c, 'w, 'l) changeset_manager \<Rightarrow> ('c, 'w, 'l) changeset_manager option" where
  "handle_commit E original_bytes fr new cm =
    (case (chain_tip_of new, chain_first new) of
       (Some tip, Some first_block) \<Rightarrow>
         (let current = st_inner (cm_state cm);
              current_state = \<lparr>cs_block = ss_block current, cs_block_hash = ss_block_hash current,
                               cs_stale = ss_stale current\<rparr>;
              first_info = \<lparr>bi_number = sh_number first_block, bi_hash = sh_hash first_block,
                            bi_parent_hash = sh_parent_hash first_block\<rparr>;
              validation = validate_chain_committed current_state first_info (chain_ids new);
              cm = emit EfFlush cm
          in if \<not> cv_is_acceptable validation
             then Some (do_swap (mark_stale current) cm)
             else
               (let caches = caches_from_tuple (flush_all_caches fr);
                    changes = extract_execution_changes E original_bytes new;
                    blocks = extract_block_data new;
                    (new_state, cache_stats) = build_commit_state current caches changes blocks
                      \<lparr>ct_number = sh_number tip, ct_hash = sh_hash tip\<rparr>;
                    cm = do_swap new_state cm;
                    cm = send_update (sh_number tip) (sh_hash tip) cm;
                    cm = send_logs new cm
                in Some (fire_ready (sh_number tip) cm)))
     | _ \<Rightarrow> None)"

definition handle_reorg ::
  "'c env \<Rightarrow> ('c \<Rightarrow> bytes) \<Rightarrow> ('c, 'w, 'l) chain \<Rightarrow> ('c, 'w, 'l) chain
    \<Rightarrow> ('c, 'w, 'l) changeset_manager \<Rightarrow> ('c, 'w, 'l) changeset_manager option" where
  "handle_reorg E original_bytes old new cm =
    (case (chain_tip_of old, chain_tip_of new, chain_first old) of
       (Some old_tip, Some new_tip, Some old_first) \<Rightarrow>
         (let current = st_inner (cm_state cm);
              current_state = \<lparr>cs_block = ss_block current, cs_block_hash = ss_block_hash current,
                               cs_stale = False\<rparr>;
              old_info = \<lparr>bi_number = sh_number old_tip, bi_hash = sh_hash old_tip,
                          bi_parent_hash = sh_parent_hash old_tip\<rparr>;
              validation = validate_chain_reorged current_state old_info (chain_ids old);
              cm = emit EfFlush cm
          in if \<not> rv_is_acceptable validation
             then Some (do_swap (mark_stale current) cm)
             else
               (let common_ancestor = saturating_pred (sh_number old_first);
                    changes = extract_execution_changes E original_bytes new;
                    blocks = extract_block_data new;
                    new_state = build_reorg_state current common_ancestor changes blocks
                      \<lparr>ct_number = sh_number new_tip, ct_hash = sh_hash new_tip\<rparr>;
                    cm = do_swap new_state cm;
                    cm = send_update (sh_number new_tip) (sh_hash new_tip) cm;
                    cm = send_logs new cm
                in Some (fire_ready (sh_number new_tip) cm)))
     | _ \<Rightarrow> None)"

definition handle_revert ::
  "('c, 'w, 'l) chain \<Rightarrow> ('c, 'w, 'l) changeset_manager \<Rightarrow> ('c, 'w, 'l) changeset_manager option" where
  "handle_revert old cm =
    (case (chain_tip_of old, chain_first old) of
       (Some old_tip, Some old_first) \<Rightarrow>
         (let current = st_inner (cm_state cm);
              cm = emit EfFlush cm;
              common_ancestor = saturating_pred (sh_number old_first);
              cm = do_swap (build_revert_state current common_ancestor) cm
          in Some (send_update common_ancestor 0 cm))
     | _ \<Rightarrow> None)"

fun handle_notification ::
  "'c env \<Rightarrow> ('c \<Rightarrow> bytes) \<Rightarrow> ('c, 'w, 'l) notification \<times> 'c flush_replies
    \<Rightarrow> ('c, 'w, 'l) changeset_manager \<Rightarrow> ('c, 'w, 'l) changeset_manager option" where
  "handle_notification E ob (ChainCommitted new, fr) cm = handle_commit E ob fr new cm"
| "handle_notification E ob (ChainReorged old new, fr) cm = handle_reorg E ob old new cm"
| "handle_notification E ob (ChainReverted old, fr) cm = handle_revert old cm"

text \<open>\<open>while let Some(notification) = notifications.recv().await\<close>, until the channel closes.\<close>

definition run_changeset_manager ::
  "'c env \<Rightarrow> ('c \<Rightarrow> bytes) \<Rightarrow> (('c, 'w, 'l) notification \<times> 'c flush_replies) list
    \<Rightarrow> ('c, 'w, 'l) changeset_manager \<Rightarrow> ('c, 'w, 'l) changeset_manager option" where
  "run_changeset_manager E ob = run_all (handle_notification E ob)"

lemmas handler_defs = handle_commit_def handle_reorg_def handle_revert_def

section \<open>Extraction, pointwise\<close>

lemma fold_snoc: "fold (\<lambda>l logs. logs @ [l]) ls acc = acc @ ls"
  by (induction ls arbitrary: acc) simp_all

lemma fold_receipts:
  "fold (\<lambda>r logs. fold (\<lambda>l logs. logs @ [l]) (rc_logs r) logs) rs acc = acc @ concat (map rc_logs rs)"
  by (induction rs arbitrary: acc) (simp_all add: fold_snoc)

lemma fold_blocks:
  "fold (\<lambda>(_, rs) logs. fold (\<lambda>r logs. fold (\<lambda>l logs. logs @ [l]) (rc_logs r) logs) rs logs) bs acc =
    acc @ concat (map rc_logs (concat (map snd bs)))"
  by (induction bs arbitrary: acc) (auto simp: fold_receipts)

lemma extract_storage_lookup [fm_simps]:
  "fmlookup (extract_storage slots) k = map_option sl_present_value (fmlookup slots k)"
proof -
  have "extract_storage slots =
      fold (\<lambda>(k, v). fmupd k (sl_present_value v)) (sorted_list_of_fmap slots) fmempty"
    by (simp add: extract_storage_def split_beta)
  then show ?thesis by (simp add: fmlookup_fold_fmupd_map)
qed

lemma extract_lookup [fm_simps]:
  "fmlookup (ec_accounts (extract_execution_changes E ob c)) a =
    map_option (\<lambda>ba. \<lparr>ac_info = ba_info ba, ac_storage = extract_storage (ba_storage ba)\<rparr>)
      (fmlookup (bs_state (cn_bundle c)) a)"
  "fmlookup (ec_contracts (extract_execution_changes E ob c)) h =
    map_option (\<lambda>b. en_new_raw E (ob b)) (fmlookup (bs_contracts (cn_bundle c)) h)"
  by (simp_all add: extract_execution_changes_def Let_def fmlookup_fold_fmupd_map)

lemma extract_logs_concat:
  "extract_logs c = concat (map rc_logs (concat (map snd (cn_blocks_and_receipts c))))"
  by (simp add: extract_logs_def fold_blocks)

lemma extract_block_ids: "block_ids (extract_block_data c) = chain_ids c"
  by (simp add: block_ids_def extract_block_data_def chain_ids_def split_beta comp_def)

lemma chain_tip_Some:
  "chain_tip_of c = Some t \<Longrightarrow> \<exists>xs b rs. cn_blocks_and_receipts c = xs @ [(b, rs)] \<and> t = bv_header b"
  by (cases "cn_blocks_and_receipts c" rule: rev_cases) (auto simp: chain_tip_of_def)

lemma chain_ends:
  "chain_tip_of c = None \<longleftrightarrow> cn_blocks_and_receipts c = []"
  "chain_first c = None \<longleftrightarrow> cn_blocks_and_receipts c = []"
  by (auto simp: chain_tip_of_def chain_first_def split: list.split)

lemma tip_in_block_data:
  "chain_tip_of c = Some t \<Longrightarrow>
    extract_block_data c \<noteq> [] \<and> bd_header (last (extract_block_data c)) = t
    \<and> map_of (rev (chain_ids c)) (sh_number t) = Some (sh_hash t)"
  by (drule chain_tip_Some) (auto simp: extract_block_data_def chain_ids_def)

section \<open>One notification\<close>

lemma emit_fields [simp]:
  "cm_state (emit e cm) = cm_state cm" "cm_ready_signal (emit e cm) = cm_ready_signal cm"
  "cm_update_sender (emit e cm) = cm_update_sender cm" "cm_log_sink (emit e cm) = cm_log_sink cm"
  "cm_trace (emit e cm) = cm_trace cm @ [e]"
  by (simp_all add: emit_def)

lemma do_swap_fields [simp]:
  "cm_state (do_swap s cm) = swap s (cm_state cm)"
  "cm_ready_signal (do_swap s cm) = cm_ready_signal cm"
  "cm_update_sender (do_swap s cm) = cm_update_sender cm"
  "cm_log_sink (do_swap s cm) = cm_log_sink cm"
  "cm_trace (do_swap s cm) = cm_trace cm @ [EfSwap s]"
  by (simp_all add: do_swap_def)

lemma send_update_fields [simp]:
  "cm_state (send_update b h cm) = cm_state cm"
  "cm_ready_signal (send_update b h cm) = cm_ready_signal cm"
  "cm_update_sender (send_update b h cm) = cm_update_sender cm"
  "cm_log_sink (send_update b h cm) = cm_log_sink cm"
  "cm_trace (send_update b h cm) = cm_trace cm @ (if cm_update_sender cm
     then [EfUpdate \<lparr>su_block = b, su_block_hash = h, su_generation = st_generation (cm_state cm)\<rparr>]
     else [])"
  by (simp_all add: send_update_def)

lemma send_logs_fields [simp]:
  "cm_state (send_logs c cm) = cm_state cm"
  "cm_ready_signal (send_logs c cm) = cm_ready_signal cm"
  "cm_update_sender (send_logs c cm) = cm_update_sender cm"
  "cm_log_sink (send_logs c cm) = cm_log_sink cm"
  "cm_trace (send_logs c cm) = cm_trace cm @ (if cm_log_sink cm \<and> extract_logs c \<noteq> []
     then [EfLogs (extract_logs c)] else [])"
  by (simp_all add: send_logs_def Let_def)

lemma fire_ready_fields [simp]:
  "cm_state (fire_ready n cm) = cm_state cm"
  "cm_ready_signal (fire_ready n cm) = False"
  "cm_update_sender (fire_ready n cm) = cm_update_sender cm"
  "cm_log_sink (fire_ready n cm) = cm_log_sink cm"
  "cm_trace (fire_ready n cm) = cm_trace cm @ (if cm_ready_signal cm then [EfReady n] else [])"
  by (simp_all add: fire_ready_def)

text \<open>What the continuity checks see of the state, and the headers they are given.\<close>

definition view :: "('c, 'w, 'l) changeset_manager \<Rightarrow> current_state" where
  "view cm = (let s = st_inner (cm_state cm) in
    \<lparr>cs_block = ss_block s, cs_block_hash = ss_block_hash s, cs_stale = ss_stale s\<rparr>)"

definition info_of :: "sealed_header \<Rightarrow> block_info" where
  "info_of h = \<lparr>bi_number = sh_number h, bi_hash = sh_hash h, bi_parent_hash = sh_parent_hash h\<rparr>"

definition tip_of :: "sealed_header \<Rightarrow> chain_tip" where
  "tip_of h = \<lparr>ct_number = sh_number h, ct_hash = sh_hash h\<rparr>"

lemma tip_of_fields [simp]: "ct_number (tip_of h) = sh_number h" "ct_hash (tip_of h) = sh_hash h"
  by (simp_all add: tip_of_def)

text \<open>The snapshot a notification leads to.\<close>

fun next_snapshot ::
  "'c env \<Rightarrow> ('c \<Rightarrow> bytes) \<Rightarrow> ('c, 'w, 'l) notification \<times> 'c flush_replies
    \<Rightarrow> ('c, 'w, 'l) changeset_manager \<Rightarrow> ('c, 'w, 'l) state_snapshot option" where
  "next_snapshot E ob (ChainCommitted new, fr) cm =
    (case (chain_tip_of new, chain_first new) of
       (Some t, Some f) \<Rightarrow> Some
         (if is_initial (view cm) \<or> cs_stale (view cm) \<or> connects (view cm) (info_of f) (chain_ids new)
          then fst (build_commit_state (st_inner (cm_state cm)) (caches_from_tuple (flush_all_caches fr))
                 (extract_execution_changes E ob new) (extract_block_data new) (tip_of t))
          else mark_stale (st_inner (cm_state cm)))
     | _ \<Rightarrow> None)"
| "next_snapshot E ob (ChainReorged old new, fr) cm =
    (case (chain_tip_of old, chain_tip_of new, chain_first old) of
       (Some ot, Some t, Some f) \<Rightarrow> Some
         (if is_initial (view cm) \<or> rewinds (view cm) (info_of ot) (chain_ids old)
          then build_reorg_state (st_inner (cm_state cm)) (saturating_pred (sh_number f))
                 (extract_execution_changes E ob new) (extract_block_data new) (tip_of t)
          else mark_stale (st_inner (cm_state cm)))
     | _ \<Rightarrow> None)"
| "next_snapshot E ob (ChainReverted old, fr) cm =
    (case chain_first old of
       Some f \<Rightarrow> Some (build_revert_state (st_inner (cm_state cm)) (saturating_pred (sh_number f)))
     | None \<Rightarrow> None)"

fun new_logs :: "('c, 'w, 'l) notification \<Rightarrow> 'l list" where
  "new_logs (ChainCommitted new) = extract_logs new"
| "new_logs (ChainReorged _ new) = extract_logs new"
| "new_logs (ChainReverted _) = []"

fun is_revert :: "('c, 'w, 'l) notification \<Rightarrow> bool" where
  "is_revert (ChainReverted _) = True"
| "is_revert _ = False"

definition told ::
  "('c, 'w, 'l) notification \<Rightarrow> ('c, 'w, 'l) state_snapshot \<Rightarrow> ('c, 'w, 'l) changeset_manager
    \<Rightarrow> ('c, 'w, 'l) effect list" where
  "told n s cm =
    (if cm_update_sender cm \<and> (\<not> ss_stale s \<or> is_revert n)
     then [EfUpdate \<lparr>su_block = ss_block s, su_block_hash = ss_block_hash s,
             su_generation = st_generation (cm_state cm) + 1\<rparr>] else [])
    @ (if cm_log_sink cm \<and> \<not> ss_stale s \<and> new_logs n \<noteq> [] then [EfLogs (new_logs n)] else [])
    @ (if cm_ready_signal cm \<and> \<not> ss_stale s then [EfReady (ss_block s)] else [])"

text \<open>Every handler is: flush, swap the next snapshot in, tell.\<close>

lemma handle_notification_eq:
  "handle_notification E ob (n, fr) cm =
    map_option (\<lambda>s. cm\<lparr>cm_state := swap s (cm_state cm),
        cm_ready_signal := cm_ready_signal cm \<and> ss_stale s,
        cm_trace := cm_trace cm @ [EfFlush, EfSwap s] @ told n s cm\<rparr>)
      (next_snapshot E ob (n, fr) cm)"
proof (cases n)
  case (ChainCommitted new)
  show ?thesis
    by (cases "chain_tip_of new"; cases "chain_first new")
      (auto simp: ChainCommitted handle_commit_def Let_def split_beta verdict_iffs
        view_def [unfolded Let_def] info_of_def told_def tip_of_def [symmetric]
        intro!: changeset_manager.equality)
next
  case (ChainReorged old new)
  show ?thesis
    by (cases "chain_tip_of old"; cases "chain_first old"; cases "chain_tip_of new")
      (auto simp: ChainReorged handle_reorg_def Let_def verdict_iffs is_initial_def rewinds_def
        view_def [unfolded Let_def] info_of_def told_def tip_of_def [symmetric]
        intro!: changeset_manager.equality)
next
  case (ChainReverted old)
  show ?thesis
    by (cases "cn_blocks_and_receipts old")
      (auto simp: ChainReverted handle_revert_def Let_def told_def chain_tip_of_def chain_first_def
        intro!: changeset_manager.equality)
qed

lemmas run_def = run_changeset_manager_def

text \<open>The abstract machine: only the tip and the stale flag.\<close>

fun tip_step ::
  "('c, 'w, 'l) notification \<times> 'c flush_replies \<Rightarrow> current_state \<Rightarrow> current_state" where
  "tip_step (ChainCommitted new, _) cs =
    (case (chain_tip_of new, chain_first new) of
       (Some t, Some f) \<Rightarrow>
         (if is_initial cs \<or> cs_stale cs \<or> connects cs (info_of f) (chain_ids new)
          then \<lparr>cs_block = sh_number t, cs_block_hash = sh_hash t, cs_stale = False\<rparr>
          else cs\<lparr>cs_stale := True\<rparr>)
     | _ \<Rightarrow> cs)"
| "tip_step (ChainReorged old new, _) cs =
    (case (chain_tip_of old, chain_tip_of new) of
       (Some ot, Some t) \<Rightarrow>
         (if is_initial cs \<or> rewinds cs (info_of ot) (chain_ids old)
          then \<lparr>cs_block = sh_number t, cs_block_hash = sh_hash t, cs_stale = False\<rparr>
          else cs\<lparr>cs_stale := True\<rparr>)
     | _ \<Rightarrow> cs)"
| "tip_step (ChainReverted old, _) cs =
    (case chain_first old of
       Some f \<Rightarrow> \<lparr>cs_block = saturating_pred (sh_number f), cs_block_hash = 0, cs_stale = True\<rparr>
     | None \<Rightarrow> cs)"

lemma view_swap: "cm_state cm' = swap s st \<Longrightarrow>
    view cm' = \<lparr>cs_block = ss_block s, cs_block_hash = ss_block_hash s, cs_stale = ss_stale s\<rparr>"
  by (simp add: view_def)

lemma handle_next:
  assumes "handle_notification E ob (n, fr) cm = Some cm'"
  obtains s where "next_snapshot E ob (n, fr) cm = Some s"
    "cm' = cm\<lparr>cm_state := swap s (cm_state cm),
        cm_ready_signal := cm_ready_signal cm \<and> ss_stale s,
        cm_trace := cm_trace cm @ [EfFlush, EfSwap s] @ told n s cm\<rparr>"
  using assms by (auto simp: handle_notification_eq)

lemma next_snapshot_tip:
  assumes "next_snapshot E ob (n, fr) cm = Some s"
  shows "\<lparr>cs_block = ss_block s, cs_block_hash = ss_block_hash s, cs_stale = ss_stale s\<rparr>
    = tip_step (n, fr) (view cm)"
  using assms
  by (cases n) (auto simp: view_def [unfolded Let_def] split: option.splits if_splits)

interpretation tip: machine_refines "handle_notification E ob" tip_step view for E ob
proof
  fix i and s s' :: "('a, 'b, 'c) changeset_manager"
  assume h: "handle_notification E ob i s = Some s'"
  obtain n fr where i: "i = (n, fr)" by (cases i)
  from h [unfolded i] obtain t where t: "next_snapshot E ob (n, fr) s = Some t"
      "s' = s\<lparr>cm_state := swap t (cm_state s), cm_ready_signal := cm_ready_signal s \<and> ss_stale t,
        cm_trace := cm_trace s @ [EfFlush, EfSwap t] @ told n t s\<rparr>"
    by (rule handle_next)
  have "view s' = \<lparr>cs_block = ss_block t, cs_block_hash = ss_block_hash t, cs_stale = ss_stale t\<rparr>"
    using t(2) by (simp add: view_def)
  then show "view s' = tip_step i (view s)"
    using next_snapshot_tip [OF t(1)] i by simp
qed

end
