(* ===== verification/Changeset_Props.thy ===== *)
theory Changeset_Props
  imports Changeset
begin

text \<open>
  What holds of the changeset manager over a whole run of notifications: it never panics on
  non-empty chains, it implements the tip machine, it tells its subscribers exactly what it
  installed, and it keeps the snapshot well-formed.
\<close>

section \<open>Runs\<close>

fun chains_of :: "('c, 'w, 'l) notification \<Rightarrow> ('c, 'w, 'l) chain list" where
  "chains_of (ChainCommitted new) = [new]"
| "chains_of (ChainReorged old new) = [old, new]"
| "chains_of (ChainReverted old) = [old]"

lemma next_snapshot_None:
  "next_snapshot E ob (n, fr) cm = None \<longleftrightarrow> (\<exists>c \<in> set (chains_of n). cn_blocks_and_receipts c = [])"
  by (cases n) (auto simp: chain_tip_of_def chain_first_def split: option.splits list.splits if_splits)

lemma handle_None:
  "handle_notification E ob (n, fr) cm = None \<longleftrightarrow>
    (\<exists>c \<in> set (chains_of n). cn_blocks_and_receipts c = [])"
  by (simp add: handle_notification_eq next_snapshot_None)

lemma run_None:
  "run_changeset_manager E ob ns cm = None \<longleftrightarrow>
    (\<exists>x \<in> set ns. \<exists>c \<in> set (chains_of (fst x)). cn_blocks_and_receipts c = [])"
proof (induction ns arbitrary: cm)
  case Nil
  then show ?case by (simp add: run_def)
next
  case (Cons x ns)
  obtain n fr where x: "x = (n, fr)" by (cases x)
  show ?case
    using Cons [unfolded run_def] handle_None [of E ob n fr cm]
    by (auto simp: run_def x split: option.split)
qed

lemma chain_first_None: "chain_first c = None \<longleftrightarrow> chain_tip_of c = None"
  by (simp add: chain_ends)

text \<open>The snapshot's invariant.\<close>

definition snapshot_ok :: "('c, 'w, 'l) state_snapshot \<Rightarrow> bool" where
  "snapshot_ok s \<longleftrightarrow> history_ok s \<and>
    (case ss_header s of
       None \<Rightarrow> True
     | Some h \<Rightarrow> sh_number h = ss_block s \<and> sh_hash h = ss_block_hash s
                \<and> fmlookup (ss_block_hashes s) (ss_block s) = Some (ss_block_hash s))"

lemma snapshot_ok_default [simp]: "snapshot_ok snapshot_default"
  by (simp add: snapshot_ok_def)

lemma commit_header:
  "ss_header (fst (build_commit_state cur ca ch bs tip)) =
    (if bs = [] then ss_header cur else Some (bd_header (last bs)))"
  by (simp add: build_commit_state_def Let_def split_beta block_data_header)

lemma reorg_header:
  "ss_header (build_reorg_state cur n ch bs tip) =
    (if bs = [] then None else Some (bd_header (last bs)))"
  by (simp add: build_reorg_state_def Let_def block_data_header)

lemma revert_header: "ss_header (build_revert_state cur n) = None"
  by (simp add: build_revert_state_def)

lemma mark_stale_header: "ss_header (mark_stale s) = ss_header s"
  by (simp add: mark_stale_def)

lemmas header_simps = commit_header reorg_header revert_header mark_stale_header

lemma next_snapshot_ok:
  assumes "next_snapshot E ob (n, fr) cm = Some s" and "snapshot_ok (st_inner (cm_state cm))"
  shows "snapshot_ok s"
  using assms
  by (cases n)
    (auto simp: snapshot_ok_def header_simps commit_history_ok reorg_history_ok revert_history_ok
      mark_stale_history_ok fm_simps extract_block_ids tip_in_block_data
      split: option.splits if_splits)

interpretation snap: machine_invariant "handle_notification E ob"
  "\<lambda>cm. snapshot_ok (st_inner (cm_state cm))" for E ob
proof
  fix i and s s' :: "('a, 'b, 'c) changeset_manager"
  assume h: "handle_notification E ob i s = Some s'" and ok: "snapshot_ok (st_inner (cm_state s))"
  obtain n fr where i: "i = (n, fr)" by (cases i)
  from h [unfolded i] show "snapshot_ok (st_inner (cm_state s'))"
    by (rule handle_next) (simp add: next_snapshot_ok [OF _ ok])
qed

text \<open>The ready signal: at most one in the trace, none while it has not fired.\<close>

fun is_ready_effect :: "('c, 'w, 'l) effect \<Rightarrow> bool" where
  "is_ready_effect (EfReady _) = True"
| "is_ready_effect _ = False"

definition ready_ok :: "('c, 'w, 'l) changeset_manager \<Rightarrow> bool" where
  "ready_ok cm \<longleftrightarrow>
    length (filter is_ready_effect (cm_trace cm)) = (if cm_ready_signal cm then 0 else 1)"

interpretation ready: machine_invariant "handle_notification E ob" ready_ok for E ob
proof
  fix i and s s' :: "('a, 'b, 'c) changeset_manager"
  assume h: "handle_notification E ob i s = Some s'" and ok: "ready_ok s"
  obtain n fr where i: "i = (n, fr)" by (cases i)
  from h [unfolded i] show "ready_ok s'"
    by (rule handle_next) (use ok in \<open>auto simp: ready_ok_def told_def\<close>)
qed

lemma run_generation:
  "run_changeset_manager E ob ns cm = Some cm' \<Longrightarrow>
    st_generation (cm_state cm') = st_generation (cm_state cm) + of_nat (length ns)"
proof (induction ns arbitrary: cm)
  case Nil
  then show ?case by (simp add: run_def)
next
  case (Cons x ns)
  obtain n fr where x: "x = (n, fr)" by (cases x)
  from Cons.prems obtain cm1 where 1: "handle_notification E ob (n, fr) cm = Some cm1"
    and 2: "run_changeset_manager E ob ns cm1 = Some cm'"
    by (auto simp: run_def x split: option.splits)
  from 1 have "st_generation (cm_state cm1) = st_generation (cm_state cm) + 1"
    by (rule handle_next) simp
  with Cons.IH [OF 2] show ?case by (simp add: algebra_simps)
qed

section \<open>Sample chains, for the witnesses\<close>

definition demo_header :: "u64 \<Rightarrow> b256 \<Rightarrow> b256 \<Rightarrow> sealed_header" where
  "demo_header n h p = \<lparr>sh_number = n, sh_hash = h, sh_parent_hash = p, sh_timestamp = 0,
     sh_mix_hash = 0, sh_gas_limit = 0, sh_parent_beacon_block_root = None\<rparr>"

definition demo_chain :: "(u64 \<times> b256 \<times> b256) list \<Rightarrow> ('c, nat, nat) chain" where
  "demo_chain bs = \<lparr>cn_blocks_and_receipts = map (\<lambda>(n, h, p).
       (\<lparr>bv_header = demo_header n h p, bv_withdrawals = None, bv_tx_hashes = []\<rparr>,
        [\<lparr>rc_status = True, rc_logs = [unat n]\<rparr>])) bs,
     cn_bundle = \<lparr>bs_state = fmempty, bs_contracts = fmempty\<rparr>\<rparr>"

definition demo_channels :: fetch_channels where
  "demo_channels = \<lparr>ch_account = \<lparr>chan_open = True, chan_sent = []\<rparr>,
     ch_code = \<lparr>chan_open = True, chan_sent = []\<rparr>, ch_storage = \<lparr>chan_open = True, chan_sent = []\<rparr>,
     ch_block_hash = \<lparr>chan_open = True, chan_sent = []\<rparr>\<rparr>"

definition demo_cm :: "('c, nat, nat) state_snapshot \<Rightarrow> ('c, nat, nat) changeset_manager" where
  "demo_cm s = \<lparr>cm_state = static_state_new s demo_channels fetch_config_default,
     cm_ready_signal = True, cm_update_sender = True, cm_log_sink = True, cm_trace = []\<rparr>"

definition demo_env2 :: "nat env" where
  "demo_env2 = \<lparr>en_keccak256 = (\<lambda>bs. of_nat (length bs)), en_KECCAK_EMPTY = 0, en_new_raw = length\<rparr>"

definition no_caches :: "'c flush_replies" where
  "no_caches = \<lparr>fr_account = None, fr_code = None, fr_storage = None, fr_block_hash = None\<rparr>"

lemmas demo2_defs = demo_header_def demo_chain_def demo_channels_def demo_cm_def demo_env2_def
  no_caches_def static_state_new_def

text \<open>A commit, a gap, a commit that is accepted because the state is stale.\<close>

abbreviation "demo_notes \<equiv>
  [(ChainCommitted (demo_chain [(100, 7, 6)]), no_caches),
   (ChainCommitted (demo_chain [(105, 12, 11)]), no_caches),
   (ChainCommitted (demo_chain [(106, 13, 12)]), no_caches)]"

lemma demo_run:
  "\<exists>cm'. run_changeset_manager demo_env2 (\<lambda>_. []) demo_notes (demo_cm snapshot_default) = Some cm'"
  using run_None [of demo_env2 "\<lambda>_. []" demo_notes "demo_cm snapshot_default"]
  by (auto simp: demo_chain_def)

section \<open>Properties\<close>

text \<open>
  The loop gets through every sequence of notifications with non-empty chains, and
  panics on exactly the others.
\<close>

theorem run_panics_iff_empty_chain:
  "run_changeset_manager E ob ns cm = None \<longleftrightarrow>
    (\<exists>x \<in> set ns. \<exists>c \<in> set (chains_of (fst x)). cn_blocks_and_receipts c = [])"
  by (rule run_None)

text \<open>
  C5: the manager implements the tip machine: whatever notifications come, the tip and the
  stale flag of the shared state are those of the continuity contract run on them, whatever
  is cached, flushed, executed or recorded on the way.
\<close>

theorem run_implements_tip_machine:
  assumes "run_changeset_manager E ob ns cm = Some cm'"
  shows "view cm' = fold tip_step ns (view cm)"
  using assms unfolding run_def by (rule tip.run_refines)

theorem run_implements_tip_machine_witness:
  "\<exists>cm'. view cm' = \<lparr>cs_block = 106, cs_block_hash = 13, cs_stale = False\<rparr>
     \<and> run_changeset_manager demo_env2 (\<lambda>_. []) demo_notes (demo_cm snapshot_default) = Some cm'"
proof -
  from demo_run obtain cm' where
    r: "run_changeset_manager demo_env2 (\<lambda>_. []) demo_notes (demo_cm snapshot_default) = Some cm'"
    by blast
  have "fold tip_step demo_notes (view (demo_cm snapshot_default)) =
      \<lparr>cs_block = 106, cs_block_hash = 13, cs_stale = False\<rparr>"
    by (simp add: demo2_defs view_def chain_tip_of_def chain_first_def chain_ids_def is_initial_def
        connects_def info_of_def)
  with run_implements_tip_machine [OF r] r show ?thesis by auto
qed

text \<open>
  C7: every notification, accepted or not, is one flush of the managers, one swap and one
  generation, and then the announcements, in this order: an update with the tip and the
  generation just installed unless the notification was refused, its logs if there are any,
  and the ready signal if it has not fired and the new state is fresh.
\<close>

theorem notification_effects:
  assumes "handle_notification E ob (n, fr) cm = Some cm'"
  shows "\<exists>s. st_inner (cm_state cm') = s
    \<and> st_generation (cm_state cm') = st_generation (cm_state cm) + 1
    \<and> cm_trace cm' = cm_trace cm @ [EfFlush, EfSwap s]
        @ (if cm_update_sender cm \<and> (\<not> ss_stale s \<or> is_revert n)
           then [EfUpdate \<lparr>su_block = ss_block s, su_block_hash = ss_block_hash s,
                   su_generation = st_generation (cm_state cm')\<rparr>] else [])
        @ (if cm_log_sink cm \<and> \<not> ss_stale s \<and> new_logs n \<noteq> [] then [EfLogs (new_logs n)] else [])
        @ (if cm_ready_signal cm \<and> \<not> ss_stale s then [EfReady (ss_block s)] else [])
    \<and> (cm_ready_signal cm' \<longleftrightarrow> cm_ready_signal cm \<and> ss_stale s)"
  using assms by (rule handle_next) (simp add: told_def)

theorem notification_effects_witness:
  "\<exists>cm' s. handle_notification demo_env2 (\<lambda>_. [])
       (ChainReverted (demo_chain [(100, 7, 6)]), no_caches) (demo_cm snapshot_default) = Some cm'
     \<and> cm_trace cm' = [EfFlush, EfSwap s,
         EfUpdate \<lparr>su_block = 99, su_block_hash = 0, su_generation = 1\<rparr>]"
proof -
  let ?x = "(ChainReverted (demo_chain [(100, 7, 6)]), no_caches)"
  obtain cm' where h: "handle_notification demo_env2 (\<lambda>_. []) ?x (demo_cm snapshot_default) = Some cm'"
    using handle_None [of demo_env2 "\<lambda>_. []" "fst ?x" no_caches "demo_cm snapshot_default"]
    by (auto simp: demo_chain_def)
  have "view cm' = \<lparr>cs_block = 99, cs_block_hash = 0, cs_stale = True\<rparr>"
    using tip.step_refines [OF h]
    by (simp add: demo_chain_def chain_first_def saturating_pred_def demo_header_def)
  with notification_effects [OF h] h show ?thesis
    by (auto simp: view_def Let_def demo_cm_def static_state_new_def)
qed

text \<open>
  Over any run from the start the ready signal fires at most once, and it has fired
  exactly when it is no longer held.
\<close>

theorem ready_fires_once:
  assumes "run_changeset_manager E ob ns cm = Some cm'" and "cm_ready_signal cm" and "cm_trace cm = []"
  shows "length (filter is_ready_effect (cm_trace cm')) = (if cm_ready_signal cm' then 0 else 1)"
proof -
  have "ready_ok cm" using assms(2,3) by (simp add: ready_ok_def)
  from ready.run_keeps [OF assms(1) [unfolded run_def] this] show ?thesis
    by (simp add: ready_ok_def)
qed

theorem ready_fires_once_witness:
  "\<exists>cm'. run_changeset_manager demo_env2 (\<lambda>_. []) demo_notes (demo_cm snapshot_default) = Some cm'
     \<and> length (filter is_ready_effect (cm_trace cm')) \<le> 1"
proof -
  from demo_run obtain cm' where
    r: "run_changeset_manager demo_env2 (\<lambda>_. []) demo_notes (demo_cm snapshot_default) = Some cm'"
    by blast
  from ready_fires_once [OF r] r show ?thesis
    by (auto simp: demo_cm_def split: if_splits)
qed

text \<open>
  C18: the installed snapshot stays well-formed through every run: both histories within their
  bound, and a header, whenever one is there, is the header of the snapshot's own block and
  hash, which \<open>BLOCKHASH\<close> also finds.
\<close>

theorem run_keeps_snapshot_ok:
  assumes "run_changeset_manager E ob ns cm = Some cm'" and "snapshot_ok (st_inner (cm_state cm))"
  shows "snapshot_ok (st_inner (cm_state cm'))"
  using assms unfolding run_def by (rule snap.run_keeps)

theorem run_keeps_snapshot_ok_witness:
  "\<exists>cm'. run_changeset_manager demo_env2 (\<lambda>_. []) demo_notes (demo_cm snapshot_default) = Some cm'
     \<and> snapshot_ok (st_inner (cm_state cm'))"
proof -
  have "snapshot_ok (st_inner (cm_state (demo_cm snapshot_default)))"
    by (simp add: demo_cm_def static_state_new_def)
  with demo_run run_keeps_snapshot_ok show ?thesis by blast
qed

text \<open>
  C17: what makes the state stale and what ends it: a notification leaves the state stale
  exactly when it is a revert, a commit that does not connect to a fresh tip, or a reorg
  whose old chain is not ours.  So a stale state is fresh again after the very next commit,
  and also after a reorg that rewinds its tip.
\<close>

theorem stale_exactly:
  assumes "handle_notification E ob (n, fr) cm = Some cm'"
  shows "cs_stale (view cm') \<longleftrightarrow>
    (case n of
       ChainCommitted new \<Rightarrow>
         \<not> is_initial (view cm) \<and> \<not> cs_stale (view cm)
         \<and> (\<forall>f. chain_first new = Some f \<longrightarrow> \<not> connects (view cm) (info_of f) (chain_ids new))
     | ChainReorged old new \<Rightarrow>
         \<not> is_initial (view cm)
         \<and> (\<forall>t. chain_tip_of old = Some t \<longrightarrow> \<not> rewinds (view cm) (info_of t) (chain_ids old))
     | ChainReverted old \<Rightarrow> True)"
  using tip.step_refines [OF assms] handle_None [of E ob n fr cm] assms
  by (cases n) (auto simp: chain_ends [symmetric] chain_first_None split: option.splits)

theorem stale_exactly_witness:
  "\<exists>cm'. handle_notification demo_env2 (\<lambda>_. [])
       (ChainReorged (demo_chain [(100, 7, 6)]) (demo_chain [(100, 8, 6)]), no_caches)
       (demo_cm (mark_stale (snapshot_default\<lparr>ss_block := 100, ss_block_hash := 7\<rparr>))) = Some cm'
     \<and> \<not> cs_stale (view cm')"
proof -
  let ?n = "ChainReorged (demo_chain [(100, 7, 6)]) (demo_chain [(100, 8, 6)])"
  let ?cm = "demo_cm (mark_stale (snapshot_default\<lparr>ss_block := 100, ss_block_hash := 7\<rparr>))"
  obtain cm' where h: "handle_notification demo_env2 (\<lambda>_. []) (?n, no_caches) ?cm = Some cm'"
    using handle_None [of demo_env2 "\<lambda>_. []" ?n no_caches ?cm] by (auto simp: demo_chain_def)
  from stale_exactly [OF h] h show ?thesis
    by (simp add: demo2_defs view_def Let_def rewinds_def info_of_def chain_tip_of_def)
qed

text \<open>
  C20: accepting a commit after a gap does not start from scratch: an account that the
  snapshot held before the gap, and that neither the recovering block nor its flushed caches
  mention, is served again as it was, although the blocks in the gap were never applied.
\<close>

theorem recovery_keeps_entries_across_gap:
  assumes "run_changeset_manager E ob [(ChainCommitted c1, f1), (ChainCommitted c2, f2)] cm = Some cm'"
    and "\<not> is_initial (view cm)" and "chain_first c1 = Some fb"
    and "\<not> connects (view cm) (info_of fb) (chain_ids c1)"
    and "chain_tip_of c2 = Some t2"
    and "fmlookup (bs_state (cn_bundle c2)) a = None"
    and "usable (unwrap_or (fr_account f2) tagged_cache_default) (cs_block_hash (view cm)) a = None"
    and "\<not> cs_stale (view cm)" and "fmlookup (ss_accounts (st_inner (cm_state cm))) a = Some i"
  shows "view cm' = \<lparr>cs_block = sh_number t2, cs_block_hash = sh_hash t2, cs_stale = False\<rparr>
    \<and> fmlookup (ss_accounts (st_inner (cm_state cm'))) a = Some i"
proof -
  from assms(1) obtain cm1 where h1: "handle_notification E ob (ChainCommitted c1, f1) cm = Some cm1"
    and h2: "handle_notification E ob (ChainCommitted c2, f2) cm1 = Some cm'"
    by (auto simp: run_def split: option.splits)
  from h1 assms(2,3,4,8) have cm1: "st_inner (cm_state cm1) = mark_stale (st_inner (cm_state cm))"
    by (elim handle_next) (auto split: option.splits)
  then have "cs_stale (view cm1)" by (simp add: view_def Let_def)
  with h2 assms(5) have cm': "st_inner (cm_state cm') =
      fst (build_commit_state (st_inner (cm_state cm1)) (caches_from_tuple (flush_all_caches f2))
        (extract_execution_changes E ob c2) (extract_block_data c2) (tip_of t2))"
    by (elim handle_next) (auto split: option.splits)
  have "new_info (extract_execution_changes E ob c2) a = None"
    using assms(6) by (simp add: new_info_def fm_simps)
  then show ?thesis
    using assms(7,9)
    by (simp add: cm' cm1 fm_simps view_def Let_def caches_from_tuple_def flush_all_caches_def)
qed

theorem recovery_keeps_entries_across_gap_witness:
  "\<exists>cm' :: (nat, nat, nat) changeset_manager.
     view cm' = \<lparr>cs_block = 106, cs_block_hash = 13, cs_stale = False\<rparr>
     \<and> fmlookup (ss_accounts (st_inner (cm_state cm'))) 1 = Some
         \<lparr>ai_balance = 1000, ai_nonce = 1, ai_code_hash = 5, ai_account_id = None, ai_code = None\<rparr>"
proof -
  let ?i = "\<lparr>ai_balance = 1000, ai_nonce = 1, ai_code_hash = 5, ai_account_id = None, ai_code = None\<rparr>
    :: nat account_info"
  let ?cm = "demo_cm (snapshot_default\<lparr>ss_block := 100, ss_block_hash := 7,
      ss_accounts := fmap_of_list [(1, ?i)]\<rparr>)"
  let ?ns = "[(ChainCommitted (demo_chain [(105, 12, 11)]), no_caches),
      (ChainCommitted (demo_chain [(106, 13, 12)]), no_caches)]"
  obtain cm' where r: "run_changeset_manager demo_env2 (\<lambda>_. []) ?ns ?cm = Some cm'"
    using run_None [of demo_env2 "\<lambda>_. []" ?ns ?cm] by (auto simp: demo_chain_def)
  have "view cm' = \<lparr>cs_block = sh_number (demo_header 106 13 12),
          cs_block_hash = sh_hash (demo_header 106 13 12), cs_stale = False\<rparr>
      \<and> fmlookup (ss_accounts (st_inner (cm_state cm'))) 1 = Some ?i"
    by (rule recovery_keeps_entries_across_gap [OF r, where fb = "demo_header 105 12 11"])
      (simp_all add: demo2_defs view_def Let_def is_initial_def chain_first_def chain_tip_of_def
        fmlookup_of_list unwrap_or_def connects_def info_of_def)
  then show ?thesis by (auto simp: demo_header_def)
qed

text \<open>
  C21: the default snapshot is not stale, so reads before the first notification are served:
  they ask at block 0 under the zero hash, and what the account manager then hands over under
  that tag is merged into the first tip, whatever its number.
\<close>

theorem first_commit_adopts_initial_cache:
  assumes "handle_notification E ob (ChainCommitted new, fr) cm = Some cm'"
    and "st_inner (cm_state cm) = snapshot_default" and "chain_tip_of new = Some t"
    and "fr_account fr = Some c" and "tc_block_hash c = 0" and "fmlookup (tc_data c) a = Some i"
    and "fmlookup (bs_state (cn_bundle new)) a = None"
  shows "fmlookup (ss_accounts (st_inner (cm_state cm'))) a = Some i
    \<and> view cm' = \<lparr>cs_block = sh_number t, cs_block_hash = sh_hash t, cs_stale = False\<rparr>"
proof -
  have "is_initial (view cm)" using assms(2) by (simp add: view_def Let_def is_initial_def)
  with assms(1,3) have cm': "st_inner (cm_state cm') =
      fst (build_commit_state (st_inner (cm_state cm)) (caches_from_tuple (flush_all_caches fr))
        (extract_execution_changes E ob new) (extract_block_data new) (tip_of t))"
    by (elim handle_next) (auto split: option.splits)
  have "new_info (extract_execution_changes E ob new) a = None"
    using assms(7) by (simp add: new_info_def fm_simps)
  with assms(2,4-6) show ?thesis
    by (simp add: cm' fm_simps view_def Let_def caches_from_tuple_def flush_all_caches_def
        unwrap_or_def usable_def is_valid_for_def)
qed

theorem first_commit_adopts_initial_cache_witness:
  "let i = \<lparr>ai_balance = 1, ai_nonce = 0, ai_code_hash = 0, ai_account_id = None, ai_code = None\<rparr>;
       fr = no_caches\<lparr>fr_account := Some \<lparr>tc_block_hash = 0, tc_data = fmap_of_list [(9, i)]\<rparr>\<rparr>
   in \<exists>cm'. handle_notification demo_env2 (\<lambda>_. []) (ChainCommitted (demo_chain [(100, 7, 6)]), fr)
          (demo_cm snapshot_default) = Some cm'
     \<and> fmlookup (ss_accounts (st_inner (cm_state cm'))) 9 = Some i \<and> cs_block (view cm') = 100"
proof -
  let ?i = "\<lparr>ai_balance = 1, ai_nonce = 0, ai_code_hash = 0, ai_account_id = None, ai_code = None\<rparr>
    :: nat account_info"
  let ?c = "\<lparr>tc_block_hash = 0, tc_data = fmap_of_list [(9, ?i)]\<rparr>"
  let ?fr = "no_caches\<lparr>fr_account := Some ?c\<rparr>"
  let ?n = "ChainCommitted (demo_chain [(100, 7, 6)])"
  obtain cm' where h: "handle_notification demo_env2 (\<lambda>_. []) (?n, ?fr) (demo_cm snapshot_default) = Some cm'"
    using handle_None [of demo_env2 "\<lambda>_. []" ?n ?fr "demo_cm snapshot_default"]
    by (auto simp: demo_chain_def)
  have "fmlookup (ss_accounts (st_inner (cm_state cm'))) 9 = Some ?i
      \<and> view cm' = \<lparr>cs_block = sh_number (demo_header 100 7 6),
          cs_block_hash = sh_hash (demo_header 100 7 6), cs_stale = False\<rparr>"
    by (rule first_commit_adopts_initial_cache [OF h, where c = ?c])
      (simp_all add: demo2_defs chain_tip_of_def fmlookup_of_list)
  with h show ?thesis by (auto simp: Let_def demo_header_def)
qed

text \<open>
  Extraction keeps the bundle: each account of the bundle becomes one change with its
  info and the present value of each of its slots, each contract is re-analysed from its
  original bytes, and nothing is added.
\<close>

lemma extraction_pointwise:
  "new_info (extract_execution_changes E ob c) a =
     Option.bind (fmlookup (bs_state (cn_bundle c)) a) ba_info
   \<and> new_slot (extract_execution_changes E ob c) (a, k) =
     Option.bind (fmlookup (bs_state (cn_bundle c)) a)
       (\<lambda>ba. map_option sl_present_value (fmlookup (ba_storage ba) k))
   \<and> fmlookup (ec_contracts (extract_execution_changes E ob c)) h =
     map_option (\<lambda>b. en_new_raw E (ob b)) (fmlookup (bs_contracts (cn_bundle c)) h)
   \<and> fmdom (ec_accounts (extract_execution_changes E ob c)) = fmdom (bs_state (cn_bundle c))"
  by (auto simp: new_info_def new_slot_def fm_simps fset_eq_iff fmlookup_dom_iff
      split: option.splits bind_splits)

end
