(* ===== verification/Coherence.thy ===== *)
theory Coherence
  imports Changeset_Props Managers
begin

text \<open>
  What the whole simulator promises: a fresh snapshot holds the truth of the chain.  The chain
  is a \<open>world\<close>, the accounts, slots and ancestors of every block hash; a snapshot is coherent
  when everything it holds is what the world says at its own hash.  The theory states under
  which notifications, caches and node answers coherence is kept, and that reads then return
  the world's values.

  Accounts are compared on balance, nonce and code hash.  That a chain's bundle describes the
  step from one block to another (\<open>executes\<close>) is what reth documents of it.
\<close>

section \<open>The world and the abstract reading of a snapshot\<close>

record world =
  wd_account :: "b256 \<Rightarrow> address \<Rightarrow> u256 \<times> u64 \<times> b256"
  wd_slot :: "b256 \<Rightarrow> address \<times> u256 \<Rightarrow> u256"
  wd_ancestor :: "b256 \<Rightarrow> u64 \<Rightarrow> b256"
  wd_number :: "b256 \<Rightarrow> u64"

definition accounts_true :: "world \<Rightarrow> b256 \<Rightarrow> (address, 'c account_info) fmap \<Rightarrow> bool" where
  "accounts_true W h m \<longleftrightarrow> (\<forall>a i. fmlookup m a = Some i \<longrightarrow> ai_core i = wd_account W h a)"

definition slots_true :: "world \<Rightarrow> b256 \<Rightarrow> (address \<times> u256, u256) fmap \<Rightarrow> bool" where
  "slots_true W h m \<longleftrightarrow> (\<forall>k v. fmlookup m k = Some v \<longrightarrow> v = wd_slot W h k)"

definition hashes_true :: "world \<Rightarrow> b256 \<Rightarrow> (u64, b256) fmap \<Rightarrow> bool" where
  "hashes_true W h m \<longleftrightarrow> (\<forall>n x. fmlookup m n = Some x \<longrightarrow> x = wd_ancestor W h n)"

definition coherent :: "world \<Rightarrow> ('c, 'w, 'l) state_snapshot \<Rightarrow> bool" where
  "coherent W s \<longleftrightarrow> ss_stale s
    \<or> accounts_true W (ss_block_hash s) (ss_accounts s)
      \<and> slots_true W (ss_block_hash s) (ss_storage s)
      \<and> hashes_true W (ss_block_hash s) (ss_block_hashes s)"

text \<open>The caches of a flush hold the truth of the blocks they are tagged with.\<close>

definition caches_true :: "world \<Rightarrow> 'c flush_replies \<Rightarrow> bool" where
  "caches_true W fr \<longleftrightarrow>
    (\<forall>c. fr_account fr = Some c \<longrightarrow> accounts_true W (tc_block_hash c) (tc_data c))
    \<and> (\<forall>c. fr_storage fr = Some c \<longrightarrow> slots_true W (tc_block_hash c) (tc_data c))
    \<and> (\<forall>c. fr_block_hash fr = Some c \<longrightarrow> hashes_true W (tc_block_hash c) (tc_data c))"

text \<open>The blocks of a chain are the ancestors of its tip at their numbers.\<close>

definition ids_true :: "world \<Rightarrow> b256 \<Rightarrow> ('c, 'w, 'l) chain \<Rightarrow> bool" where
  "ids_true W tip c \<longleftrightarrow> (\<forall>(n, h) \<in> set (chain_ids c). wd_ancestor W tip n = h)"

text \<open>
  The bundle of \<open>c\<close> describes the step from block \<open>p\<close> to block \<open>tip\<close>: an account that is not
  in it keeps its state and its slots, one that is in it has the info and the present values
  written there, and slots not mentioned are unchanged.  Destroyed accounts are excluded.
\<close>

definition executes :: "world \<Rightarrow> b256 \<Rightarrow> b256 \<Rightarrow> ('c, 'w, 'l) chain \<Rightarrow> bool" where
  "executes W p tip c \<longleftrightarrow>
    (\<forall>a. case fmlookup (bs_state (cn_bundle c)) a of
           None \<Rightarrow> wd_account W tip a = wd_account W p a
         | Some ba \<Rightarrow> (\<exists>i. ba_info ba = Some i \<and> wd_account W tip a = ai_core i))
    \<and> (\<forall>a k. wd_slot W tip (a, k) =
         (case Option.bind (fmlookup (bs_state (cn_bundle c)) a) (\<lambda>ba. fmlookup (ba_storage ba) k) of
            None \<Rightarrow> wd_slot W p (a, k)
          | Some sl \<Rightarrow> sl_present_value sl))
    \<and> ids_true W tip c
    \<and> (\<forall>n. n \<notin> fst ` set (chain_ids c) \<longrightarrow> wd_ancestor W tip n = wd_ancestor W p n)"

lemma accounts_true_empty [simp]: "accounts_true W h fmempty"
  by (simp add: accounts_true_def)

lemma slots_true_empty [simp]: "slots_true W h fmempty"
  by (simp add: slots_true_def)

lemma hashes_true_empty [simp]: "hashes_true W h fmempty"
  by (simp add: hashes_true_def)

lemma usable_Some:
  "usable c h k = Some v \<Longrightarrow> tc_block_hash c = h \<and> fmlookup (tc_data c) k = Some v"
  by (auto simp: usable_def is_valid_for_lookup split: if_splits)

lemma unwrap_or_lookup:
  "fmlookup (tc_data (unwrap_or x tagged_cache_default)) k = Some v \<Longrightarrow> x \<noteq> None"
  by (cases x) (auto simp: unwrap_or_def tagged_cache_default_def)

lemma caches_usable:
  assumes "caches_true W fr"
  shows "usable (unwrap_or (fr_account fr) tagged_cache_default) h a = Some i \<Longrightarrow>
      ai_core i = wd_account W h a"
    and "usable (unwrap_or (fr_storage fr) tagged_cache_default) h k = Some v \<Longrightarrow>
      v = wd_slot W h k"
    and "usable (unwrap_or (fr_block_hash fr) tagged_cache_default) h n = Some x \<Longrightarrow>
      x = wd_ancestor W h n"
  using assms
  by (auto simp: caches_true_def accounts_true_def slots_true_def hashes_true_def unwrap_or_def
      simp del: split_paired_All dest!: usable_Some split: option.splits)

lemma ids_lookup:
  "ids_true W tip c \<Longrightarrow> map_of (rev (chain_ids c)) n = Some h \<Longrightarrow> wd_ancestor W tip n = h"
  by (auto simp: ids_true_def dest!: map_of_SomeD)

lemma ids_none: "map_of (rev (chain_ids c)) n = None \<Longrightarrow> n \<notin> fst ` set (chain_ids c)"
  by (simp add: map_of_eq_None_iff)

lemmas caches_fields = caches_from_tuple_def flush_all_caches_def

text \<open>A commit that starts from a coherent, fresh snapshot.\<close>

lemma new_info_cases:
  assumes "executes W p tip c"
  shows "wd_account W tip a =
    (case new_info (extract_execution_changes E ob c) a of
       Some i \<Rightarrow> ai_core i | None \<Rightarrow> wd_account W p a)"
proof -
  from assms have "case fmlookup (bs_state (cn_bundle c)) a of
      None \<Rightarrow> wd_account W tip a = wd_account W p a
    | Some ba \<Rightarrow> (\<exists>i. ba_info ba = Some i \<and> wd_account W tip a = ai_core i)"
    unfolding executes_def by blast
  then show ?thesis by (auto simp: new_info_def fm_simps split: option.splits)
qed

lemma new_slot_cases:
  assumes "executes W p tip c"
  shows "wd_slot W tip k =
    (case new_slot (extract_execution_changes E ob c) k of Some v \<Rightarrow> v | None \<Rightarrow> wd_slot W p k)"
proof -
  obtain a s where k: "k = (a, s)" by (cases k)
  from assms have "wd_slot W tip (a, s) =
      (case Option.bind (fmlookup (bs_state (cn_bundle c)) a) (\<lambda>ba. fmlookup (ba_storage ba) s) of
         None \<Rightarrow> wd_slot W p (a, s) | Some sl \<Rightarrow> sl_present_value sl)"
    unfolding executes_def by blast
  then show ?thesis by (auto simp: k new_slot_def fm_simps split: option.splits bind_splits)
qed

lemma commit_coherent:
  assumes "coherent W s" and "\<not> ss_stale s" and "caches_true W fr"
    and "executes W (ss_block_hash s) (sh_hash t) new"
  shows "coherent W (fst (build_commit_state s (caches_from_tuple (flush_all_caches fr))
    (extract_execution_changes E ob new) (extract_block_data new) (tip_of t)))"
    (is "coherent W ?s'")
proof -
  have held: "accounts_true W (ss_block_hash s) (ss_accounts s)"
    "slots_true W (ss_block_hash s) (ss_storage s)" "hashes_true W (ss_block_hash s) (ss_block_hashes s)"
    using assms(1,2) by (simp_all add: coherent_def)
  let ?ca = "caches_from_tuple (flush_all_caches fr)" and ?ch = "extract_execution_changes E ob new"
  have "accounts_true W (sh_hash t) (ss_accounts ?s')"
    unfolding accounts_true_def
  proof (intro allI impI)
    fix a i assume "fmlookup (ss_accounts ?s') a = Some i"
    then obtain w where w: "i = (case new_info ?ch a of Some j \<Rightarrow> j | None \<Rightarrow> w)"
      "usable (ca_accounts ?ca) (ss_block_hash s) a = Some w \<or> fmlookup (ss_accounts s) a = Some w"
      by (auto simp: fm_simps split: option.splits)
    with held(1) caches_usable(1) [OF assms(3)] have "ai_core w = wd_account W (ss_block_hash s) a"
      by (auto simp: accounts_true_def caches_fields)
    with w(1) show "ai_core i = wd_account W (sh_hash t) a"
      by (simp add: new_info_cases [OF assms(4), of a E ob] split: option.split)
  qed
  moreover have "slots_true W (sh_hash t) (ss_storage ?s')"
    unfolding slots_true_def
  proof (intro allI impI)
    fix k v assume "fmlookup (ss_storage ?s') k = Some v"
    then obtain w where w: "v = (case new_slot ?ch k of Some x \<Rightarrow> x | None \<Rightarrow> w)"
      "usable (ca_storage ?ca) (ss_block_hash s) k = Some w \<or> fmlookup (ss_storage s) k = Some w"
      by (auto simp: fm_simps simp del: split_paired_All split: option.splits)
    with held(2) caches_usable(2) [OF assms(3), of "ss_block_hash s" k w] have "w = wd_slot W (ss_block_hash s) k"
      unfolding slots_true_def caches_fields by (auto simp del: split_paired_All)
    with w(1) show "v = wd_slot W (sh_hash t) k"
      by (simp add: new_slot_cases [OF assms(4), of k E ob] split: option.split)
  qed
  moreover have "ids_true W (sh_hash t) new"
    and "\<forall>n. n \<notin> fst ` set (chain_ids new) \<longrightarrow> wd_ancestor W (sh_hash t) n = wd_ancestor W (ss_block_hash s) n"
    using assms(4) by (simp_all add: executes_def)
  then have "hashes_true W (sh_hash t) (ss_block_hashes ?s')"
    using held(3) caches_usable(3) [OF assms(3)] ids_lookup [of W "sh_hash t" new] ids_none [of new]
    by (auto simp: hashes_true_def fm_simps caches_fields extract_block_ids split: option.splits)
  ultimately show ?thesis by (simp add: coherent_def)
qed

text \<open>A commit that starts from nothing: no account, no slot, no usable cache.\<close>

definition holds_nothing :: "('c, 'w, 'l) state_snapshot \<Rightarrow> 'c flush_replies \<Rightarrow> bool" where
  "holds_nothing s fr \<longleftrightarrow>
    ss_accounts s = fmempty \<and> ss_storage s = fmempty \<and> ss_block_hashes s = fmempty
    \<and> (\<forall>a. usable (unwrap_or (fr_account fr) tagged_cache_default) (ss_block_hash s) a = None)
    \<and> (\<forall>a k. usable (unwrap_or (fr_storage fr) tagged_cache_default) (ss_block_hash s) (a, k) = None)
    \<and> (\<forall>n. usable (unwrap_or (fr_block_hash fr) tagged_cache_default) (ss_block_hash s) n = None)"

lemma commit_coherent_from_nothing:
  assumes "holds_nothing s fr" and "ids_true W (sh_hash t) new"
  shows "coherent W (fst (build_commit_state s (caches_from_tuple (flush_all_caches fr))
    (extract_execution_changes E ob new) (extract_block_data new) (tip_of t)))"
  using assms ids_lookup [OF assms(2)]
  by (auto simp: coherent_def accounts_true_def slots_true_def hashes_true_def holds_nothing_def
      fm_simps caches_fields extract_block_ids split: option.splits)

text \<open>
  A reorg only has to carry block hashes over: those at or below the common ancestor, which
  are the same on both branches.
\<close>

definition forks :: "world \<Rightarrow> b256 \<Rightarrow> u64 \<Rightarrow> b256 \<Rightarrow> ('c, 'w, 'l) chain \<Rightarrow> bool" where
  "forks W cur anc tip new \<longleftrightarrow> ids_true W tip new
    \<and> (\<forall>n. n \<le> anc \<and> n \<notin> fst ` set (chain_ids new) \<longrightarrow> wd_ancestor W tip n = wd_ancestor W cur n)"

lemma reorg_coherent:
  assumes "coherent W s" and "\<not> ss_stale s" and "forks W (ss_block_hash s) anc (sh_hash t) new"
  shows "coherent W (build_reorg_state s anc (extract_execution_changes E ob new)
    (extract_block_data new) (tip_of t))"
proof -
  have "hashes_true W (ss_block_hash s) (ss_block_hashes s)" and "ids_true W (sh_hash t) new"
    using assms by (simp_all add: coherent_def forks_def)
  then show ?thesis
    using assms(3) ids_lookup [of W "sh_hash t" new] ids_none [of new]
    by (auto simp: coherent_def hashes_true_def forks_def fm_simps extract_block_ids
        split: option.splits if_splits)
qed

section \<open>Well-behaved notifications\<close>

text \<open>
  What has to be true of a notification, and of the caches flushed for it, for the next
  snapshot to be the truth.  A commit on a stale snapshot is not well-behaved unless nothing
  is held: nothing then says that its bundle starts from the hash the snapshot stands on.
\<close>

fun well_behaved ::
  "world \<Rightarrow> ('c, 'w, 'l) notification \<times> 'c flush_replies \<Rightarrow> ('c, 'w, 'l) changeset_manager \<Rightarrow> bool" where
  "well_behaved W (ChainCommitted new, fr) cm =
    (case chain_tip_of new of
       None \<Rightarrow> False
     | Some t \<Rightarrow>
         (let s = st_inner (cm_state cm)
          in \<not> ss_stale s \<and> caches_true W fr \<and> executes W (ss_block_hash s) (sh_hash t) new
             \<or> holds_nothing s fr \<and> ids_true W (sh_hash t) new))"
| "well_behaved W (ChainReorged old new, fr) cm =
    (case (chain_first old, chain_tip_of new) of
       (Some f, Some t) \<Rightarrow>
         (let s = st_inner (cm_state cm)
          in \<not> ss_stale s
             \<and> forks W (ss_block_hash s) (saturating_pred (sh_number f)) (sh_hash t) new)
     | _ \<Rightarrow> False)"
| "well_behaved W (ChainReverted old, fr) cm = True"

lemma coherent_stale [simp]: "ss_stale s \<Longrightarrow> coherent W s"
  by (simp add: coherent_def)

lemma next_snapshot_coherent:
  assumes "next_snapshot E ob (n, fr) cm = Some s" and "well_behaved W (n, fr) cm"
    and "coherent W (st_inner (cm_state cm))"
  shows "coherent W s"
  using assms
  by (cases n)
    (auto simp: Let_def intro: commit_coherent commit_coherent_from_nothing reorg_coherent
      split: option.splits if_splits)

text \<open>Every notification of the run is well-behaved when it arrives.\<close>

fun run_well_behaved ::
  "world \<Rightarrow> 'c env \<Rightarrow> ('c \<Rightarrow> bytes) \<Rightarrow> (('c, 'w, 'l) notification \<times> 'c flush_replies) list
    \<Rightarrow> ('c, 'w, 'l) changeset_manager \<Rightarrow> bool" where
  "run_well_behaved W E ob [] cm = True"
| "run_well_behaved W E ob (x # xs) cm =
    (well_behaved W x cm \<and>
     (case handle_notification E ob x cm of
        None \<Rightarrow> True | Some cm' \<Rightarrow> run_well_behaved W E ob xs cm'))"

lemma run_coherent:
  "run_changeset_manager E ob ns cm = Some cm' \<Longrightarrow> run_well_behaved W E ob ns cm \<Longrightarrow>
    coherent W (st_inner (cm_state cm)) \<Longrightarrow> coherent W (st_inner (cm_state cm'))"
proof (induction ns arbitrary: cm)
  case Nil
  then show ?case by (simp add: run_def)
next
  case (Cons x ns)
  obtain n fr where x: "x = (n, fr)" by (cases x)
  from Cons.prems(1) obtain cm1 where 1: "handle_notification E ob (n, fr) cm = Some cm1"
    and 2: "run_changeset_manager E ob ns cm1 = Some cm'"
    by (auto simp: run_def x split: option.splits)
  with Cons.prems(2) have w: "well_behaved W (n, fr) cm" "run_well_behaved W E ob ns cm1"
    by (auto simp: x)
  from 1 have "coherent W (st_inner (cm_state cm1))"
    by (rule handle_next) (simp add: next_snapshot_coherent [OF _ w(1) Cons.prems(3)])
  with Cons.IH [OF 2 w(2)] show ?case .
qed

section \<open>What the managers contribute\<close>

text \<open>
  The node answers a block number with the state of the block the simulator has in mind:
  \<open>H\<close> is the set of hashes the simulator has stood on, one per number on the node's chain.
\<close>

definition truthful :: "world \<Rightarrow> b256 set \<Rightarrow> 'c env \<Rightarrow> 'e node \<Rightarrow> bool" where
  "truthful W H E nd \<longleftrightarrow> (\<forall>h \<in> H.
    (\<forall>a i. Inr (Some i) \<in> set (get_account E nd a (wd_number W h)) \<longrightarrow> ai_core i = wd_account W h a)
    \<and> (\<forall>a k v. get_storage nd a k (wd_number W h) = Inr v \<longrightarrow> v = wd_slot W h (a, k))
    \<and> (\<forall>n x. n \<le> wd_number W h \<and> get_block_hash nd n = Inr x \<longrightarrow> x = wd_ancestor W h n))"

definition asked_of :: "world \<Rightarrow> b256 set \<Rightarrow> (b256 \<times> u64) list \<Rightarrow> bool" where
  "asked_of W H rs \<longleftrightarrow> (\<forall>(h, n) \<in> set rs. h \<in> H \<and> n = wd_number W h)"

lemma asked_ofD:
  "asked_of W H (map (\<lambda>(_, req). (f req, g req)) acc) \<Longrightarrow> (t, req) \<in> set acc \<Longrightarrow>
    f req \<in> H \<and> g req = wd_number W (f req)"
  by (fastforce simp: asked_of_def)

text \<open>Requests for a block's hash ask about the block itself or an ancestor.\<close>

definition asked_ancestors :: "world \<Rightarrow> b256 set \<Rightarrow> (nat \<times> block_hash_request) list \<Rightarrow> bool" where
  "asked_ancestors W H acc \<longleftrightarrow>
    (\<forall>(_, req) \<in> set acc. br_at_block_hash req \<in> H \<and> br_number req \<le> wd_number W (br_at_block_hash req))"

abbreviation account_asks :: "(nat \<times> account_request) list \<Rightarrow> (b256 \<times> u64) list" where
  "account_asks acc \<equiv> map (\<lambda>(_, req). (ar_block_hash req, ar_block req)) acc"

abbreviation storage_asks :: "(nat \<times> storage_request) list \<Rightarrow> (b256 \<times> u64) list" where
  "storage_asks acc \<equiv> map (\<lambda>(_, req). (sr_block_hash req, sr_block req)) acc"

lemma truthful_account:
  assumes "truthful W H E nd" and "asked_of W H (account_asks acc)" and "(t, req) \<in> set acc"
    and "Inr (Some i) \<in> set (get_account E nd a (ar_block req))"
  shows "ai_core i = wd_account W (ar_block_hash req) a"
  using assms(1,4) asked_ofD [OF assms(2,3)] by (auto simp: truthful_def)

lemma truthful_storage:
  assumes "truthful W H E nd" and "asked_of W H (storage_asks acc)" and "(t, req) \<in> set acc"
    and "get_storage nd a k (sr_block req) = Inr v"
  shows "v = wd_slot W (sr_block_hash req) (a, k)"
  using assms(1,4) asked_ofD [OF assms(2,3)] by (auto simp: truthful_def)

lemma truthful_block_hash:
  assumes "truthful W H E nd" and "asked_ancestors W H acc" and "(t, req) \<in> set acc"
    and "get_block_hash nd (br_number req) = Inr x"
  shows "x = wd_ancestor W (br_at_block_hash req) (br_number req)"
  using assms by (fastforce simp: truthful_def asked_ancestors_def)

lemma flushed_accounts_true:
  assumes "mreach account_spec (account_answers E views) ctx fetch n s" and "n < 2 ^ 64"
    and "\<forall>nd \<in> views. truthful W H E nd" and "asked_of W H (account_asks (sy_accepted s))"
    and "c \<in> set (sy_flushed s)"
  shows "accounts_true W (tc_block_hash c) (tc_data c)"
  unfolding accounts_true_def
proof (intro allI impI)
  fix a i assume "fmlookup (tc_data c) a = Some i"
  from account_flushed_entry [OF assms(1,2,5) this] obtain t req nd where
    "(t, req) \<in> set (sy_accepted s)" "ar_block_hash req = tc_block_hash c" "nd \<in> views"
    "Inr (Some i) \<in> set (get_account E nd a (ar_block req))" by blast
  with truthful_account [OF _ assms(4)] assms(3) show "ai_core i = wd_account W (tc_block_hash c) a"
    by metis
qed

lemma flushed_slots_true:
  assumes "mreach storage_spec (storage_answers views) ctx fetch n s" and "n < 2 ^ 64"
    and "\<forall>nd \<in> views. truthful W H E nd" and "asked_of W H (storage_asks (sy_accepted s))"
    and "c \<in> set (sy_flushed s)"
  shows "slots_true W (tc_block_hash c) (tc_data c)"
proof -
  have "v = wd_slot W (tc_block_hash c) (a, k)" if "fmlookup (tc_data c) (a, k) = Some v" for a k v
  proof -
    from storage_flushed_entry [OF assms(1,2,5) that] obtain t req nd where
      "(t, req) \<in> set (sy_accepted s)" "sr_block_hash req = tc_block_hash c" "nd \<in> views"
      "get_storage nd a k (sr_block req) = Inr v" by blast
    with truthful_storage [OF _ assms(4)] assms(3) show ?thesis by metis
  qed
  then show ?thesis by (auto simp: slots_true_def)
qed

lemma flushed_hashes_true:
  assumes "mreach block_hash_spec (block_hash_answers views) ctx fetch n s" and "n < 2 ^ 64"
    and "\<forall>nd \<in> views. truthful W H E nd" and "asked_ancestors W H (sy_accepted s)"
    and "c \<in> set (sy_flushed s)"
  shows "hashes_true W (tc_block_hash c) (tc_data c)"
  unfolding hashes_true_def
proof (intro allI impI)
  fix k x assume "fmlookup (tc_data c) k = Some x"
  from block_hash_flushed_entry [OF assms(1,2,5) this] obtain t req nd where
    "(t, req) \<in> set (sy_accepted s)" "br_number req = k" "br_at_block_hash req = tc_block_hash c"
    "nd \<in> views" "get_block_hash nd k = Inr x" by blast
  with truthful_block_hash [OF _ assms(4)] assms(3) show "x = wd_ancestor W (tc_block_hash c) k"
    by metis
qed

text \<open>A reply belongs to the one accepted request with its ticket.\<close>

lemma own_request:
  assumes "mreach S answers ctx fetch n s" and "n < 2 ^ 64"
    and "(t, req) \<in> set (sy_accepted s)" and "(t, req') \<in> set (sy_accepted s)"
  shows "req' = req"
proof -
  have "distinct (map fst (sy_accepted s))"
    using counts_reach [OF assms(1,2)] by (simp add: counts_ok_def)
  with assms(3,4) show ?thesis by (metis eq_key_imp_eq_value)
qed

lemma account_reply_true:
  assumes "mreach account_spec (account_answers E views) ctx fetch n s" and "n < 2 ^ 64"
    and "\<forall>nd \<in> views. truthful W H E nd" and "asked_of W H (account_asks (sy_accepted s))"
    and "(t, req) \<in> set (sy_accepted s)" and "(t, Inr (Some i)) \<in> set (sy_replies s)"
  shows "ai_core i = wd_account W (ar_block_hash req) (ar_address req)"
proof -
  from acct.reply_vouched [OF assms(1,2,6)] obtain req1 where 1: "(t, req1) \<in> set (sy_accepted s)"
    "vouched account_spec (account_answers E views) (sy_accepted s) (Some (ar_block_hash req1))
      (ar_address req1) (Some i)"
    by (auto simp: account_spec_def)
  from own_request [OF assms(1,2,5) 1(1)] have "req1 = req" .
  with account_vouched [OF 1(2)] truthful_account [OF _ assms(4)] assms(3) show ?thesis by metis
qed

lemma storage_reply_true:
  assumes "mreach storage_spec (storage_answers views) ctx fetch n s" and "n < 2 ^ 64"
    and "\<forall>nd \<in> views. truthful W H E nd" and "asked_of W H (storage_asks (sy_accepted s))"
    and "(t, req) \<in> set (sy_accepted s)" and "(t, Inr v) \<in> set (sy_replies s)"
  shows "v = wd_slot W (sr_block_hash req) (sr_address req, sr_index req)"
proof -
  from stor.reply_vouched [OF assms(1,2,6)] obtain req1 where 1: "(t, req1) \<in> set (sy_accepted s)"
    "vouched storage_spec (storage_answers views) (sy_accepted s) (Some (sr_block_hash req1))
      (sr_address req1, sr_index req1) v"
    by (auto simp: storage_spec_def)
  from own_request [OF assms(1,2,5) 1(1)] have "req1 = req" .
  with storage_vouched [OF 1(2)] truthful_storage [OF _ assms(4)] assms(3) show ?thesis by metis
qed

lemma block_hash_reply_true:
  assumes "mreach block_hash_spec (block_hash_answers views) ctx fetch n s" and "n < 2 ^ 64"
    and "\<forall>nd \<in> views. truthful W H E nd" and "asked_ancestors W H (sy_accepted s)"
    and "(t, req) \<in> set (sy_accepted s)" and "(t, Inr x) \<in> set (sy_replies s)"
  shows "x = wd_ancestor W (br_at_block_hash req) (br_number req)"
proof -
  from bhash.reply_vouched [OF assms(1,2,6)] obtain req1 where 1: "(t, req1) \<in> set (sy_accepted s)"
    "vouched block_hash_spec (block_hash_answers views) (sy_accepted s) (Some (br_at_block_hash req1))
      (br_number req1) x"
    by (auto simp: block_hash_spec_def)
  from own_request [OF assms(1,2,5) 1(1)] have "req1 = req" .
  with block_hash_vouched [OF 1(2)] truthful_block_hash [OF _ assms(4)] assms(3) show ?thesis by metis
qed

lemma code_reply_true:
  assumes "mreach code_spec (code_answers E views) ctx fetch n s" and "n < 2 ^ 64"
    and "(t, req) \<in> set (sy_accepted s)" and "(t, Inr c) \<in> set (sy_replies s)"
  shows "\<exists>bs. code_hash_of E bs = cr_code_hash req \<and> c = en_new_raw E bs"
proof -
  from code.reply_vouched [OF assms(1,2,4)] obtain req1 where 1: "(t, req1) \<in> set (sy_accepted s)"
    "vouched code_spec (code_answers E views) (sy_accepted s) None (cr_code_hash req1) c"
    by (auto simp: code_spec_def)
  from own_request [OF assms(1,2,3) 1(1)] code_vouched [OF 1(2)] show ?thesis by simp
qed

section \<open>Code\<close>

text \<open>Every bytecode held is the analysed form of code with the hash it is held under.\<close>

definition code_true :: "'c env \<Rightarrow> (b256, 'c) fmap \<Rightarrow> bool" where
  "code_true E m \<longleftrightarrow>
    (\<forall>h c. fmlookup m h = Some c \<longrightarrow> (\<exists>bs. code_hash_of E bs = h \<and> c = en_new_raw E bs))"

definition bundles_sound :: "'c env \<Rightarrow> ('c \<Rightarrow> bytes) \<Rightarrow> ('c, 'w, 'l) notification \<Rightarrow> bool" where
  "bundles_sound E ob n \<longleftrightarrow>
    (\<forall>ch \<in> set (chains_of n). \<forall>h c. fmlookup (bs_contracts (cn_bundle ch)) h = Some c \<longrightarrow>
       code_hash_of E (ob c) = h)"

fun code_well_behaved ::
  "'c env \<Rightarrow> ('c \<Rightarrow> bytes) \<Rightarrow> ('c, 'w, 'l) notification \<times> 'c flush_replies \<Rightarrow> bool" where
  "code_well_behaved E ob (n, fr) \<longleftrightarrow>
    bundles_sound E ob n \<and> (\<forall>cc. fr_code fr = Some cc \<longrightarrow> code_true E (cc_data cc))"

lemma flushed_code_true:
  assumes "mreach code_spec (code_answers E views) ctx fetch n s" and "n < 2 ^ 64"
    and "c \<in> set (sy_flushed s)"
  shows "code_true E (cc_data c)"
  using code_flushed_entry [OF assms] by (simp add: code_true_def)

lemma next_snapshot_code:
  assumes "next_snapshot E ob (n, fr) cm = Some s" and "code_well_behaved E ob (n, fr)"
    and "code_true E (ss_code (st_inner (cm_state cm)))"
  shows "code_true E (ss_code s)"
proof -
  have cache: "code_true E (cc_data (unwrap_or (fr_code fr) code_cache_default))"
    using assms(2) by (auto simp: unwrap_or_def code_cache_default_def code_true_def split: option.split)
  have new: "code_true E (ec_contracts (extract_execution_changes E ob ch))"
    if "ch \<in> set (chains_of n)" for ch
    using assms(2) that by (fastforce simp: code_true_def bundles_sound_def fm_simps)
  show ?thesis
  proof (cases n)
    case (ChainCommitted ch)
    with assms(1,3) cache new [of ch] show ?thesis
      by (fastforce simp: code_true_def fm_simps caches_fields split: option.splits if_splits)
  next
    case (ChainReorged old ch)
    with assms(1,3) new [of ch] show ?thesis
      by (fastforce simp: code_true_def fm_simps split: option.splits if_splits)
  next
    case (ChainReverted old)
    with assms(1,3) show ?thesis by (auto split: option.splits)
  qed
qed

section \<open>A sample world, for the witnesses\<close>

definition demo_world :: world where
  "demo_world = \<lparr>wd_account = (\<lambda>_ _. (10, 1, 2)), wd_slot = (\<lambda>_ _. 42),
     wd_ancestor = (\<lambda>_ n. if n = 101 then 8 else 7), wd_number = (\<lambda>_. 100)\<rparr>"

definition demo_tip :: "('c, nat, nat) state_snapshot" where
  "demo_tip = snapshot_default\<lparr>ss_block := 100, ss_block_hash := 7\<rparr>"

lemma demo_number [simp]: "wd_number demo_world h = 100"
  by (simp add: demo_world_def)

lemma demo_truthful: "\<forall>nd \<in> {demo_node}. truthful demo_world {7} demo_env nd"
  by (auto simp: truthful_def demo_world_def demo_defs get_account_def get_storage_def
      get_block_hash_def ai_core_def code_hash_of_def word_le_nat_alt)

lemma demo_coherent: "coherent demo_world demo_tip"
  by (simp add: coherent_def demo_tip_def)

lemma demo_executes:
  "executes demo_world 7 8 (demo_chain [(101, 8, 7)] :: (bytes, nat, nat) chain)"
  by (auto simp: executes_def demo_world_def demo_chain_def demo_header_def ids_true_def chain_ids_def)

section \<open>Properties\<close>

text \<open>
  A commit installs the truth, end to end: if the snapshot was fresh and coherent, the
  caches that were flushed come out of managers that a truthful node served (in any
  interleaving of requests, completions and flushes), and the chain's bundle describes the
  step from the snapshot's hash, then every account, slot and block hash of the next snapshot
  is the world's at the new tip.
\<close>

theorem commit_installs_truth:
  assumes "handle_notification E ob (ChainCommitted new, fr) cm = Some cm'"
    and "mreach account_spec (account_answers E views) ctx fetch n sa" and "n < 2 ^ 64"
    and "mreach storage_spec (storage_answers views) ctx' fetch m ss" and "m < 2 ^ 64"
    and "mreach block_hash_spec (block_hash_answers views) ctx'' fetch k sb" and "k < 2 ^ 64"
    and "\<forall>nd \<in> views. truthful W H E nd"
    and "asked_of W H (account_asks (sy_accepted sa))" and "asked_of W H (storage_asks (sy_accepted ss))"
    and "asked_ancestors W H (sy_accepted sb)"
    and "set_option (fr_account fr) \<subseteq> set (sy_flushed sa)"
    and "set_option (fr_storage fr) \<subseteq> set (sy_flushed ss)"
    and "set_option (fr_block_hash fr) \<subseteq> set (sy_flushed sb)"
    and "coherent W (st_inner (cm_state cm))" and "\<not> cs_stale (view cm)"
    and "chain_tip_of new = Some t" and "executes W (cs_block_hash (view cm)) (sh_hash t) new"
  shows "coherent W (st_inner (cm_state cm'))"
proof -
  have "caches_true W fr"
    using flushed_accounts_true [OF assms(2,3,8,9)] flushed_slots_true [OF assms(4,5,8,10)]
      flushed_hashes_true [OF assms(6,7,8,11)] assms(12-14)
    by (auto simp: caches_true_def)
  with assms(16-18) have w: "well_behaved W (ChainCommitted new, fr) cm"
    by (simp add: view_def Let_def)
  from assms(1) show ?thesis
    by (rule handle_next) (simp add: next_snapshot_coherent [OF _ w assms(15)])
qed

theorem commit_installs_truth_witness:
  "\<exists>fr cm'. handle_notification demo_env (\<lambda>bs. bs) (ChainCommitted (demo_chain [(101, 8, 7)]), fr)
      (demo_cm demo_tip) = Some cm'
    \<and> (\<exists>ac. fr_account fr = Some ac \<and> fmlookup (tc_data ac) 1 = Some demo_info)
    \<and> (\<exists>bc. fr_block_hash fr = Some bc \<and> fmlookup (tc_data bc) 99 = Some 7)
    \<and> coherent demo_world (st_inner (cm_state cm'))"
proof -
  let ?new = "demo_chain [(101, 8, 7)] :: (bytes, nat, nat) chain"
  obtain sa ac where a:
    "mreach account_spec (account_answers demo_env {demo_node}) [] fetch_config_default 12 sa"
    "sy_accepted sa = [(0, demo_req), (1, demo_req)]" "ac \<in> set (sy_flushed sa)"
    "fmlookup (tc_data ac) 1 = Some demo_info"
    using demo_account_run by auto
  obtain ss sc where b:
    "mreach storage_spec (storage_answers {demo_node}) () fetch_config_default 9 ss"
    "asked_of demo_world {7} (storage_asks (sy_accepted ss))" "sc \<in> set (sy_flushed ss)"
    using demo_storage_run by (auto simp: asked_of_def demo_sreq_def)
  obtain sb bc where c:
    "mreach block_hash_spec (block_hash_answers {demo_node}) () fetch_config_default 9 sb"
    "asked_ancestors demo_world {7} (sy_accepted sb)" "bc \<in> set (sy_flushed sb)"
    "fmlookup (tc_data bc) 99 = Some 7"
    using demo_block_hash_run by (auto simp: asked_ancestors_def demo_breq_def)
  define fr where "fr = \<lparr>fr_account = Some ac, fr_code = None, fr_storage = Some sc, fr_block_hash = Some bc\<rparr>"
  obtain cm' where h: "handle_notification demo_env (\<lambda>bs. bs) (ChainCommitted ?new, fr) (demo_cm demo_tip)
      = Some cm'"
    using handle_None [of demo_env "\<lambda>bs. bs" "ChainCommitted ?new" fr "demo_cm demo_tip"]
    by (auto simp: demo_chain_def)
  have "coherent demo_world (st_inner (cm_state cm'))"
    by (rule commit_installs_truth [OF h a(1) _ b(1) _ c(1) _ demo_truthful _ b(2) c(2),
          where t = "demo_header 101 8 7"])
      (use demo_executes in \<open>simp_all add: fr_def a(2,3) b(3) c(3) asked_of_def demo_req_def
         demo_cm_def static_state_new_def demo_coherent [unfolded demo_tip_def] view_def demo_tip_def
         chain_tip_of_def demo_chain_def demo_header_def\<close>)
  with h a(4) c(4) show ?thesis
    by (intro exI [of _ fr] exI [of _ cm']) (simp add: fr_def)
qed

text \<open>
  Coherence is an invariant of the changeset manager over any run of well-behaved
  notifications, commits, reorgs and reverts in any order.
\<close>

theorem run_keeps_coherent:
  assumes "run_changeset_manager E ob ns cm = Some cm'" and "run_well_behaved W E ob ns cm"
    and "coherent W (st_inner (cm_state cm))"
  shows "coherent W (st_inner (cm_state cm'))"
  using assms by (rule run_coherent)

theorem run_keeps_coherent_witness:
  "\<exists>cm'. run_changeset_manager demo_env (\<lambda>bs. bs)
      [(ChainCommitted (demo_chain [(101, 8, 7)]), no_caches),
       (ChainReverted (demo_chain [(101, 8, 7)]), no_caches)] (demo_cm demo_tip) = Some cm'
    \<and> coherent demo_world (st_inner (cm_state cm'))"
proof -
  let ?c = "demo_chain [(101, 8, 7)] :: (bytes, nat, nat) chain"
  let ?ns = "[(ChainCommitted ?c, no_caches), (ChainReverted ?c, no_caches)]"
  obtain cm' where r: "run_changeset_manager demo_env (\<lambda>bs. bs) ?ns (demo_cm demo_tip) = Some cm'"
    using run_None [of demo_env "\<lambda>bs. bs" ?ns "demo_cm demo_tip"] by (auto simp: demo_chain_def)
  have "chain_tip_of ?c = Some (demo_header 101 8 7)"
    by (simp add: chain_tip_of_def demo_chain_def)
  then have "run_well_behaved demo_world demo_env (\<lambda>bs. bs) ?ns (demo_cm demo_tip)"
    using demo_executes
    by (auto simp: caches_true_def no_caches_def demo_cm_def static_state_new_def demo_tip_def
        demo_header_def split: option.split)
  from run_keeps_coherent [OF r this] r show ?thesis
    by (auto simp: demo_cm_def static_state_new_def demo_coherent)
qed

text \<open>
  A simulation reads the truth: on a coherent snapshot, with replies that are replies of
  an account manager served by a truthful node, an account read that succeeds returns the
  world's account at the snapshot's block hash, from the snapshot or from the node.
\<close>

theorem account_read_true:
  assumes "coherent W (st_inner st)"
    and "mreach account_spec (account_answers E views) ctx fetch n s" and "n < 2 ^ 64"
    and "\<forall>nd \<in> views. truthful W H E nd" and "asked_of W H (account_asks (sy_accepted s))"
    and "\<And>req x. reply req = Received x \<Longrightarrow>
      \<exists>t. (t, req) \<in> set (sy_accepted s) \<and> (t, x) \<in> set (sy_replies s)"
    and "snd (basic_ref reply a st) = Inr (Some i)"
  shows "ai_core i = wd_account W (st_block_hash st) a"
proof (cases "fmlookup (ss_accounts (st_inner st)) a")
  case (Some j)
  with assms(1,7) show ?thesis
    by (auto simp: basic_ref_def Let_def coherent_def accounts_true_def st_block_hash_def
        split: if_splits)
next
  case None
  let ?req = "\<lparr>ar_address = a, ar_block = st_block st, ar_block_hash = st_block_hash st\<rparr>"
  from None assms(7) have "await_fetch (reply ?req) FkAccount (fc_wait_timeout_ms (st_fetch st)) = Inr (Some i)"
    by (auto simp: basic_ref_def Let_def st_accessors split: if_splits option.splits)
  then have "reply ?req = Received (Inr (Some i))" by (cases "reply ?req") auto
  from assms(6) [OF this] obtain t where
    "(t, ?req) \<in> set (sy_accepted s)" "(t, Inr (Some i)) \<in> set (sy_replies s)" by blast
  from account_reply_true [OF assms(2-5) this] show ?thesis by simp
qed

theorem account_read_true_witness:
  "let st = static_state_new (demo_tip :: (bytes, nat, nat) state_snapshot) demo_channels fetch_config_default;
       reply = (\<lambda>req. if req = demo_req then Received (Inr (Some demo_info)) else RecvTimeout)
          :: account_request \<Rightarrow> (nat, bytes account_info option) recv_outcome
   in snd (basic_ref reply 1 st) = Inr (Some demo_info)
      \<and> ai_core demo_info = wd_account demo_world (st_block_hash st) 1"
proof -
  let ?st = "static_state_new (demo_tip :: (bytes, nat, nat) state_snapshot) demo_channels fetch_config_default"
  let ?reply = "(\<lambda>req. if req = demo_req then Received (Inr (Some demo_info)) else RecvTimeout)
    :: account_request \<Rightarrow> (nat, bytes account_info option) recv_outcome"
  obtain s where s:
    "mreach account_spec (account_answers demo_env {demo_node}) [] fetch_config_default 12 s"
    "sy_accepted s = [(0, demo_req), (1, demo_req)]"
    "sy_replies s = [(0, Inr (Some demo_info)), (1, Inr (Some demo_info))]"
    using demo_account_run by blast
  have r: "snd (basic_ref ?reply 1 ?st) = Inr (Some demo_info)"
    by (simp add: basic_ref_def static_state_new_def demo_tip_def demo_channels_def chan_send_def
        demo_req_def)
  have "ai_core demo_info = wd_account demo_world (st_block_hash ?st) 1"
    by (rule account_read_true [OF _ s(1) _ demo_truthful _ _ r])
      (auto simp: s(2,3) static_state_new_def demo_coherent asked_of_def demo_req_def
        split: if_splits)
  with r show ?thesis by (simp add: Let_def)
qed

text \<open>
  The same for storage reads.
\<close>

theorem storage_read_true:
  assumes "coherent W (st_inner st)"
    and "mreach storage_spec (storage_answers views) ctx fetch n s" and "n < 2 ^ 64"
    and "\<forall>nd \<in> views. truthful W H E nd" and "asked_of W H (storage_asks (sy_accepted s))"
    and "\<And>req x. reply req = Received x \<Longrightarrow>
      \<exists>t. (t, req) \<in> set (sy_accepted s) \<and> (t, x) \<in> set (sy_replies s)"
    and "snd (storage_ref reply a k st) = Inr v"
  shows "v = wd_slot W (st_block_hash st) (a, k)"
proof (cases "fmlookup (ss_storage (st_inner st)) (a, k)")
  case (Some j)
  with assms(1,7) show ?thesis
    by (auto simp: storage_ref_def Let_def coherent_def slots_true_def st_block_hash_def
        split: if_splits)
next
  case None
  let ?req = "\<lparr>sr_address = a, sr_index = k, sr_block = st_block st, sr_block_hash = st_block_hash st\<rparr>"
  from None assms(7) have "await_fetch (reply ?req) FkStorage (fc_wait_timeout_ms (st_fetch st)) = Inr v"
    by (auto simp: storage_ref_def Let_def st_accessors split: if_splits option.splits)
  then have "reply ?req = Received (Inr v)" by (cases "reply ?req") auto
  from assms(6) [OF this] obtain t where
    "(t, ?req) \<in> set (sy_accepted s)" "(t, Inr v) \<in> set (sy_replies s)" by blast
  from storage_reply_true [OF assms(2-5) this] show ?thesis by simp
qed

theorem storage_read_true_witness:
  "let st = static_state_new (demo_tip :: (bytes, nat, nat) state_snapshot) demo_channels fetch_config_default;
       reply = (\<lambda>req. if req = demo_sreq then Received (Inr 42) else RecvTimeout)
          :: storage_request \<Rightarrow> (nat, u256) recv_outcome
   in snd (storage_ref reply 1 3 st) = Inr 42 \<and> 42 = wd_slot demo_world (st_block_hash st) (1, 3)"
proof -
  let ?st = "static_state_new (demo_tip :: (bytes, nat, nat) state_snapshot) demo_channels fetch_config_default"
  let ?reply = "(\<lambda>req. if req = demo_sreq then Received (Inr 42) else RecvTimeout)
    :: storage_request \<Rightarrow> (nat, u256) recv_outcome"
  obtain s where s:
    "mreach storage_spec (storage_answers {demo_node}) () fetch_config_default 9 s"
    "sy_accepted s = [(0, demo_sreq)]" "sy_replies s = [(0, Inr 42)]"
    using demo_storage_run by blast
  have r: "snd (storage_ref ?reply 1 3 ?st) = Inr 42"
    by (simp add: storage_ref_def static_state_new_def demo_tip_def demo_channels_def chan_send_def
        demo_sreq_def)
  have "42 = wd_slot demo_world (st_block_hash ?st) (1, 3)"
    by (rule storage_read_true [OF _ s(1) _ demo_truthful _ _ r])
      (auto simp: s(2,3) static_state_new_def demo_coherent asked_of_def demo_sreq_def
        split: if_splits)
  with r show ?thesis by (simp add: Let_def)
qed

text \<open>
  The same for block hashes: whatever the snapshot or the block-hash manager answers for
  a number is the world's ancestor of the snapshot's block at that number.
\<close>

theorem block_hash_read_true:
  assumes "coherent W (st_inner st)"
    and "mreach block_hash_spec (block_hash_answers views) ctx fetch n s" and "n < 2 ^ 64"
    and "\<forall>nd \<in> views. truthful W H E nd" and "asked_ancestors W H (sy_accepted s)"
    and "\<And>req x. reply req = Received x \<Longrightarrow>
      \<exists>t. (t, req) \<in> set (sy_accepted s) \<and> (t, x) \<in> set (sy_replies s)"
    and "snd (block_hash_ref reply num st) = Inr v"
  shows "v = wd_ancestor W (st_block_hash st) num"
proof (cases "fmlookup (ss_block_hashes (st_inner st)) num")
  case (Some j)
  with assms(1,7) show ?thesis
    by (auto simp: block_hash_ref_def Let_def coherent_def hashes_true_def st_block_hash_def
        split: if_splits)
next
  case None
  let ?req = "\<lparr>br_number = num, br_at_block_hash = st_block_hash st\<rparr>"
  from None assms(7) have "await_fetch (reply ?req) FkBlockHash (fc_wait_timeout_ms (st_fetch st)) = Inr v"
    by (auto simp: block_hash_ref_def Let_def st_accessors split: if_splits option.splits)
  then have "reply ?req = Received (Inr v)" by (cases "reply ?req") auto
  from assms(6) [OF this] obtain t where
    "(t, ?req) \<in> set (sy_accepted s)" "(t, Inr v) \<in> set (sy_replies s)" by blast
  from block_hash_reply_true [OF assms(2-5) this] show ?thesis by simp
qed

theorem block_hash_read_true_witness:
  "let st = static_state_new (demo_tip :: (bytes, nat, nat) state_snapshot) demo_channels fetch_config_default;
       reply = (\<lambda>req. if req = demo_breq then Received (Inr 7) else RecvTimeout)
          :: block_hash_request \<Rightarrow> (nat, b256) recv_outcome
   in snd (block_hash_ref reply 99 st) = Inr 7 \<and> 7 = wd_ancestor demo_world (st_block_hash st) 99"
proof -
  let ?st = "static_state_new (demo_tip :: (bytes, nat, nat) state_snapshot) demo_channels fetch_config_default"
  let ?reply = "(\<lambda>req. if req = demo_breq then Received (Inr 7) else RecvTimeout)
    :: block_hash_request \<Rightarrow> (nat, b256) recv_outcome"
  obtain s where s:
    "mreach block_hash_spec (block_hash_answers {demo_node}) () fetch_config_default 9 s"
    "sy_accepted s = [(0, demo_breq)]" "sy_replies s = [(0, Inr 7)]"
    using demo_block_hash_run by blast
  have r: "snd (block_hash_ref ?reply 99 ?st) = Inr 7"
    by (simp add: block_hash_ref_def static_state_new_def demo_tip_def demo_channels_def chan_send_def
        demo_breq_def)
  have "7 = wd_ancestor demo_world (st_block_hash ?st) 99"
    by (rule block_hash_read_true [OF _ s(1) _ demo_truthful _ _ r])
      (auto simp: s(2,3) static_state_new_def demo_coherent asked_ancestors_def demo_breq_def
        split: if_splits)
  with r show ?thesis by (simp add: Let_def)
qed

text \<open>
  A simulation never runs the wrong code: bytecode read by hash is the analysed form of
  bytes with exactly that hash, whether the snapshot held it or the code manager fetched it,
  and whatever the hints and the node said.
\<close>

theorem code_read_true:
  assumes "code_true E (ss_code (st_inner st))"
    and "mreach code_spec (code_answers E views) ctx fetch n s" and "n < 2 ^ 64"
    and "\<And>req x. reply req = Received x \<Longrightarrow>
      \<exists>t. (t, req) \<in> set (sy_accepted s) \<and> (t, x) \<in> set (sy_replies s)"
    and "snd (code_by_hash_ref reply h st) = Inr c"
  shows "\<exists>bs. code_hash_of E bs = h \<and> c = en_new_raw E bs"
proof (cases "fmlookup (ss_code (st_inner st)) h")
  case (Some j)
  with assms(1,5) show ?thesis
    by (auto simp: code_by_hash_ref_def Let_def code_true_def split: if_splits)
next
  case None
  let ?req = "\<lparr>cr_code_hash = h, cr_block = st_block st, cr_address_hint = None\<rparr>"
  from None assms(5) have "await_fetch (reply ?req) FkCode (fc_wait_timeout_ms (st_fetch st)) = Inr c"
    by (auto simp: code_by_hash_ref_def Let_def st_accessors split: if_splits option.splits)
  then have "reply ?req = Received (Inr c)" by (cases "reply ?req") auto
  from assms(4) [OF this] obtain t where
    "(t, ?req) \<in> set (sy_accepted s)" "(t, Inr c) \<in> set (sy_replies s)" by blast
  from code_reply_true [OF assms(2,3) this] show ?thesis by simp
qed

theorem code_read_true_witness:
  "let st = static_state_new (demo_tip :: (bytes, nat, nat) state_snapshot) demo_channels fetch_config_default;
       reply = (\<lambda>req. if req = \<lparr>cr_code_hash = 2, cr_block = 100, cr_address_hint = None\<rparr>
                      then Received (Inr [0x60, 0x00]) else RecvTimeout)
          :: code_request \<Rightarrow> (nat, bytes) recv_outcome
   in snd (code_by_hash_ref reply 2 st) = Inr [0x60, 0x00]
      \<and> (\<exists>bs. code_hash_of demo_env bs = 2 \<and> [0x60, 0x00] = en_new_raw demo_env bs)"
proof -
  let ?st = "static_state_new (demo_tip :: (bytes, nat, nat) state_snapshot) demo_channels fetch_config_default"
  let ?req = "\<lparr>cr_code_hash = 2, cr_block = 100, cr_address_hint = None\<rparr> :: code_request"
  let ?reply = "(\<lambda>req. if req = ?req then Received (Inr [0x60, 0x00]) else RecvTimeout)
    :: code_request \<Rightarrow> (nat, bytes) recv_outcome"
  obtain s where s:
    "mreach code_spec (code_answers demo_env {demo_node}) fmempty fetch_config_default 7 s"
    "sy_accepted s = [(0, ?req)]" "sy_replies s = [(0, Inr [0x60, 0x00])]"
    using demo_code_run by blast
  have r: "snd (code_by_hash_ref ?reply 2 ?st) = Inr [0x60, 0x00]"
    by (simp add: code_by_hash_ref_def static_state_new_def demo_tip_def demo_channels_def chan_send_def)
  have "\<exists>bs. code_hash_of demo_env bs = 2 \<and> [0x60, 0x00] = en_new_raw demo_env bs"
    by (rule code_read_true [OF _ s(1) _ _ r])
      (auto simp: s(2,3) static_state_new_def demo_tip_def code_true_def split: if_splits)
  with r show ?thesis by (simp add: Let_def)
qed

lemma run_code_true:
  assumes "run_changeset_manager E ob ns cm = Some cm'"
    and "\<forall>x \<in> set ns. code_well_behaved E ob x"
    and "code_true E (ss_code (st_inner (cm_state cm)))"
  shows "code_true E (ss_code (st_inner (cm_state cm')))"
  using assms
proof (induction ns arbitrary: cm)
  case Nil
  then show ?case by (simp add: run_def)
next
  case (Cons x ns)
  obtain n fr where x: "x = (n, fr)" by (cases x)
  from Cons.prems(1) obtain cm1 where 1: "handle_notification E ob (n, fr) cm = Some cm1"
    and 2: "run_changeset_manager E ob ns cm1 = Some cm'"
    by (auto simp: run_def x split: option.splits)
  have w: "code_well_behaved E ob (n, fr)" using Cons.prems(2) x by simp
  from 1 have "code_true E (ss_code (st_inner (cm_state cm1)))"
    by (rule handle_next) (simp add: next_snapshot_code [OF _ w Cons.prems(3)])
  with Cons.IH [OF 2] Cons.prems(2) show ?case by simp
qed

text \<open>
  The snapshot never holds code under a wrong hash, through any run whose bundles are
  sound and whose code caches were flushed by the code manager; staleness, gaps and reorgs do not matter here.
\<close>

theorem run_keeps_code_true:
  assumes "run_changeset_manager E ob ns cm = Some cm'"
    and "mreach code_spec (code_answers E views) ctx fetch k s" and "k < 2 ^ 64"
    and "\<forall>(n, fr) \<in> set ns. bundles_sound E ob n \<and> set_option (fr_code fr) \<subseteq> set (sy_flushed s)"
    and "code_true E (ss_code (st_inner (cm_state cm)))"
  shows "code_true E (ss_code (st_inner (cm_state cm')))"
proof -
  have "\<forall>x \<in> set ns. code_well_behaved E ob x"
    using assms(4) flushed_code_true [OF assms(2,3)] by fastforce
  with assms(1,5) show ?thesis by (blast intro: run_code_true)
qed

theorem run_keeps_code_true_witness:
  "\<exists>s cc cm'. mreach code_spec (code_answers demo_env {demo_node}) fmempty fetch_config_default 9 s
    \<and> sy_flushed s = [cc] \<and> fmlookup (cc_data cc) 2 = Some [0x60, 0x00]
    \<and> run_changeset_manager demo_env (\<lambda>bs. bs)
        [(ChainCommitted (demo_chain [(101, 8, 7)]), no_caches\<lparr>fr_code := Some cc\<rparr>)] (demo_cm demo_tip) = Some cm'
    \<and> code_true demo_env (ss_code (st_inner (cm_state cm')))"
proof -
  obtain s cc where s:
    "mreach code_spec (code_answers demo_env {demo_node}) fmempty fetch_config_default 9 s"
    "sy_flushed s = [cc]" "fmlookup (cc_data cc) 2 = Some [0x60, 0x00]"
    using demo_code_flush by blast
  let ?ns = "[(ChainCommitted (demo_chain [(101, 8, 7)]), no_caches\<lparr>fr_code := Some cc\<rparr>)]
    :: ((bytes, nat, nat) notification \<times> bytes flush_replies) list"
  obtain cm' where r: "run_changeset_manager demo_env (\<lambda>bs. bs) ?ns (demo_cm demo_tip) = Some cm'"
    using run_None [of demo_env "\<lambda>bs. bs" ?ns "demo_cm demo_tip"] by (auto simp: demo_chain_def)
  have "code_true demo_env (ss_code (st_inner (cm_state cm')))"
    by (rule run_keeps_code_true [OF r s(1)])
      (auto simp: s(2) bundles_sound_def demo_chain_def demo_cm_def static_state_new_def demo_tip_def
        code_true_def)
  with s r show ?thesis by blast
qed

end
