(* ===== verification/Builder.thy ===== *)
theory Builder
  imports Managers Changeset
begin

text \<open>
  \<open>rex-sim/src/lib.rs\<close>: configuring, building and spawning the simulator.  A receiver that has
  been taken is \<open>False\<close>; a failed assertion and a second \<open>spawn\<close> are \<open>None\<close>.  Spawning
  gives the initial states of the five tasks.
\<close>

definition clamp_concurrency :: "u64 \<Rightarrow> u64" where
  "clamp_concurrency n = (if n < 1 then 1 else if 1024 < n then 1024 else n)"

record rex_sim_builder =
  rb_rpc_endpoint :: string
  rb_log_sink :: bool
  rb_fetch :: "fetch_config option"

definition builder_default :: rex_sim_builder where
  "builder_default = \<lparr>rb_rpc_endpoint = ''http://127.0.0.1:8545'', rb_log_sink = False, rb_fetch = None\<rparr>"

definition builder_rpc_endpoint :: "string \<Rightarrow> rex_sim_builder \<Rightarrow> rex_sim_builder" where
  "builder_rpc_endpoint endpoint b = b\<lparr>rb_rpc_endpoint := endpoint\<rparr>"

definition builder_log_sink :: "rex_sim_builder \<Rightarrow> rex_sim_builder" where
  "builder_log_sink b = b\<lparr>rb_log_sink := True\<rparr>"

definition builder_fetch :: "fetch_config \<Rightarrow> rex_sim_builder \<Rightarrow> rex_sim_builder" where
  "builder_fetch fetch b = b\<lparr>rb_fetch := Some fetch\<rparr>"

record ('c, 'w, 'l) rex_sim =
  rx_state :: "('c, 'w, 'l) static_state"
  rx_rpc_endpoint :: string
  rx_log_sink :: bool
  rx_fetch :: fetch_config
  rx_account_fetch_rx :: bool
  rx_code_fetch_rx :: bool
  rx_storage_fetch_rx :: bool
  rx_block_hash_fetch_rx :: bool

definition fresh_channels :: fetch_channels where
  "fresh_channels = \<lparr>
     ch_account = \<lparr>chan_open = True, chan_sent = []\<rparr>, ch_code = \<lparr>chan_open = True, chan_sent = []\<rparr>,
     ch_storage = \<lparr>chan_open = True, chan_sent = []\<rparr>,
     ch_block_hash = \<lparr>chan_open = True, chan_sent = []\<rparr>\<rparr>"

definition builder_build :: "rex_sim_builder \<Rightarrow> ('c, 'w, 'l) rex_sim option" where
  "builder_build b =
    (let fetch = (case rb_fetch b of Some f \<Rightarrow> f | None \<Rightarrow> fetch_config_default);
         fetch = fetch\<lparr>fc_account := clamp_concurrency (fc_account fetch)\<rparr>;
         fetch = fetch\<lparr>fc_code := clamp_concurrency (fc_code fetch)\<rparr>;
         fetch = fetch\<lparr>fc_storage := clamp_concurrency (fc_storage fetch)\<rparr>;
         fetch = fetch\<lparr>fc_block_hash := clamp_concurrency (fc_block_hash fetch)\<rparr>
     in if \<not> fc_rpc_timeout_ms fetch < fc_wait_timeout_ms fetch then None
        else Some \<lparr>
          rx_state = static_state_new snapshot_default fresh_channels fetch,
          rx_rpc_endpoint = rb_rpc_endpoint b,
          rx_log_sink = rb_log_sink b,
          rx_fetch = fetch,
          rx_account_fetch_rx = True,
          rx_code_fetch_rx = True,
          rx_storage_fetch_rx = True,
          rx_block_hash_fetch_rx = True\<rparr>)"

definition rex_sim_block :: "('c, 'w, 'l) rex_sim \<Rightarrow> u64" where
  "rex_sim_block rx = st_block (rx_state rx)"

definition state_update_default :: state_update where
  "state_update_default = \<lparr>su_block = 0, su_block_hash = 0, su_generation = 0\<rparr>"

record ('c, 'w, 'l) spawned =
  sp_account :: "(address, 'c account_info, code_registration list) fetch_manager"
  sp_code :: "(b256, 'c, code_hints) fetch_manager"
  sp_storage :: "(address \<times> u256, u256, unit) fetch_manager"
  sp_block_hash :: "(u64, b256, unit) fetch_manager"
  sp_changeset :: "('c, 'w, 'l) changeset_manager"
  sp_first_update :: state_update

definition take_receiver :: "bool \<Rightarrow> bool option" where
  "take_receiver rx = (if rx then Some False else None)"

definition spawn ::
  "('c, 'w, 'l) rex_sim \<Rightarrow> (('c, 'w, 'l) spawned \<times> ('c, 'w, 'l) rex_sim) option" where
  "spawn rx =
    (case take_receiver (rx_account_fetch_rx rx) of None \<Rightarrow> None | Some account_left \<Rightarrow>
     (case take_receiver (rx_code_fetch_rx rx) of None \<Rightarrow> None | Some code_left \<Rightarrow>
     (case take_receiver (rx_storage_fetch_rx rx) of None \<Rightarrow> None | Some storage_left \<Rightarrow>
     (case take_receiver (rx_block_hash_fetch_rx rx) of None \<Rightarrow> None | Some block_hash_left \<Rightarrow>
       (let fetch = rx_fetch rx
        in Some (\<lparr>
          sp_account = manager_new account_spec [] fetch,
          sp_code = manager_new code_spec fmempty fetch,
          sp_storage = manager_new storage_spec () fetch,
          sp_block_hash = manager_new block_hash_spec () fetch,
          sp_changeset = \<lparr>cm_state = rx_state rx, cm_ready_signal = True, cm_update_sender = True,
                          cm_log_sink = rx_log_sink rx, cm_trace = []\<rparr>,
          sp_first_update = state_update_default\<rparr>,
          rx\<lparr>rx_log_sink := False, rx_account_fetch_rx := account_left, rx_code_fetch_rx := code_left,
             rx_storage_fetch_rx := storage_left, rx_block_hash_fetch_rx := block_hash_left\<rparr>))))))"

lemma clamp_range: "1 \<le> clamp_concurrency n \<and> clamp_concurrency n \<le> 1024"
  by (auto simp: clamp_concurrency_def word_less_nat_alt word_le_nat_alt)

lemma clamp_idem [simp]: "clamp_concurrency (clamp_concurrency n) = clamp_concurrency n"
  by (simp add: clamp_concurrency_def word_less_nat_alt)

lemma clamp_pos: "0 < clamp_concurrency n"
  by (auto simp: clamp_concurrency_def word_less_nat_alt)

lemma built_fetch:
  "builder_build b = Some rx \<Longrightarrow>
    \<exists>f. rx_fetch rx = f\<lparr>fc_account := clamp_concurrency (fc_account f),
           fc_code := clamp_concurrency (fc_code f), fc_storage := clamp_concurrency (fc_storage f),
           fc_block_hash := clamp_concurrency (fc_block_hash f)\<rparr>
      \<and> fc_rpc_timeout_ms (rx_fetch rx) < fc_wait_timeout_ms (rx_fetch rx)"
  by (auto simp: builder_build_def Let_def split: if_splits
      intro!: exI [of _ "case rb_fetch b of Some f \<Rightarrow> f | None \<Rightarrow> fetch_config_default"])

section \<open>Properties\<close>

text \<open>
  A built simulator has between 1 and 1024 permits for every manager and a wait timeout
  above the RPC timeout; building panics exactly when the configured timeouts are not so
  ordered, never because of the permits.
\<close>

theorem built_config_ok:
  "(case (builder_build b :: ('c, 'w, 'l) rex_sim option) of
      None \<Rightarrow> (\<exists>f. rb_fetch b = Some f \<and> fc_wait_timeout_ms f \<le> fc_rpc_timeout_ms f)
    | Some rx \<Rightarrow>
        1 \<le> fc_account (rx_fetch rx) \<and> fc_account (rx_fetch rx) \<le> 1024
        \<and> 1 \<le> fc_code (rx_fetch rx) \<and> fc_code (rx_fetch rx) \<le> 1024
        \<and> 1 \<le> fc_storage (rx_fetch rx) \<and> fc_storage (rx_fetch rx) \<le> 1024
        \<and> 1 \<le> fc_block_hash (rx_fetch rx) \<and> fc_block_hash (rx_fetch rx) \<le> 1024
        \<and> fc_rpc_timeout_ms (rx_fetch rx) < fc_wait_timeout_ms (rx_fetch rx)
        \<and> st_fetch (rx_state rx) = rx_fetch rx)"
  using clamp_range
  by (auto simp: builder_build_def Let_def static_state_new_def fetch_config_defs not_less
      split: option.split if_splits)

text \<open>
  A simulator can be spawned once: the first call gives the five tasks their initial
  states, over the state that was built, and the second panics.
\<close>

lemma spawn_once:
  assumes "builder_build b = Some rx"
  shows "\<exists>sp rx'. spawn rx = Some (sp, rx') \<and> spawn rx' = None
    \<and> sp_account sp = manager_new account_spec [] (rx_fetch rx)
    \<and> cm_state (sp_changeset sp) = static_state_new snapshot_default fresh_channels (rx_fetch rx)
    \<and> cm_ready_signal (sp_changeset sp) \<and> cm_trace (sp_changeset sp) = []"
  using assms
  by (auto simp: builder_build_def Let_def spawn_def take_receiver_def split: if_splits)

text \<open>
  C16: in a built simulator no manager is ever stuck on its semaphore: a request that waits
  for a permit of the account manager is spawned after at most one answer of the node,
  whatever concurrency was configured, zero included.
\<close>

theorem acquire_never_stuck:
  assumes "builder_build b = Some rx"
    and "mreach account_spec (account_answers E views) ctx (rx_fetch rx) n s" and "n < 2 ^ 64"
    and "sy_phase s = Acquiring req t" and "views \<noteq> {}"
  shows "\<exists>s1 s2. (s1 = s \<or> mstep account_spec (account_answers E views) s s1)
    \<and> mstep account_spec (account_answers E views) s1 s2 \<and> sy_phase s2 = Burst"
proof -
  have "0 < fs_permits account_spec (rx_fetch rx)"
    using built_fetch [OF assms(1)] clamp_pos by (auto simp: account_spec_def)
  from acquiring_progress [OF counts_reach [OF assms(2,3)] assms(4) this
      account_answering [OF assms(5)]]
  show ?thesis .
qed

theorem acquire_never_stuck_witness:
  "\<exists>s s1 s2. sy_phase s = Acquiring demo_req 1 \<and> mg_permits (sy_mg s) = 0
     \<and> (s1 = s \<or> mstep account_spec (account_answers demo_env {demo_node}) s s1)
     \<and> mstep account_spec (account_answers demo_env {demo_node}) s1 s2 \<and> sy_phase s2 = Burst"
proof -
  obtain rx where b: "builder_build (builder_fetch (fetch_config_uniform 0) builder_default)
        = Some (rx :: (nat, nat, nat) rex_sim)"
    and f: "rx_fetch rx = fetch_config_uniform 1"
    by (simp add: builder_build_def Let_def builder_fetch_def builder_default_def fetch_config_defs
        clamp_concurrency_def)
  from demo_blocked_run obtain s where s:
    "mreach account_spec (account_answers demo_env {demo_node}) [] (rx_fetch rx) 4 s"
    "sy_phase s = Acquiring demo_req 1" "mg_permits (sy_mg s) = 0" unfolding f by blast
  from acquire_never_stuck [OF b s(1) _ s(2)] s(2,3) show ?thesis by auto
qed

end
