(* ===== verification/Served_Manager.thy ===== *)
theory Served_Manager
  imports Managers
begin

text \<open>
  A fetch manager seen from the rest of the simulator: the requests it takes come out of its
  request channel in the order they were sent (\<open>fetch_rx\<close>, an unbounded queue), and it flushes
  when the changeset manager asks for it (\<open>flush_rx\<close>).

  To say which block a node's answer has to be about, a call carries along the tag of the
  request it was made for.  The manager never looks at it: the lemmas \<open>untag_run\<close> and
  \<open>tagged_step\<close> show that a manager with tagged calls makes exactly the runs of the manager.
\<close>

section \<open>Calls that know their request's tag\<close>

definition tag_calls ::
  "('req, 'key, 'val, 'resp, 'cache, 'ctx, 'side, 'call) fetch_spec
    \<Rightarrow> ('req, 'key, 'val, 'resp, 'cache, 'ctx, 'side, b256 option \<times> 'call) fetch_spec" where
  "tag_calls S = \<lparr>
     fs_label = fs_label S, fs_epoch_guarded = fs_epoch_guarded S, fs_permits = fs_permits S,
     fs_tag = fs_tag S, fs_key = fs_key S, fs_hit = fs_hit S, fs_store = fs_store S,
     fs_on_success = fs_on_success S, fs_on_side = fs_on_side S, fs_into_cache = fs_into_cache S,
     fs_fetch = (\<lambda>ctx req. (fs_tag S req, fs_fetch S ctx req))\<rparr>"

lemma tag_calls_fields [simp]:
  "fs_label (tag_calls S) = fs_label S" "fs_epoch_guarded (tag_calls S) = fs_epoch_guarded S"
  "fs_permits (tag_calls S) = fs_permits S" "fs_tag (tag_calls S) = fs_tag S"
  "fs_key (tag_calls S) = fs_key S" "fs_hit (tag_calls S) = fs_hit S"
  "fs_store (tag_calls S) = fs_store S" "fs_on_success (tag_calls S) = fs_on_success S"
  "fs_on_side (tag_calls S) = fs_on_side S" "fs_into_cache (tag_calls S) = fs_into_cache S"
  "fs_fetch (tag_calls S) ctx req = (fs_tag S req, fs_fetch S ctx req)"
  by (simp_all add: tag_calls_def)

lemma tag_calls_manager [simp]:
  "manager_new (tag_calls S) ctx fetch = manager_new S ctx fetch"
  "drain_side (tag_calls S) msgs m = drain_side S msgs m"
  "retag (tag_calls S) req m = retag S req m"
  "flush_take (tag_calls S) m = flush_take S m"
  by (simp_all add: manager_new_def drain_side_def retag_def flush_take_def)

lemma tag_calls_completion [simp]: "apply_completion (tag_calls S) d m = apply_completion S d m"
  by (cases "fd_result d") (simp_all add: apply_completion_def Let_def)

definition untag_task :: "('key, b256 option \<times> 'call) fetch_task \<Rightarrow> ('key, 'call) fetch_task" where
  "untag_task t = \<lparr>tk_key = tk_key t, tk_call = snd (tk_call t), tk_epoch = tk_epoch t,
     tk_respond_to = tk_respond_to t\<rparr>"

definition untag ::
  "('req, 'key, 'val, 'resp, 'cache, 'ctx, b256 option \<times> 'call, 'e) msys
    \<Rightarrow> ('req, 'key, 'val, 'resp, 'cache, 'ctx, 'call, 'e) msys" where
  "untag s = \<lparr>sy_mg = sy_mg s, sy_phase = sy_phase s, sy_running = map untag_task (sy_running s),
     sy_finished = sy_finished s, sy_queue = sy_queue s, sy_replies = sy_replies s,
     sy_flushed = sy_flushed s, sy_accepted = sy_accepted s\<rparr>"

lemma untag_fields [simp]:
  "sy_mg (untag s) = sy_mg s" "sy_phase (untag s) = sy_phase s"
  "sy_running (untag s) = map untag_task (sy_running s)" "sy_finished (untag s) = sy_finished s"
  "sy_queue (untag s) = sy_queue s" "sy_replies (untag s) = sy_replies s"
  "sy_flushed (untag s) = sy_flushed s" "sy_accepted (untag s) = sy_accepted s"
  by (simp_all add: untag_def)

lemma untag_task_fields [simp]:
  "tk_call (untag_task t) = snd (tk_call t)" "finish_task (untag_task t) r = finish_task t r"
  by (simp_all add: untag_task_def finish_task_def)

lemma spawn_untag:
  "spawn_fetch (tag_calls S) req t m = (m', task) \<Longrightarrow> spawn_fetch S req t m = (m', untag_task task)"
  by (auto simp: spawn_fetch_def untag_task_def)

lemma untag_step:
  assumes "mstep (tag_calls S) answers s s'"
    and "\<And>tag c r. answers (tag, c) r \<Longrightarrow> answers0 c r"
  shows "mstep S answers0 (untag s) (untag s')"
  using assms(1)
proof (cases rule: mstep.cases)
  case (side msgs)
  then show ?thesis using mstep.side [where answers = answers0 and S = S and s = "untag s" and msgs = msgs]
    by (simp add: untag_def)
next
  case (burst_begin msgs)
  then show ?thesis using mstep.burst_begin [where answers = answers0 and S = S and s = "untag s" and msgs = msgs]
    by (simp add: untag_def)
next
  case (hit t m req v)
  then show ?thesis using mstep.hit [where answers = answers0 and S = S and s = "untag s" and t = t and m = m]
    by (simp add: untag_def)
next
  case (miss t m req)
  then show ?thesis using mstep.miss [where answers = answers0 and S = S and s = "untag s" and t = t and m = m]
    by (simp add: untag_def)
next
  case (acquire req t m task)
  then show ?thesis
    using mstep.acquire [where answers = answers0 and S = S and s = "untag s" and req = req and t = t and m = m
        and task = "untag_task task"] spawn_untag [OF acquire(4)]
    by (simp add: untag_def)
next
  case burst_end
  then show ?thesis using mstep.burst_end [where answers = answers0 and S = S and s = "untag s"]
    by (simp add: untag_def)
next
  case (finish xs task ys r)
  have "answers0 (tk_call (untag_task task)) r"
    using assms(2) [of "fst (tk_call task)" "snd (tk_call task)" r] finish(3) by simp
  with finish show ?thesis
    using mstep.finish [where answers = answers0 and S = S and s = "untag s" and r = r
        and xs = "map untag_task xs" and ys = "map untag_task ys" and task = "untag_task task"]
    by (simp add: untag_def finish_task_def untag_task_def)
next
  case (send xs d ys)
  then show ?thesis using mstep.send [where answers = answers0 and S = S and s = "untag s"]
    by (simp add: untag_def)
next
  case (complete d q)
  then show ?thesis using mstep.complete [where answers = answers0 and S = S and s = "untag s"]
    by (simp add: untag_def take_completion_def split_beta)
next
  case flush_begin
  then show ?thesis using mstep.flush_begin [where answers = answers0 and S = S and s = "untag s"]
    by (simp add: untag_def)
next
  case (flush_drain d q)
  then show ?thesis using mstep.flush_drain [where answers = answers0 and S = S and s = "untag s"]
    by (simp add: untag_def take_completion_def split_beta)
next
  case (flush_end m cache)
  then show ?thesis using mstep.flush_end [where answers = answers0 and S = S and s = "untag s"]
    by (simp add: untag_def)
qed

text \<open>Forgetting the tags of a run gives a run of the manager itself.\<close>

lemma untag_run:
  assumes "mreach (tag_calls S) answers ctx fetch n s"
    and "\<And>tag c r. answers (tag, c) r \<Longrightarrow> answers0 c r"
  shows "mreach S answers0 ctx fetch n (untag s)"
  using assms(1)
proof (induction rule: mreach.induct)
  case start
  show ?case using mreach.start [of S answers0 ctx fetch] by (simp add: msys_init_def untag_def)
next
  case (step n s s')
  from mreach.step [OF step.IH untag_step [OF step.hyps(2) assms(2)]] show ?case .
qed

text \<open>Every run of the manager is what is left of a run with tags.\<close>

lemma untag_split:
  assumes "map untag_task ts = xs @ task # ys"
  obtains xs' task' ys' where "ts = xs' @ task' # ys'" "xs = map untag_task xs'"
    "task = untag_task task'" "ys = map untag_task ys'"
  using assms by (auto simp: map_eq_append_conv map_eq_Cons_conv append_eq_map_conv Cons_eq_map_conv)

lemma tagged_step:
  assumes "mstep S answers0 (untag s) u"
  shows "\<exists>s'. mstep (tag_calls S) (\<lambda>c. answers0 (snd c)) s s' \<and> untag s' = u"
  using assms
proof (cases rule: mstep.cases)
  case (side msgs)
  show ?thesis
    by (intro exI conjI, rule mstep.side [of s _ _ msgs])
      (use side in \<open>simp_all add: untag_def\<close>)
next
  case (burst_begin msgs)
  show ?thesis
    by (intro exI conjI, rule mstep.burst_begin [of s _ _ msgs])
      (use burst_begin in \<open>simp_all add: untag_def\<close>)
next
  case (hit t m req v)
  show ?thesis
    by (intro exI conjI, rule mstep.hit [of s t m _ req v])
      (use hit in \<open>simp_all add: untag_def\<close>)
next
  case (miss t m req)
  show ?thesis
    by (intro exI conjI, rule mstep.miss [of s t m _ req])
      (use miss in \<open>simp_all add: untag_def\<close>)
next
  case (acquire req t m task)
  obtain task' where t: "spawn_fetch (tag_calls S) req t (sy_mg s) = (m, task')" "task = untag_task task'"
    using acquire(4) by (auto simp: spawn_fetch_def untag_task_def)
  show ?thesis
    by (intro exI conjI, rule mstep.acquire [of s req t _ m task'])
      (use acquire t in \<open>simp_all add: untag_def\<close>)
next
  case burst_end
  show ?thesis
    by (intro exI conjI, rule mstep.burst_end [of s])
      (use burst_end in \<open>simp_all add: untag_def\<close>)
next
  case (finish xs task ys r)
  from finish(2) have "map untag_task (sy_running s) = xs @ task # ys" by simp
  then obtain xs' task' ys' where t: "sy_running s = xs' @ task' # ys'" "xs = map untag_task xs'"
    "task = untag_task task'" "ys = map untag_task ys'" by (rule untag_split)
  show ?thesis
    by (intro exI conjI, rule mstep.finish [of s xs' task' ys' _ r])
      (use finish t in \<open>simp_all add: untag_def\<close>)
next
  case (send xs d ys)
  show ?thesis
    by (intro exI conjI, rule mstep.send [of s xs d ys])
      (use send in \<open>simp_all add: untag_def\<close>)
next
  case (complete d q)
  show ?thesis
    by (intro exI conjI, rule mstep.complete [of s d q])
      (use complete in \<open>simp_all add: untag_def take_completion_def split_beta\<close>)
next
  case flush_begin
  show ?thesis
    by (intro exI conjI, rule mstep.flush_begin [of s])
      (use flush_begin in \<open>simp_all add: untag_def\<close>)
next
  case (flush_drain d q)
  show ?thesis
    by (intro exI conjI, rule mstep.flush_drain [of s d q])
      (use flush_drain in \<open>simp_all add: untag_def take_completion_def split_beta\<close>)
next
  case (flush_end m cache)
  show ?thesis
    by (intro exI conjI, rule mstep.flush_end [of s _ m cache])
      (use flush_end in \<open>simp_all add: untag_def\<close>)
qed

text \<open>A part that makes steps makes the whole make steps.\<close>

lemma lift_relpowp:
  assumes "(R ^^ k) x y" and "\<And>u v. R u v \<Longrightarrow> T (f u) (f v)"
  shows "(T ^^ k) (f x) (f y)"
  using assms(1)
proof (induction k arbitrary: y)
  case (Suc k)
  from Suc.prems obtain u where "(R ^^ k) x u" "R u y" by (rule relpowp_Suc_E)
  with Suc.IH [of u] assms(2) [of u y] show ?case by (auto intro: relpowp_Suc_I)
qed simp

lemma lift_rtranclp:
  assumes "R\<^sup>*\<^sup>* x y" and "\<And>u v. R u v \<Longrightarrow> T (f u) (f v)"
  shows "T\<^sup>*\<^sup>* (f x) (f y)"
  using assms(1) by induction (auto dest: assms(2))

section \<open>Requests in order, flushes on demand\<close>

text \<open>
  \<open>sent\<close> is what has been sent on the request channel so far, \<open>asked\<close> the number of flushes
  asked for.  The ticket of a request is its place in the channel.
\<close>

definition in_turn ::
  "'req list \<Rightarrow> nat \<Rightarrow> ('req, 'key, 'val, 'resp, 'cache, 'ctx, 'call, 'e) msys
    \<Rightarrow> ('req, 'key, 'val, 'resp, 'cache, 'ctx, 'call, 'e) msys \<Rightarrow> bool" where
  "in_turn sent asked s s' \<longleftrightarrow>
    (sy_accepted s' = sy_accepted s
     \<or> length (sy_accepted s) < length sent
       \<and> sy_accepted s' = sy_accepted s @ [(length (sy_accepted s), sent ! length (sy_accepted s))])
    \<and> (sy_phase s \<noteq> Draining \<and> sy_phase s' = Draining \<longrightarrow> length (sy_flushed s) < asked)"

definition served_step ::
  "('req, 'key, 'val, 'resp, 'cache, 'ctx, 'side, 'call) fetch_spec
    \<Rightarrow> (b256 option \<times> 'call \<Rightarrow> 'e sim_error + 'resp \<Rightarrow> bool) \<Rightarrow> 'req list \<Rightarrow> nat
    \<Rightarrow> ('req, 'key, 'val, 'resp, 'cache, 'ctx, b256 option \<times> 'call, 'e) msys
    \<Rightarrow> ('req, 'key, 'val, 'resp, 'cache, 'ctx, b256 option \<times> 'call, 'e) msys \<Rightarrow> bool" where
  "served_step S answers sent asked s s' \<longleftrightarrow>
    mstep (tag_calls S) answers s s' \<and> in_turn sent asked s s'"

lemmas served_step_defs = served_step_def in_turn_def

text \<open>The interpreter of the manager, with the turns checked.\<close>

fun served_exec ::
  "('req, 'key, 'val, 'resp, 'cache, 'ctx, 'side, 'call) fetch_spec
    \<Rightarrow> (b256 option \<times> 'call \<Rightarrow> 'e sim_error + 'resp \<Rightarrow> bool) \<Rightarrow> 'req list \<Rightarrow> nat
    \<Rightarrow> ('req, 'key, 'val, 'resp, 'cache, 'ctx, b256 option \<times> 'call, 'e) msys
    \<Rightarrow> ('req, 'side, 'resp, 'e) mevent list
    \<Rightarrow> ('req, 'key, 'val, 'resp, 'cache, 'ctx, b256 option \<times> 'call, 'e) msys option" where
  "served_exec S answers sent asked s [] = Some s"
| "served_exec S answers sent asked s (e # es) =
    (case mexec1 (tag_calls S) answers s e of
       None \<Rightarrow> None
     | Some s' \<Rightarrow> if in_turn sent asked s s' then served_exec S answers sent asked s' es else None)"

lemma served_exec_steps:
  "served_exec S answers sent asked s es = Some s' \<Longrightarrow>
    (served_step S answers sent asked ^^ length es) s s'"
proof (induction es arbitrary: s)
  case (Cons e es)
  then obtain u where "mexec1 (tag_calls S) answers s e = Some u" "in_turn sent asked s u"
    "served_exec S answers sent asked u es = Some s'" by (auto split: option.splits if_splits)
  then have "served_step S answers sent asked s u" and "(served_step S answers sent asked ^^ length es) u s'"
    by (simp_all add: served_step_def mexec1_sound Cons.IH)
  then show ?case unfolding length_Cons by (rule relpowp_Suc_I2)
qed simp

definition in_order :: "'req list \<Rightarrow> (nat \<times> 'req) list \<Rightarrow> bool" where
  "in_order sent acc \<longleftrightarrow> length acc \<le> length sent
    \<and> (\<forall>i < length acc. acc ! i = (i, sent ! i))"

lemma in_order_member: "in_order sent acc \<Longrightarrow> (t, req) \<in> set acc \<Longrightarrow> t < length sent \<and> req = sent ! t"
  by (fastforce simp: in_order_def in_set_conv_nth)

lemma in_order_requests: "in_order sent acc \<Longrightarrow> (t, req) \<in> set acc \<Longrightarrow> req \<in> set sent"
  by (auto dest: in_order_member)

lemma in_order_grows:
  assumes "in_order sent acc"
  shows "in_order (sent @ rest) acc"
  using assms by (auto simp: in_order_def nth_append)

lemma in_order_snoc:
  assumes "in_order sent acc" and "length acc < length sent"
  shows "in_order sent (acc @ [(length acc, sent ! length acc)])"
  using assms by (auto simp: in_order_def nth_append less_Suc_eq)

definition served ::
  "('req, 'key, 'val, 'resp, 'cache, 'ctx, 'side, 'call) fetch_spec
    \<Rightarrow> (b256 option \<times> 'call \<Rightarrow> 'e sim_error + 'resp \<Rightarrow> bool) \<Rightarrow> 'ctx \<Rightarrow> fetch_config \<Rightarrow> nat
    \<Rightarrow> 'req list \<Rightarrow> nat
    \<Rightarrow> ('req, 'key, 'val, 'resp, 'cache, 'ctx, b256 option \<times> 'call, 'e) msys \<Rightarrow> bool" where
  "served S answers ctx fetch n sent asked s \<longleftrightarrow>
    (\<exists>k \<le> n. mreach (tag_calls S) answers ctx fetch k s)
    \<and> in_order sent (sy_accepted s)
    \<and> (if sy_phase s = Draining then length (sy_flushed s) < asked else length (sy_flushed s) \<le> asked)"

lemma served_start: "served S answers ctx fetch 0 [] 0 (msys_init (tag_calls S) ctx fetch)"
  using mreach.start [of "tag_calls S" answers ctx fetch]
  by (simp add: served_def in_order_def msys_init_def)

lemma served_grows:
  assumes "served S answers ctx fetch n sent asked s" and "n \<le> m" and "asked \<le> asked'"
  shows "served S answers ctx fetch m (sent @ rest) asked' s"
  using assms by (auto simp: served_def intro: in_order_grows le_trans split: if_splits)

lemma take_completion_flushed [simp]: "sy_flushed (take_completion S d q s) = sy_flushed s"
  by (simp add: take_completion_def split_beta)

text \<open>A step makes at most one flush, and that is the end of draining.\<close>

lemma mstep_flushed:
  assumes "mstep S answers s s'"
  shows "sy_flushed s' = sy_flushed s \<and> (sy_phase s = Draining \<longrightarrow> sy_phase s' = Draining)
    \<or> sy_phase s = Draining \<and> sy_phase s' = Selecting \<and> (\<exists>c. sy_flushed s' = sy_flushed s @ [c])"
  using assms by cases auto

lemma served_served_step:
  assumes "served S answers ctx fetch n sent asked s" and "served_step S answers sent asked s s'"
  shows "served S answers ctx fetch (Suc n) sent asked s'"
proof -
  from assms(1) obtain k where k: "k \<le> n" "mreach (tag_calls S) answers ctx fetch k s"
    and o: "in_order sent (sy_accepted s)"
    and f: "if sy_phase s = Draining then length (sy_flushed s) < asked else length (sy_flushed s) \<le> asked"
    by (auto simp: served_def)
  from assms(2) have m: "mstep (tag_calls S) answers s s'"
    and a: "sy_accepted s' = sy_accepted s
       \<or> length (sy_accepted s) < length sent
         \<and> sy_accepted s' = sy_accepted s @ [(length (sy_accepted s), sent ! length (sy_accepted s))]"
    and d: "sy_phase s \<noteq> Draining \<and> sy_phase s' = Draining \<longrightarrow> length (sy_flushed s) < asked"
    by (simp_all add: served_step_defs)
  from a have "in_order sent (sy_accepted s')" using o in_order_snoc [OF o] by metis
  moreover have "if sy_phase s' = Draining then length (sy_flushed s') < asked
      else length (sy_flushed s') \<le> asked"
    using mstep_flushed [OF m] f d by (auto split: if_splits)
  moreover have "\<exists>k \<le> Suc n. mreach (tag_calls S) answers ctx fetch k s'"
    using mreach.step [OF k(2) m] k(1) by (intro exI [of _ "Suc k"]) simp
  ultimately show ?thesis by (simp add: served_def)
qed

lemma served_reach:
  assumes "served S answers ctx fetch n sent asked s" and "n < 2 ^ 64"
  obtains k where "mreach (tag_calls S) answers ctx fetch k s" "k < 2 ^ 64"
    "in_order sent (sy_accepted s)"
  using assms by (auto simp: served_def)

text \<open>The laws of a spec do not mention its calls.\<close>

lemma fetch_laws_tag_calls: "fetch_laws S \<Longrightarrow> fetch_laws (tag_calls S)"
  by (simp add: fetch_laws_def)

text \<open>Who vouches for what such a manager hands out: a call made for a request that was sent.\<close>

definition called_for ::
  "('req, 'key, 'val, 'resp, 'cache, 'ctx, 'side, 'call) fetch_spec
    \<Rightarrow> (b256 option \<times> 'call \<Rightarrow> 'e sim_error + 'resp \<Rightarrow> bool) \<Rightarrow> 'req list
    \<Rightarrow> b256 option \<Rightarrow> 'key \<Rightarrow> 'resp \<Rightarrow> bool" where
  "called_for S answers sent tag key resp \<longleftrightarrow>
    (\<exists>req ctx. req \<in> set sent \<and> fs_tag S req = tag \<and> fs_key S req = key
       \<and> answers (tag, fs_fetch S ctx req) (Inr resp))"

lemma vouched_called_for:
  assumes "vouched (tag_calls S) answers acc tag k resp" and "in_order sent acc"
  shows "called_for S answers sent tag k resp"
  using assms in_order_requests [OF assms(2)] by (fastforce simp: vouched_def called_for_def)

context fetch_laws
begin

lemma served_flushed:
  assumes "served S answers ctx fetch n sent asked s" and "n < 2 ^ 64" and "c \<in> set (sy_flushed s)"
  shows "\<exists>h data. c = fs_into_cache S h data \<and>
    (\<forall>k v. fmlookup data k = Some v \<longrightarrow>
      (\<exists>tag. tag_ok tag h \<and> called_for S answers sent tag k (fs_hit S v)))"
proof -
  from assms(1,2) obtain k where k: "mreach (tag_calls S) answers ctx fetch k s" "k < 2 ^ 64"
    "in_order sent (sy_accepted s)" by (rule served_reach)
  from fetch_laws.flushed_vouched [OF fetch_laws_tag_calls [OF fetch_laws_axioms] k(1,2) assms(3)]
    vouched_called_for [OF _ k(3), of S answers]
  show ?thesis by (simp, blast)
qed

lemma served_reply:
  assumes "served S answers ctx fetch n sent asked s" and "n < 2 ^ 64"
    and "(t, Inr resp) \<in> set (sy_replies s)"
  shows "t < length sent
    \<and> called_for S answers sent (fs_tag S (sent ! t)) (fs_key S (sent ! t)) resp"
proof -
  from assms(1,2) obtain k where k: "mreach (tag_calls S) answers ctx fetch k s" "k < 2 ^ 64"
    "in_order sent (sy_accepted s)" by (rule served_reach)
  from fetch_laws.reply_vouched [OF fetch_laws_tag_calls [OF fetch_laws_axioms] k(1,2) assms(3)]
  obtain req where "(t, req) \<in> set (sy_accepted s)"
    "vouched (tag_calls S) answers (sy_accepted s) (fs_tag S req) (fs_key S req) resp" by auto
  with in_order_member [OF k(3)] vouched_called_for [OF _ k(3)] show ?thesis by metis
qed

end

section \<open>A flush that is asked for comes\<close>

text \<open>
  Some steps of the manager alone, without taking a request: back to the \<open>select!\<close> from wherever
  it is, then the flush.
\<close>

abbreviation quiet_step ::
  "('req, 'key, 'val, 'resp, 'cache, 'ctx, 'side, 'call) fetch_spec
    \<Rightarrow> (b256 option \<times> 'call \<Rightarrow> 'e sim_error + 'resp \<Rightarrow> bool) \<Rightarrow> nat
    \<Rightarrow> ('req, 'key, 'val, 'resp, 'cache, 'ctx, b256 option \<times> 'call, 'e) msys
    \<Rightarrow> ('req, 'key, 'val, 'resp, 'cache, 'ctx, b256 option \<times> 'call, 'e) msys \<Rightarrow> bool" where
  "quiet_step S answers asked s s' \<equiv> served_step S answers [] asked s s'"

lemma quiet_stepI:
  assumes "mstep (tag_calls S) answers s s'" and "sy_accepted s' = sy_accepted s"
    and "sy_phase s' = Draining \<Longrightarrow> sy_phase s = Draining \<or> length (sy_flushed s) < asked"
  shows "quiet_step S answers asked s s'"
  using assms by (auto simp: served_step_defs)

lemma quiet_served: "quiet_step S answers asked s s' \<Longrightarrow> served_step S answers sent asked s s'"
  by (auto simp: served_step_defs)

lemma quiet_step_mstep:
  assumes "mstep (tag_calls S) answers s s'" and "sy_phase s = Acquiring req t"
  shows "quiet_step S answers asked s s' \<and> sy_flushed s' = sy_flushed s"
proof -
  from assms(1) have "sy_accepted s' = sy_accepted s \<and> sy_flushed s' = sy_flushed s \<and> sy_phase s' \<noteq> Draining"
    by cases (simp_all add: assms(2))
  with assms(1) show ?thesis by (simp add: served_step_defs)
qed

lemma quiet_to_burst:
  assumes "counts_ok (tag_calls S) fetch n s" and "sy_phase s = Acquiring req t"
    and "0 < fs_permits S fetch" and "answering answers"
  shows "\<exists>s'. (quiet_step S answers asked)\<^sup>*\<^sup>* s s' \<and> sy_phase s' = Burst \<and> sy_flushed s' = sy_flushed s"
proof -
  have "0 < fs_permits (tag_calls S) fetch" using assms(3) by simp
  from acquiring_steps [OF assms(1,2) this assms(4)] obtain s1 s2 where
    s1: "s1 = s \<or> mstep (tag_calls S) answers s s1" "sy_phase s1 = Acquiring req t"
      "sy_flushed s1 = sy_flushed s" and
    s2: "mstep (tag_calls S) answers s1 s2" "sy_phase s2 = Burst" by blast
  from s1(1) quiet_step_mstep [OF _ assms(2), of S answers s1 asked]
  have r: "(quiet_step S answers asked)\<^sup>*\<^sup>* s s1" by auto
  have q: "quiet_step S answers asked s1 s2" "sy_flushed s2 = sy_flushed s1"
    using quiet_step_mstep [OF s2(1) s1(2), of asked] by simp_all
  from r q(1) have "(quiet_step S answers asked)\<^sup>*\<^sup>* s s2" by (rule rtranclp.rtrancl_into_rtrancl)
  with q(2) s1(3) s2(2) show ?thesis by (intro exI [of _ s2]) simp
qed

lemma quiet_burst_to_selecting:
  "sy_phase s = Burst \<Longrightarrow>
    \<exists>s'. quiet_step S answers asked s s' \<and> sy_phase s' = Selecting \<and> sy_flushed s' = sy_flushed s"
  by (intro exI [of _ "s\<lparr>sy_phase := Selecting\<rparr>"]) (auto intro!: quiet_stepI mstep.burst_end)

lemma quiet_flush_begin:
  "sy_phase s = Selecting \<Longrightarrow> length (sy_flushed s) < asked \<Longrightarrow>
    \<exists>s'. quiet_step S answers asked s s' \<and> sy_phase s' = Draining \<and> sy_flushed s' = sy_flushed s"
  by (intro exI [of _ "s\<lparr>sy_phase := Draining\<rparr>"]) (auto intro!: quiet_stepI mstep.flush_begin)

lemma quiet_flush_end:
  assumes "sy_phase s = Draining"
  shows "\<exists>s' c. quiet_step S answers asked s s' \<and> sy_phase s' = Selecting \<and> sy_flushed s' = sy_flushed s @ [c]"
proof -
  obtain m c where f: "flush_take (tag_calls S) (sy_mg s) = (m, c)" by fastforce
  from mstep.flush_end [where answers = answers, OF assms f] show ?thesis
    by (intro exI [of _ "s\<lparr>sy_mg := m, sy_phase := Selecting, sy_flushed := sy_flushed s @ [c]\<rparr>"]
        exI [of _ c]) (auto intro!: quiet_stepI)
qed

lemma quiet_to_draining:
  assumes "counts_ok (tag_calls S) fetch n s" and "0 < fs_permits S fetch" and "answering answers"
    and "length (sy_flushed s) < asked"
  shows "\<exists>s'. (quiet_step S answers asked)\<^sup>*\<^sup>* s s' \<and> sy_phase s' = Draining \<and> sy_flushed s' = sy_flushed s"
proof -
  have sel: "\<exists>s'. (quiet_step S answers asked)\<^sup>*\<^sup>* u s' \<and> sy_phase s' = Draining \<and> sy_flushed s' = sy_flushed s"
    if "sy_phase u = Selecting" "sy_flushed u = sy_flushed s" for u
    using quiet_flush_begin [OF that(1), of asked S answers] that(2) assms(4) by (auto intro: r_into_rtranclp)
  have burst: "\<exists>s'. (quiet_step S answers asked)\<^sup>*\<^sup>* u s' \<and> sy_phase s' = Draining \<and> sy_flushed s' = sy_flushed s"
    if "sy_phase u = Burst" "sy_flushed u = sy_flushed s" for u
  proof -
    from quiet_burst_to_selecting [OF that(1), of S answers asked] obtain v where
      v: "quiet_step S answers asked u v" "sy_phase v = Selecting" "sy_flushed v = sy_flushed u" by blast
    with sel [of v] that(2) obtain w where w: "(quiet_step S answers asked)\<^sup>*\<^sup>* v w"
      "sy_phase w = Draining" "sy_flushed w = sy_flushed s" by auto
    from v(1) w(1) have "(quiet_step S answers asked)\<^sup>*\<^sup>* u w" by (rule converse_rtranclp_into_rtranclp)
    with w(2,3) show ?thesis by blast
  qed
  show ?thesis
  proof (cases "sy_phase s")
    case Selecting
    with sel show ?thesis by simp
  next
    case Burst
    with burst show ?thesis by simp
  next
    case (Acquiring req t)
    from quiet_to_burst [OF assms(1) this assms(2,3), of asked] obtain u where
      u: "(quiet_step S answers asked)\<^sup>*\<^sup>* s u" "sy_phase u = Burst" "sy_flushed u = sy_flushed s" by blast
    with burst [OF u(2,3)] show ?thesis by (meson rtranclp_trans)
  next
    case Draining
    then show ?thesis by auto
  qed
qed

lemma flush_comes:
  assumes "counts_ok (tag_calls S) fetch n s" and "0 < fs_permits S fetch" and "answering answers"
    and "length (sy_flushed s) < asked"
  shows "\<exists>s' c. (quiet_step S answers asked)\<^sup>*\<^sup>* s s' \<and> sy_flushed s' = sy_flushed s @ [c]"
proof -
  from quiet_to_draining [OF assms] obtain u where
    u: "(quiet_step S answers asked)\<^sup>*\<^sup>* s u" "sy_phase u = Draining" "sy_flushed u = sy_flushed s" by blast
  from quiet_flush_end [OF u(2), of S answers asked] obtain v c where
    v: "quiet_step S answers asked u v" "sy_flushed v = sy_flushed u @ [c]" by blast
  from rtranclp.rtrancl_into_rtrancl [OF u(1) v(1)] v(2) u(3) show ?thesis
    by (intro exI [of _ v] exI [of _ c]) simp
qed

end
