(* ===== verification/System.thy ===== *)
theory System
  imports Coherence Served_Manager Builder
begin

text \<open>
  The simulator as it runs: the changeset manager, the four fetch managers with their tasks,
  the simulations that read, and the node, one atomic action at a time
  (\<open>rex-sim/src/lib.rs\<close>, \<open>spawn\<close>, and the loops it starts).

  A notification is handled in two steps.  The changeset manager takes it, loads the snapshot
  and asks the four managers for their caches; when all have answered it builds the next
  snapshot from the one it loaded and swaps it in.  Everything else goes on in between.  As
  nobody else writes the snapshot, the one it loaded is still the current one then.
\<close>

section \<open>The node\<close>

text \<open>
  The node moves while the simulator runs: \<open>nodes h\<close> is the set of states it may be in when it
  answers a request that was made for the block with hash \<open>h\<close>.
\<close>

definition nodes_for :: "(b256 \<Rightarrow> 'e node set) \<Rightarrow> b256 option \<Rightarrow> 'e node set" where
  "nodes_for nodes tag = (case tag of Some h \<Rightarrow> nodes h | None \<Rightarrow> (\<Union>h. nodes h))"

definition account_calls ::
  "'c env \<Rightarrow> (b256 \<Rightarrow> 'e node set) \<Rightarrow> b256 option \<times> address \<times> u64
    \<Rightarrow> 'e sim_error + 'c account_info option \<Rightarrow> bool" where
  "account_calls E nodes c r \<longleftrightarrow> account_answers E (nodes_for nodes (fst c)) (snd c) r"

definition code_calls ::
  "'c env \<Rightarrow> (b256 \<Rightarrow> 'e node set) \<Rightarrow> b256 option \<times> b256 \<times> address option \<times> u64
    \<Rightarrow> 'e sim_error + 'c \<Rightarrow> bool" where
  "code_calls E nodes c r \<longleftrightarrow> code_answers E (nodes_for nodes (fst c)) (snd c) r"

definition storage_calls ::
  "(b256 \<Rightarrow> 'e node set) \<Rightarrow> b256 option \<times> address \<times> u256 \<times> u64 \<Rightarrow> 'e sim_error + u256 \<Rightarrow> bool" where
  "storage_calls nodes c r \<longleftrightarrow> storage_answers (nodes_for nodes (fst c)) (snd c) r"

definition block_hash_calls ::
  "(b256 \<Rightarrow> 'e node set) \<Rightarrow> b256 option \<times> u64 \<Rightarrow> 'e sim_error + b256 \<Rightarrow> bool" where
  "block_hash_calls nodes c r \<longleftrightarrow> block_hash_answers (nodes_for nodes (fst c)) (snd c) r"

lemmas calls_defs = account_calls_def code_calls_def storage_calls_def block_hash_calls_def

section \<open>The state\<close>

type_synonym ('c, 'e) account_task =
  "(account_request, address, 'c account_info, 'c account_info option, 'c account_cache,
    code_registration list, b256 option \<times> address \<times> u64, 'e) msys"

type_synonym ('c, 'e) code_task =
  "(code_request, b256, 'c, 'c, 'c code_cache, code_hints,
    b256 option \<times> b256 \<times> address option \<times> u64, 'e) msys"

type_synonym 'e storage_task =
  "(storage_request, address \<times> u256, u256, u256, storage_cache, unit,
    b256 option \<times> address \<times> u256 \<times> u64, 'e) msys"

type_synonym 'e block_hash_task =
  "(block_hash_request, u64, b256, b256, block_hash_cache, unit, b256 option \<times> u64, 'e) msys"

text \<open>
  \<open>sm_task\<close> is the notification whose flush is being awaited, \<open>sm_asked\<close> the number of flushes
  asked for so far.
\<close>

record ('c, 'w, 'l, 'e) system =
  sm_cm :: "('c, 'w, 'l) changeset_manager"
  sm_task :: "('c, 'w, 'l) notification option"
  sm_asked :: nat
  sm_account :: "('c, 'e) account_task"
  sm_code :: "('c, 'e) code_task"
  sm_storage :: "'e storage_task"
  sm_block_hash :: "'e block_hash_task"

abbreviation state_of :: "('c, 'w, 'l, 'e) system \<Rightarrow> ('c, 'w, 'l) static_state" where
  "state_of s \<equiv> cm_state (sm_cm s)"

abbreviation snapshot_of :: "('c, 'w, 'l, 'e) system \<Rightarrow> ('c, 'w, 'l) state_snapshot" where
  "snapshot_of s \<equiv> st_inner (state_of s)"

abbreviation sent_account :: "('c, 'w, 'l, 'e) system \<Rightarrow> account_request list" where
  "sent_account s \<equiv> chan_sent (ch_account (st_channels (state_of s)))"

abbreviation sent_code :: "('c, 'w, 'l, 'e) system \<Rightarrow> code_request list" where
  "sent_code s \<equiv> chan_sent (ch_code (st_channels (state_of s)))"

abbreviation sent_storage :: "('c, 'w, 'l, 'e) system \<Rightarrow> storage_request list" where
  "sent_storage s \<equiv> chan_sent (ch_storage (st_channels (state_of s)))"

abbreviation sent_block_hash :: "('c, 'w, 'l, 'e) system \<Rightarrow> block_hash_request list" where
  "sent_block_hash s \<equiv> chan_sent (ch_block_hash (st_channels (state_of s)))"

definition with_state ::
  "('c, 'w, 'l) static_state \<Rightarrow> ('c, 'w, 'l, 'e) system \<Rightarrow> ('c, 'w, 'l, 'e) system" where
  "with_state st s = s\<lparr>sm_cm := (sm_cm s)\<lparr>cm_state := st\<rparr>\<rparr>"

text \<open>What \<open>spawn\<close> starts: each manager at its \<open>select!\<close>, nothing in progress.\<close>

definition manager_task ::
  "('key, 'val, 'ctx) fetch_manager
    \<Rightarrow> ('req, 'key, 'val, 'resp, 'cache, 'ctx, 'call, 'e) msys" where
  "manager_task mg = \<lparr>sy_mg = mg, sy_phase = Selecting, sy_running = [], sy_finished = [],
     sy_queue = [], sy_replies = [], sy_flushed = [], sy_accepted = []\<rparr>"

definition system_start :: "('c, 'w, 'l) spawned \<Rightarrow> ('c, 'w, 'l, 'e) system" where
  "system_start sp = \<lparr>sm_cm = sp_changeset sp, sm_task = None, sm_asked = 0,
     sm_account = manager_task (sp_account sp), sm_code = manager_task (sp_code sp),
     sm_storage = manager_task (sp_storage sp), sm_block_hash = manager_task (sp_block_hash sp)\<rparr>"

text \<open>All four managers have answered the flush, and what they handed over.\<close>

definition flush_done :: "('c, 'w, 'l, 'e) system \<Rightarrow> bool" where
  "flush_done s \<longleftrightarrow> length (sy_flushed (sm_account s)) = sm_asked s
    \<and> length (sy_flushed (sm_code s)) = sm_asked s
    \<and> length (sy_flushed (sm_storage s)) = sm_asked s
    \<and> length (sy_flushed (sm_block_hash s)) = sm_asked s"

definition flush_answers :: "('c, 'w, 'l, 'e) system \<Rightarrow> 'c flush_replies" where
  "flush_answers s = \<lparr>fr_account = Some (last (sy_flushed (sm_account s))),
     fr_code = Some (last (sy_flushed (sm_code s))),
     fr_storage = Some (last (sy_flushed (sm_storage s))),
     fr_block_hash = Some (last (sy_flushed (sm_block_hash s)))\<rparr>"

section \<open>The steps\<close>

text \<open>
  The first four rules are the managers at work.  A read sends its request, if it sends one,
  and waits; what it returns is \<open>basic_ref\<close> and its kin applied to what comes back.  The EVM asks
  for the hashes of ancestors only.  An empty chain would end the changeset manager's task.
\<close>

inductive sys_step ::
  "'c env \<Rightarrow> ('c \<Rightarrow> bytes) \<Rightarrow> (b256 \<Rightarrow> 'e node set) \<Rightarrow> ('c, 'w, 'l, 'e) system
    \<Rightarrow> ('c, 'w, 'l, 'e) system \<Rightarrow> bool"
  for E ob nodes where
  account: "served_step account_spec (account_calls E nodes) (sent_account s) (sm_asked s) (sm_account s) m \<Longrightarrow>
    sys_step E ob nodes s (s\<lparr>sm_account := m\<rparr>)"
| code: "served_step code_spec (code_calls E nodes) (sent_code s) (sm_asked s) (sm_code s) c \<Longrightarrow>
    sys_step E ob nodes s (s\<lparr>sm_code := c\<rparr>)"
| storage: "served_step storage_spec (storage_calls nodes) (sent_storage s) (sm_asked s) (sm_storage s) st \<Longrightarrow>
    sys_step E ob nodes s (s\<lparr>sm_storage := st\<rparr>)"
| block_hash: "served_step block_hash_spec (block_hash_calls nodes) (sent_block_hash s) (sm_asked s) (sm_block_hash s) b \<Longrightarrow>
    sys_step E ob nodes s (s\<lparr>sm_block_hash := b\<rparr>)"
| read_account: "basic_ref reply a (state_of s) = (st, r :: 'e sim_error + 'c account_info option) \<Longrightarrow>
    sys_step E ob nodes s (with_state st s)"
| read_code: "code_by_hash_ref reply h (state_of s) = (st, r :: 'e sim_error + 'c) \<Longrightarrow>
    sys_step E ob nodes s (with_state st s)"
| read_storage: "storage_ref reply a k (state_of s) = (st, r :: 'e sim_error + u256) \<Longrightarrow>
    sys_step E ob nodes s (with_state st s)"
| read_block_hash: "block_hash_ref reply num (state_of s) = (st, r :: 'e sim_error + b256) \<Longrightarrow>
    num \<le> st_block (state_of s) \<Longrightarrow>
    sys_step E ob nodes s (with_state st s)"
| notify: "sm_task s = None \<Longrightarrow> \<forall>c \<in> set (chains_of n). cn_blocks_and_receipts c \<noteq> [] \<Longrightarrow>
    sys_step E ob nodes s (s\<lparr>sm_task := Some n, sm_asked := Suc (sm_asked s)\<rparr>)"
| handle: "sm_task s = Some n \<Longrightarrow> flush_done s \<Longrightarrow>
    handle_notification E ob (n, flush_answers s) (sm_cm s) = Some cm \<Longrightarrow>
    sys_step E ob nodes s (s\<lparr>sm_cm := cm, sm_task := None\<rparr>)"

inductive sys_run ::
  "'c env \<Rightarrow> ('c \<Rightarrow> bytes) \<Rightarrow> (b256 \<Rightarrow> 'e node set) \<Rightarrow> ('c, 'w, 'l) spawned \<Rightarrow> nat
    \<Rightarrow> ('c, 'w, 'l, 'e) system \<Rightarrow> bool"
  for E ob nodes sp where
  start: "sys_run E ob nodes sp 0 (system_start sp)"
| step: "sys_run E ob nodes sp n s \<Longrightarrow> sys_step E ob nodes s s' \<Longrightarrow> sys_run E ob nodes sp (Suc n) s'"

section \<open>How the tasks stay in step\<close>

text \<open>Whose turn it is: between flushes every manager has answered all that was asked.\<close>

definition in_round :: "bool \<Rightarrow> nat \<Rightarrow> ('req, 'key, 'val, 'resp, 'cache, 'ctx, 'call, 'e) msys \<Rightarrow> bool" where
  "in_round idle asked m \<longleftrightarrow>
    (if idle then length (sy_flushed m) = asked else asked \<le> Suc (length (sy_flushed m)))"

definition wired ::
  "'c env \<Rightarrow> (b256 \<Rightarrow> 'e node set) \<Rightarrow> fetch_config \<Rightarrow> nat \<Rightarrow> ('c, 'w, 'l, 'e) system \<Rightarrow> bool" where
  "wired E nodes fetch n s \<longleftrightarrow>
    served account_spec (account_calls E nodes) [] fetch n (sent_account s) (sm_asked s) (sm_account s)
    \<and> served code_spec (code_calls E nodes) fmempty fetch n (sent_code s) (sm_asked s) (sm_code s)
    \<and> served storage_spec (storage_calls nodes) () fetch n (sent_storage s) (sm_asked s) (sm_storage s)
    \<and> served block_hash_spec (block_hash_calls nodes) () fetch n (sent_block_hash s) (sm_asked s) (sm_block_hash s)
    \<and> in_round (sm_task s = None) (sm_asked s) (sm_account s)
    \<and> in_round (sm_task s = None) (sm_asked s) (sm_code s)
    \<and> in_round (sm_task s = None) (sm_asked s) (sm_storage s)
    \<and> in_round (sm_task s = None) (sm_asked s) (sm_block_hash s)
    \<and> (\<forall>x. sm_task s = Some x \<longrightarrow>
         0 < sm_asked s \<and> (\<forall>c \<in> set (chains_of x). cn_blocks_and_receipts c \<noteq> []))"

lemma with_state_fields [simp]:
  "cm_state (sm_cm (with_state st s)) = st" "sm_task (with_state st s) = sm_task s"
  "sm_asked (with_state st s) = sm_asked s" "sm_account (with_state st s) = sm_account s"
  "sm_code (with_state st s) = sm_code s" "sm_storage (with_state st s) = sm_storage s"
  "sm_block_hash (with_state st s) = sm_block_hash s"
  by (simp_all add: with_state_def)

text \<open>A read touches one channel at most, and sends at most one request there.\<close>

lemma basic_ref_sends:
  assumes "basic_ref reply a st = (st', r)"
  shows "st' = st \<or> st' = st\<lparr>st_channels := (st_channels st)\<lparr>ch_account := (ch_account (st_channels st))
      \<lparr>chan_sent := chan_sent (ch_account (st_channels st))
         @ [\<lparr>ar_address = a, ar_block = st_block st, ar_block_hash = st_block_hash st\<rparr>]\<rparr>\<rparr>\<rparr>
      \<and> \<not> ss_stale (st_inner st)"
  using assms
  by (auto simp: basic_ref_def Let_def chan_send_def st_accessors split: if_splits option.splits)

lemma code_by_hash_ref_sends:
  assumes "code_by_hash_ref reply h st = (st', r)"
  shows "st' = st \<or> st' = st\<lparr>st_channels := (st_channels st)\<lparr>ch_code := (ch_code (st_channels st))
      \<lparr>chan_sent := chan_sent (ch_code (st_channels st))
         @ [\<lparr>cr_code_hash = h, cr_block = st_block st, cr_address_hint = None\<rparr>]\<rparr>\<rparr>\<rparr>
      \<and> \<not> ss_stale (st_inner st)"
  using assms
  by (auto simp: code_by_hash_ref_def Let_def chan_send_def st_accessors split: if_splits option.splits)

lemma storage_ref_sends:
  assumes "storage_ref reply a k st = (st', r)"
  shows "st' = st \<or> st' = st\<lparr>st_channels := (st_channels st)\<lparr>ch_storage := (ch_storage (st_channels st))
      \<lparr>chan_sent := chan_sent (ch_storage (st_channels st))
         @ [\<lparr>sr_address = a, sr_index = k, sr_block = st_block st, sr_block_hash = st_block_hash st\<rparr>]\<rparr>\<rparr>\<rparr>
      \<and> \<not> ss_stale (st_inner st)"
  using assms
  by (auto simp: storage_ref_def Let_def chan_send_def st_accessors split: if_splits option.splits)

lemma block_hash_ref_sends:
  assumes "block_hash_ref reply num st = (st', r)"
  shows "st' = st \<or> st' = st\<lparr>st_channels := (st_channels st)\<lparr>ch_block_hash := (ch_block_hash (st_channels st))
      \<lparr>chan_sent := chan_sent (ch_block_hash (st_channels st))
         @ [\<lparr>br_number = num, br_at_block_hash = st_block_hash st\<rparr>]\<rparr>\<rparr>\<rparr>
      \<and> \<not> ss_stale (st_inner st)"
  using assms
  by (auto simp: block_hash_ref_def Let_def chan_send_def st_accessors split: if_splits option.splits)

lemmas refs_send = basic_ref_sends code_by_hash_ref_sends storage_ref_sends block_hash_ref_sends

lemma served_more: "served S answers ctx fetch n sent asked m \<Longrightarrow> served S answers ctx fetch (Suc n) sent asked m"
  using served_grows [of S answers ctx fetch n sent asked m "Suc n" asked "[]"] by simp

lemma served_sent: "served S answers ctx fetch n sent asked m \<Longrightarrow>
    served S answers ctx fetch (Suc n) (sent @ [req]) asked m"
  by (erule served_grows) simp_all

lemma served_asked: "served S answers ctx fetch n sent asked m \<Longrightarrow>
    served S answers ctx fetch (Suc n) sent (Suc asked) m"
  using served_grows [of S answers ctx fetch n sent asked m "Suc n" "Suc asked" "[]"] by simp

text \<open>A step of a manager keeps it in its round.\<close>

lemma round_step:
  assumes "served_step S answers sent asked m m'" and "in_round idle asked m"
    and "served S answers ctx fetch n sent asked m"
  shows "in_round idle asked m'"
proof -
  from assms(1) have "mstep (tag_calls S) answers m m'" by (simp add: served_step_defs)
  from mstep_flushed [OF this] served_served_step [OF assms(3,1)] assms(2) show ?thesis
    by (auto simp: in_round_def served_def split: if_splits)
qed

lemma handle_channels:
  assumes "handle_notification E ob (x, fr) cm = Some cm'"
  shows "st_channels (cm_state cm') = st_channels (cm_state cm)"
  using assms by (rule handle_next) simp

lemma wired_step:
  assumes "sys_step E ob nodes s s'" and "wired E nodes fetch n s"
  shows "wired E nodes fetch (Suc n) s'"
  using assms(1)
proof cases
  case (account m)
  with assms(2) served_served_step [OF _ account(2)] round_step [OF account(2)] show ?thesis
    by (auto simp: wired_def intro: served_more)
next
  case (code m)
  with assms(2) served_served_step [OF _ code(2)] round_step [OF code(2)] show ?thesis
    by (auto simp: wired_def intro: served_more)
next
  case (storage m)
  with assms(2) served_served_step [OF _ storage(2)] round_step [OF storage(2)] show ?thesis
    by (auto simp: wired_def intro: served_more)
next
  case (block_hash m)
  with assms(2) served_served_step [OF _ block_hash(2)] round_step [OF block_hash(2)] show ?thesis
    by (auto simp: wired_def intro: served_more)
next
  case (read_account reply a st r)
  with assms(2) basic_ref_sends [OF read_account(2)] show ?thesis
    by (auto simp: wired_def intro: served_more served_sent)
next
  case (read_code reply h st r)
  with assms(2) code_by_hash_ref_sends [OF read_code(2)] show ?thesis
    by (auto simp: wired_def intro: served_more served_sent)
next
  case (read_storage reply a k st r)
  with assms(2) storage_ref_sends [OF read_storage(2)] show ?thesis
    by (auto simp: wired_def intro: served_more served_sent)
next
  case (read_block_hash reply num st r)
  with assms(2) block_hash_ref_sends [OF read_block_hash(2)] show ?thesis
    by (auto simp: wired_def intro: served_more served_sent)
next
  case (notify x)
  with assms(2) show ?thesis
    by (auto simp: wired_def in_round_def intro: served_asked)
next
  case (handle x cm)
  with assms(2) handle_channels [OF handle(4)] show ?thesis
    by (auto simp: wired_def in_round_def flush_done_def intro: served_more)
qed

section \<open>A simulator that was built and spawned\<close>

lemma manager_task_init:
  "manager_task (manager_new S ctx fetch) = msys_init (tag_calls S) ctx fetch"
  by (simp add: manager_task_def msys_init_def)

definition spawned_ok :: "fetch_config \<Rightarrow> ('c, 'w, 'l) spawned \<Rightarrow> bool" where
  "spawned_ok fetch sp \<longleftrightarrow>
    sp_account sp = manager_new account_spec [] fetch \<and> sp_code sp = manager_new code_spec fmempty fetch
    \<and> sp_storage sp = manager_new storage_spec () fetch
    \<and> sp_block_hash sp = manager_new block_hash_spec () fetch
    \<and> cm_state (sp_changeset sp) = static_state_new snapshot_default fresh_channels fetch
    \<and> 0 < fc_account fetch \<and> 0 < fc_code fetch \<and> 0 < fc_storage fetch \<and> 0 < fc_block_hash fetch"

lemma spawn_ok:
  assumes "builder_build b = Some rx" and "spawn rx = Some (sp, rx')"
  shows "spawned_ok (rx_fetch rx) sp"
  using assms clamp_pos
  by (auto simp: builder_build_def Let_def spawn_def take_receiver_def spawned_ok_def split: if_splits)

lemma msys_init_flushed [simp]: "sy_flushed (msys_init S ctx fetch) = []"
  by (simp add: msys_init_def)

lemma wired_start:
  assumes "spawned_ok fetch sp"
  shows "wired E nodes fetch 0 (system_start sp)"
  using assms
  by (simp add: wired_def spawned_ok_def system_start_def manager_task_init served_start
      static_state_new_def fresh_channels_def in_round_def)

lemma wired_run:
  assumes "sys_run E ob nodes sp n s" and "spawned_ok fetch sp"
  shows "wired E nodes fetch n s"
  using assms(1) by induction (auto intro: wired_start [OF assms(2)] wired_step)

section \<open>No notification is stuck\<close>

abbreviation sys_steps where
  "sys_steps E ob nodes \<equiv> (sys_step E ob nodes)\<^sup>*\<^sup>*"

text \<open>A manager that works by itself, inside the system.\<close>

lemma account_alone:
  assumes "(quiet_step account_spec (account_calls E nodes) (sm_asked s))\<^sup>*\<^sup>* (sm_account s) m"
  shows "sys_steps E ob nodes s (s\<lparr>sm_account := m\<rparr>)"
proof -
  have "sys_step E ob nodes (s\<lparr>sm_account := u\<rparr>) (s\<lparr>sm_account := v\<rparr>)"
    if "quiet_step account_spec (account_calls E nodes) (sm_asked s) u v" for u v
    using sys_step.account [of E nodes "s\<lparr>sm_account := u\<rparr>" v ob] quiet_served [OF that] by simp
  from lift_rtranclp [where T = "sys_step E ob nodes" and f = "\<lambda>m. s\<lparr>sm_account := m\<rparr>", OF assms this] show ?thesis by simp
qed

lemma code_alone:
  assumes "(quiet_step code_spec (code_calls E nodes) (sm_asked s))\<^sup>*\<^sup>* (sm_code s) m"
  shows "sys_steps E ob nodes s (s\<lparr>sm_code := m\<rparr>)"
proof -
  have "sys_step E ob nodes (s\<lparr>sm_code := u\<rparr>) (s\<lparr>sm_code := v\<rparr>)"
    if "quiet_step code_spec (code_calls E nodes) (sm_asked s) u v" for u v
    using sys_step.code [of E nodes "s\<lparr>sm_code := u\<rparr>" v ob] quiet_served [OF that] by simp
  from lift_rtranclp [where T = "sys_step E ob nodes" and f = "\<lambda>m. s\<lparr>sm_code := m\<rparr>", OF assms this] show ?thesis by simp
qed

lemma storage_alone:
  assumes "(quiet_step storage_spec (storage_calls nodes) (sm_asked s))\<^sup>*\<^sup>* (sm_storage s) m"
  shows "sys_steps E ob nodes s (s\<lparr>sm_storage := m\<rparr>)"
proof -
  have "sys_step E ob nodes (s\<lparr>sm_storage := u\<rparr>) (s\<lparr>sm_storage := v\<rparr>)"
    if "quiet_step storage_spec (storage_calls nodes) (sm_asked s) u v" for u v
    using sys_step.storage [of nodes "s\<lparr>sm_storage := u\<rparr>" v E ob] quiet_served [OF that] by simp
  from lift_rtranclp [where T = "sys_step E ob nodes" and f = "\<lambda>m. s\<lparr>sm_storage := m\<rparr>", OF assms this] show ?thesis by simp
qed

lemma block_hash_alone:
  assumes "(quiet_step block_hash_spec (block_hash_calls nodes) (sm_asked s))\<^sup>*\<^sup>* (sm_block_hash s) m"
  shows "sys_steps E ob nodes s (s\<lparr>sm_block_hash := m\<rparr>)"
proof -
  have "sys_step E ob nodes (s\<lparr>sm_block_hash := u\<rparr>) (s\<lparr>sm_block_hash := v\<rparr>)"
    if "quiet_step block_hash_spec (block_hash_calls nodes) (sm_asked s) u v" for u v
    using sys_step.block_hash [of nodes "s\<lparr>sm_block_hash := u\<rparr>" v E ob] quiet_served [OF that] by simp
  from lift_rtranclp [where T = "sys_step E ob nodes" and f = "\<lambda>m. s\<lparr>sm_block_hash := m\<rparr>", OF assms this] show ?thesis by simp
qed

text \<open>A flush that is due, with nothing else moving.\<close>

lemma flush_due:
  assumes "served S answers ctx fetch n sent asked m" and "in_round idle asked m" and "n < 2 ^ 64"
    and "0 < fs_permits S fetch" and "answering answers"
  shows "\<exists>m'. (quiet_step S answers asked)\<^sup>*\<^sup>* m m' \<and> length (sy_flushed m') = asked"
proof (cases "length (sy_flushed m) < asked")
  case True
  from assms(1,3) obtain k where k: "mreach (tag_calls S) answers ctx fetch k m" "k < 2 ^ 64"
    by (rule served_reach)
  from flush_comes [OF counts_reach [OF k] assms(4,5) True] obtain m' c where
    "(quiet_step S answers asked)\<^sup>*\<^sup>* m m'" "sy_flushed m' = sy_flushed m @ [c]" by blast
  moreover from True assms(2) have "Suc (length (sy_flushed m)) = asked"
    by (auto simp: in_round_def split: if_splits)
  ultimately show ?thesis by auto
next
  case False
  with assms(1) have "length (sy_flushed m) = asked" by (auto simp: served_def split: if_splits)
  then show ?thesis by blast
qed

lemma code_answering: "views \<noteq> {} \<Longrightarrow> answering (code_answers E views)"
  by (auto simp: answering_def code_answers_def)

lemma storage_answering: "views \<noteq> {} \<Longrightarrow> answering (storage_answers views)"
  by (auto simp: answering_def storage_answers_def)

lemma block_hash_answering: "views \<noteq> {} \<Longrightarrow> answering (block_hash_answers views)"
  by (auto simp: answering_def block_hash_answers_def)

lemma calls_answering:
  assumes "\<And>h. nodes h \<noteq> {}"
  shows "answering (account_calls E nodes)" and "answering (code_calls E nodes)"
    and "answering (storage_calls nodes)" and "answering (block_hash_calls nodes)"
proof -
  have "nodes_for nodes tag \<noteq> {}" for tag
    using assms by (auto simp: nodes_for_def split: option.split)
  then have "answering (account_answers E (nodes_for nodes tag))" "answering (code_answers E (nodes_for nodes tag))"
    "answering (storage_answers (nodes_for nodes tag))" "answering (block_hash_answers (nodes_for nodes tag))" for tag
    by (simp_all add: account_answering code_answering storage_answering block_hash_answering)
  then show "answering (account_calls E nodes)" "answering (code_calls E nodes)"
    "answering (storage_calls nodes)" "answering (block_hash_calls nodes)"
    by (simp_all add: answering_def calls_defs)
qed

text \<open>All four flushes, then the notification.\<close>

lemma notification_handled:
  fixes s :: "('c, 'w, 'l, 'e) system"
  assumes "wired E nodes fetch n s" and "n < 2 ^ 64" and "spawned_ok fetch sp"
    and "\<And>h. nodes h \<noteq> {}" and "sm_task s = Some x"
  shows "\<exists>s' fr. sys_steps E ob nodes s s' \<and> sm_task s' = None
    \<and> handle_notification E ob (x, fr) (sm_cm s) = Some (sm_cm s')"
proof -
  note parts = assms(1) [unfolded wired_def]
  note ans = calls_answering [where nodes = nodes, OF assms(4)]
  have pos: "0 < fs_permits account_spec fetch" "0 < fs_permits code_spec fetch"
    "0 < fs_permits storage_spec fetch" "0 < fs_permits block_hash_spec fetch"
    using assms(3) by (simp_all add: spawned_ok_def spec_defs)
  obtain a where a: "(quiet_step account_spec (account_calls E nodes) (sm_asked s))\<^sup>*\<^sup>* (sm_account s) a"
    "length (sy_flushed a) = sm_asked s"
    using flush_due [OF _ _ assms(2) pos(1) ans(1)] parts by blast
  obtain c where c: "(quiet_step code_spec (code_calls E nodes) (sm_asked s))\<^sup>*\<^sup>* (sm_code s) c"
    "length (sy_flushed c) = sm_asked s"
    using flush_due [OF _ _ assms(2) pos(2) ans(2)] parts by blast
  obtain st where st: "(quiet_step storage_spec (storage_calls nodes) (sm_asked s))\<^sup>*\<^sup>* (sm_storage s) st"
    "length (sy_flushed st) = sm_asked s"
    using flush_due [OF _ _ assms(2) pos(3) ans(3)] parts by blast
  obtain b where b: "(quiet_step block_hash_spec (block_hash_calls nodes) (sm_asked s))\<^sup>*\<^sup>* (sm_block_hash s) b"
    "length (sy_flushed b) = sm_asked s"
    using flush_due [OF _ _ assms(2) pos(4) ans(4)] parts by blast
  let ?s1 = "s\<lparr>sm_account := a\<rparr>" and ?s2 = "s\<lparr>sm_account := a, sm_code := c\<rparr>"
  let ?s3 = "s\<lparr>sm_account := a, sm_code := c, sm_storage := st\<rparr>"
  let ?s4 = "s\<lparr>sm_account := a, sm_code := c, sm_storage := st, sm_block_hash := b\<rparr>"
  have "sys_steps E ob nodes s ?s1" by (rule account_alone [OF a(1)])
  also have "sys_steps E ob nodes ?s1 ?s2" using code_alone [of E nodes ?s1 c ob] c(1) by simp
  also have "sys_steps E ob nodes ?s2 ?s3" using storage_alone [of nodes ?s2 st E ob] st(1) by simp
  also have "sys_steps E ob nodes ?s3 ?s4" using block_hash_alone [of nodes ?s3 b E ob] b(1) by simp
  finally have run: "sys_steps E ob nodes s ?s4" .
  have "\<forall>c \<in> set (chains_of x). cn_blocks_and_receipts c \<noteq> []" using parts assms(5) by blast
  then obtain cm where cm: "handle_notification E ob (x, flush_answers ?s4) (sm_cm s) = Some cm"
    using handle_None [of E ob x "flush_answers ?s4" "sm_cm s"] by auto
  have "flush_done ?s4" using a(2) c(2) st(2) b(2) by (simp add: flush_done_def)
  with cm assms(5) have "sys_step E ob nodes ?s4 (?s4\<lparr>sm_cm := cm, sm_task := None\<rparr>)"
    by (intro sys_step.handle) simp_all
  with run cm show ?thesis
    by (intro exI [of _ "?s4\<lparr>sm_cm := cm, sm_task := None\<rparr>"] exI [of _ "flush_answers ?s4"]) simp
qed

end
