(* ===== verification/System_Truth.thy ===== *)
theory System_Truth
  imports System
begin

text \<open>
  What the running simulator promises: in every state it can get into, with any number of
  simulations reading, fetches in flight and notifications coming in, a snapshot that is not
  stale holds the truth of its block, every reply is the truth of the block its request was
  made for, and so every read returns the truth of the block it started on.

  The promise rests on the node (an answer to a request made for a block comes from a state in
  which the node has that block as its block of that number) and on the execution extension
  (the bundle of a commit describes the step from the block it connects to).
\<close>

section \<open>What the environment has to keep to\<close>

definition blank :: "('c, 'w, 'l) state_snapshot \<Rightarrow> bool" where
  "blank p \<longleftrightarrow> ss_accounts p = fmempty \<and> ss_storage p = fmempty \<and> ss_block_hashes p = fmempty"

text \<open>No simulation has asked for anything at this block.\<close>

definition unread :: "b256 \<Rightarrow> ('c, 'w, 'l, 'e) system \<Rightarrow> bool" where
  "unread h s \<longleftrightarrow> h \<notin> ar_block_hash ` set (sent_account s)
    \<and> h \<notin> sr_block_hash ` set (sent_storage s) \<and> h \<notin> br_at_block_hash ` set (sent_block_hash s)"

text \<open>
  A notification is sound when it arrives: it leaves the state stale, or it moves it to a block
  whose step from the present one its chain describes.  From a blank snapshot that nobody has
  read, a commit may move anywhere.
\<close>

definition sound ::
  "world \<Rightarrow> 'c env \<Rightarrow> ('c \<Rightarrow> bytes) \<Rightarrow> ('c, 'w, 'l) notification \<Rightarrow> ('c, 'w, 'l, 'e) system \<Rightarrow> bool" where
  "sound W E ob n s \<longleftrightarrow> bundles_sound E ob n
    \<and> (let cs = tip_step (n, no_caches) (view (sm_cm s)); p = snapshot_of s
       in cs_stale cs
          \<or> cs_block cs = wd_number W (cs_block_hash cs)
            \<and> (case n of
                 ChainCommitted new \<Rightarrow>
                   \<not> ss_stale p \<and> executes W (ss_block_hash p) (cs_block_hash cs) new
                   \<or> blank p \<and> unread (ss_block_hash p) s \<and> ids_true W (cs_block_hash cs) new
               | ChainReorged old new \<Rightarrow>
                   \<not> ss_stale p \<and> (\<exists>f. chain_first old = Some f
                     \<and> forks W (ss_block_hash p) (saturating_pred (sh_number f)) (cs_block_hash cs) new)
               | ChainReverted old \<Rightarrow> True))"

definition honest_step ::
  "world \<Rightarrow> 'c env \<Rightarrow> ('c \<Rightarrow> bytes) \<Rightarrow> (b256 \<Rightarrow> 'e node set) \<Rightarrow> ('c, 'w, 'l, 'e) system
    \<Rightarrow> ('c, 'w, 'l, 'e) system \<Rightarrow> bool" where
  "honest_step W E ob nodes s s' \<longleftrightarrow> sys_step E ob nodes s s'
    \<and> (\<forall>x. sm_task s = Some x \<and> sm_task s' = None \<longrightarrow> sound W E ob x s)"

inductive honest_run ::
  "world \<Rightarrow> 'c env \<Rightarrow> ('c \<Rightarrow> bytes) \<Rightarrow> (b256 \<Rightarrow> 'e node set) \<Rightarrow> ('c, 'w, 'l) spawned \<Rightarrow> nat
    \<Rightarrow> ('c, 'w, 'l, 'e) system \<Rightarrow> bool"
  for W E ob nodes sp where
  start: "honest_run W E ob nodes sp 0 (system_start sp)"
| step: "honest_run W E ob nodes sp n s \<Longrightarrow> honest_step W E ob nodes s s' \<Longrightarrow>
    honest_run W E ob nodes sp (Suc n) s'"

text \<open>
  The node speaks the truth of the block a request was made for; block 0 stands for the hash 0
  the simulator starts from.
\<close>

definition truthful_nodes :: "world \<Rightarrow> 'c env \<Rightarrow> (b256 \<Rightarrow> 'e node set) \<Rightarrow> bool" where
  "truthful_nodes W E nodes \<longleftrightarrow>
    wd_number W 0 = 0 \<and> (\<forall>h. \<forall>nd \<in> nodes h. truthful W {h} E nd)"

lemma honest_run_sys: "honest_run W E ob nodes sp n s \<Longrightarrow> sys_run E ob nodes sp n s"
  by (induction rule: honest_run.induct) (auto simp: honest_step_def intro: sys_run.intros)

lemma honest_run_more:
  assumes "(honest_step W E ob nodes ^^ k) s s'" and "honest_run W E ob nodes sp n s"
  shows "honest_run W E ob nodes sp (n + k) s'"
  using assms
proof (induction k arbitrary: s')
  case (Suc k)
  then show ?case by (auto intro: honest_run.step)
qed simp

section \<open>Answers are true\<close>

lemma account_call_true:
  assumes "truthful_nodes W E nodes" and "n = wd_number W h"
    and "account_calls E nodes (Some h, a, n) (Inr (Some i))"
  shows "ai_core i = wd_account W h a"
  using assms by (auto simp: truthful_nodes_def truthful_def calls_defs nodes_for_def account_answers_def)

lemma storage_call_true:
  assumes "truthful_nodes W E nodes" and "n = wd_number W h"
    and "storage_calls nodes (Some h, a, k, n) (Inr v)"
  shows "v = wd_slot W h (a, k)"
  using assms
  by (auto simp: truthful_nodes_def truthful_def calls_defs nodes_for_def storage_answers_def dest: sym)

lemma block_hash_call_true:
  assumes "truthful_nodes W E nodes" and "n \<le> wd_number W h"
    and "block_hash_calls nodes (Some h, n) (Inr x)"
  shows "x = wd_ancestor W h n"
  using assms
  by (auto simp: truthful_nodes_def truthful_def calls_defs nodes_for_def block_hash_answers_def dest: sym)

section \<open>The invariant\<close>

definition asked_right :: "world \<Rightarrow> ('c, 'w, 'l, 'e) system \<Rightarrow> bool" where
  "asked_right W s \<longleftrightarrow>
    (\<forall>req \<in> set (sent_account s). ar_block req = wd_number W (ar_block_hash req))
    \<and> (\<forall>req \<in> set (sent_storage s). sr_block req = wd_number W (sr_block_hash req))
    \<and> (\<forall>req \<in> set (sent_block_hash s). br_number req \<le> wd_number W (br_at_block_hash req))"

definition true_state :: "world \<Rightarrow> ('c, 'w, 'l, 'e) system \<Rightarrow> bool" where
  "true_state W s \<longleftrightarrow> asked_right W s \<and> coherent W (snapshot_of s)
    \<and> (\<not> ss_stale (snapshot_of s) \<longrightarrow> ss_block (snapshot_of s) = wd_number W (ss_block_hash (snapshot_of s)))"

lemma account_called:
  assumes "truthful_nodes W E nodes" and "\<forall>req \<in> set sent. ar_block req = wd_number W (ar_block_hash req)"
    and "called_for account_spec (account_calls E nodes) sent tag a (Some i)"
  shows "\<exists>h. tag = Some h \<and> h \<in> ar_block_hash ` set sent \<and> ai_core i = wd_account W h a"
  using assms(2,3) account_call_true [OF assms(1)]
  by (fastforce simp: called_for_def account_spec_def)

lemma storage_called:
  assumes "truthful_nodes W E nodes" and "\<forall>req \<in> set sent. sr_block req = wd_number W (sr_block_hash req)"
    and "called_for storage_spec (storage_calls nodes) sent tag (a, k) v"
  shows "\<exists>h. tag = Some h \<and> h \<in> sr_block_hash ` set sent \<and> v = wd_slot W h (a, k)"
  using assms(2,3) storage_call_true [OF assms(1)]
  by (fastforce simp: called_for_def storage_spec_def)

lemma block_hash_called:
  assumes "truthful_nodes W E nodes" and "\<forall>req \<in> set sent. br_number req \<le> wd_number W (br_at_block_hash req)"
    and "called_for block_hash_spec (block_hash_calls nodes) sent tag k x"
  shows "\<exists>h. tag = Some h \<and> h \<in> br_at_block_hash ` set sent \<and> x = wd_ancestor W h k"
  using assms(2,3) block_hash_call_true [OF assms(1)]
  by (fastforce simp: called_for_def block_hash_spec_def)

lemma code_called:
  assumes "called_for code_spec (code_calls E nodes) sent tag h c"
  shows "\<exists>bs. code_hash_of E bs = h \<and> c = en_new_raw E bs"
  using assms
  by (auto simp: called_for_def code_spec_def code_calls_def code_answers_def
      dest!: get_code_by_hash_Inr [OF sym])

text \<open>What comes out of the flushes.\<close>

lemma spec_caches:
  "fs_into_cache account_spec h d = \<lparr>tc_block_hash = h, tc_data = d\<rparr>"
  "fs_into_cache storage_spec h d' = \<lparr>tc_block_hash = h, tc_data = d'\<rparr>"
  "fs_into_cache block_hash_spec h d'' = \<lparr>tc_block_hash = h, tc_data = d''\<rparr>"
  "fs_into_cache code_spec h d3 = \<lparr>cc_data = d3\<rparr>"
  by (simp_all add: spec_defs)

lemma flushed_account:
  assumes "wired E nodes fetch n s" and "n < 2 ^ 64" and "truthful_nodes W E nodes" and "asked_right W s"
    and "c \<in> set (sy_flushed (sm_account s))" and "fmlookup (tc_data c) a = Some i"
  shows "tc_block_hash c \<in> ar_block_hash ` set (sent_account s)
    \<and> ai_core i = wd_account W (tc_block_hash c) a"
proof -
  have "served account_spec (account_calls E nodes) [] fetch n (sent_account s) (sm_asked s) (sm_account s)"
    using assms(1) by (simp add: wired_def)
  from acct.served_flushed [OF this assms(2,5)] obtain h data where
    h: "c = fs_into_cache account_spec h data" and d: "\<And>k v. fmlookup data k = Some v \<Longrightarrow>
      \<exists>tag. tag_ok tag h \<and> called_for account_spec (account_calls E nodes) (sent_account s) tag k (fs_hit account_spec v)"
    by blast
  from h assms(6) have "fmlookup data a = Some i" and "tc_block_hash c = h"
    by (simp_all add: spec_caches)
  with d obtain tag where "tag_ok tag (tc_block_hash c)"
    "called_for account_spec (account_calls E nodes) (sent_account s) tag a (Some i)"
    by (metis account_spec_tags(2))
  with account_called [OF assms(3) _ this(2)] assms(4) show ?thesis
    unfolding asked_right_def tag_ok_def by (metis option.distinct(1) option.inject)
qed

lemma flushed_storage:
  assumes "wired E nodes fetch n s" and "n < 2 ^ 64" and "truthful_nodes W E nodes" and "asked_right W s"
    and "c \<in> set (sy_flushed (sm_storage s))" and "fmlookup (tc_data c) (a, k) = Some v"
  shows "tc_block_hash c \<in> sr_block_hash ` set (sent_storage s)
    \<and> v = wd_slot W (tc_block_hash c) (a, k)"
proof -
  have "served storage_spec (storage_calls nodes) () fetch n (sent_storage s) (sm_asked s) (sm_storage s)"
    using assms(1) by (simp add: wired_def)
  from stor.served_flushed [OF this assms(2,5)] obtain h data where
    h: "c = fs_into_cache storage_spec h data" and d: "\<And>k v. fmlookup data k = Some v \<Longrightarrow>
      \<exists>tag. tag_ok tag h \<and> called_for storage_spec (storage_calls nodes) (sent_storage s) tag k (fs_hit storage_spec v)"
    by blast
  from h assms(6) have "fmlookup data (a, k) = Some v" and "tc_block_hash c = h"
    by (simp_all add: spec_caches)
  with d obtain tag where "tag_ok tag (tc_block_hash c)"
    "called_for storage_spec (storage_calls nodes) (sent_storage s) tag (a, k) v"
    by (metis storage_spec_tags(2))
  with storage_called [OF assms(3) _ this(2)] assms(4) show ?thesis
    unfolding asked_right_def tag_ok_def by (metis option.distinct(1) option.inject)
qed

lemma flushed_block_hash:
  assumes "wired E nodes fetch n s" and "n < 2 ^ 64" and "truthful_nodes W E nodes" and "asked_right W s"
    and "c \<in> set (sy_flushed (sm_block_hash s))" and "fmlookup (tc_data c) k = Some x"
  shows "tc_block_hash c \<in> br_at_block_hash ` set (sent_block_hash s)
    \<and> x = wd_ancestor W (tc_block_hash c) k"
proof -
  have "served block_hash_spec (block_hash_calls nodes) () fetch n (sent_block_hash s) (sm_asked s) (sm_block_hash s)"
    using assms(1) by (simp add: wired_def)
  from bhash.served_flushed [OF this assms(2,5)] obtain h data where
    h: "c = fs_into_cache block_hash_spec h data" and d: "\<And>k v. fmlookup data k = Some v \<Longrightarrow>
      \<exists>tag. tag_ok tag h \<and> called_for block_hash_spec (block_hash_calls nodes) (sent_block_hash s) tag k (fs_hit block_hash_spec v)"
    by blast
  from h assms(6) have "fmlookup data k = Some x" and "tc_block_hash c = h"
    by (simp_all add: spec_caches)
  with d obtain tag where "tag_ok tag (tc_block_hash c)"
    "called_for block_hash_spec (block_hash_calls nodes) (sent_block_hash s) tag k x"
    by (metis block_hash_spec_tags(2))
  with block_hash_called [OF assms(3) _ this(2)] assms(4) show ?thesis
    unfolding asked_right_def tag_ok_def by (metis option.distinct(1) option.inject)
qed

lemma flushed_code:
  assumes "wired E nodes fetch n s" and "n < 2 ^ 64" and "c \<in> set (sy_flushed (sm_code s))"
  shows "code_true E (cc_data c)"
proof -
  have "served code_spec (code_calls E nodes) fmempty fetch n (sent_code s) (sm_asked s) (sm_code s)"
    using assms(1) by (simp add: wired_def)
  from code.served_flushed [OF this assms(2,3)] obtain h data where
    "c = fs_into_cache code_spec h data" and d: "\<And>k v. fmlookup data k = Some v \<Longrightarrow>
      \<exists>tag. tag_ok tag h \<and> called_for code_spec (code_calls E nodes) (sent_code s) tag k (fs_hit code_spec v)"
    by blast
  moreover have "\<exists>bs. code_hash_of E bs = k \<and> v = en_new_raw E bs" if "fmlookup data k = Some v" for k v
    using d [OF that] code_called by (fastforce simp: code_spec_def)
  ultimately show ?thesis by (simp add: code_true_def code_spec_def)
qed

lemma flush_answers_member:
  assumes "wired E nodes fetch n s" and "sm_task s = Some x" and "flush_done s"
  shows "last (sy_flushed (sm_account s)) \<in> set (sy_flushed (sm_account s))"
    and "last (sy_flushed (sm_code s)) \<in> set (sy_flushed (sm_code s))"
    and "last (sy_flushed (sm_storage s)) \<in> set (sy_flushed (sm_storage s))"
    and "last (sy_flushed (sm_block_hash s)) \<in> set (sy_flushed (sm_block_hash s))"
  using assms by (auto simp: wired_def flush_done_def intro!: last_in_set)

lemma answers_true:
  assumes "wired E nodes fetch n s" and "n < 2 ^ 64" and "truthful_nodes W E nodes" and "asked_right W s"
    and "sm_task s = Some x" and "flush_done s"
  shows "caches_true W (flush_answers s)"
  using flush_answers_member [OF assms(1,5,6)] flushed_account [OF assms(1-4)]
    flushed_storage [OF assms(1-4)] flushed_block_hash [OF assms(1-4)]
  by (auto simp: caches_true_def flush_answers_def accounts_true_def slots_true_def hashes_true_def)

text \<open>Where nobody has asked, no cache can be used.\<close>

lemma usable_None:
  "(\<And>v. fmlookup (tc_data c) k = Some v \<Longrightarrow> tc_block_hash c \<noteq> h) \<Longrightarrow> usable c h k = None"
  by (cases "usable c h k") (auto dest: usable_Some)

lemma unread_unusable:
  assumes "wired E nodes fetch n s" and "n < 2 ^ 64" and "truthful_nodes W E nodes" and "asked_right W s"
    and "sm_task s = Some x" and "flush_done s"
    and "blank (snapshot_of s)" and "unread h s" and "h = ss_block_hash (snapshot_of s)"
  shows "holds_nothing (snapshot_of s) (flush_answers s)"
proof -
  note m = flush_answers_member [OF assms(1,5,6)]
  from assms(8) have u: "h \<notin> ar_block_hash ` set (sent_account s)"
    "h \<notin> sr_block_hash ` set (sent_storage s)" "h \<notin> br_at_block_hash ` set (sent_block_hash s)"
    by (simp_all add: unread_def)
  have "usable (last (sy_flushed (sm_account s))) h a = None" for a
    by (rule usable_None) (use flushed_account [OF assms(1-4) m(1)] u(1) in blast)
  moreover have "usable (last (sy_flushed (sm_storage s))) h (a, k) = None" for a k
    by (rule usable_None) (use flushed_storage [OF assms(1-4) m(3)] u(2) in blast)
  moreover have "usable (last (sy_flushed (sm_block_hash s))) h k = None" for k
    by (rule usable_None) (use flushed_block_hash [OF assms(1-4) m(4)] u(3) in blast)
  ultimately show ?thesis
    using assms(7) by (simp add: holds_nothing_def blank_def flush_answers_def unwrap_or_def assms(9) [symmetric])
qed

text \<open>One step.\<close>

lemma tip_step_any: "tip_step (n, fr) cs = tip_step (n, fr') cs"
  by (cases n) simp_all

lemma sound_next:
  assumes "next_snapshot E ob (x, flush_answers s) (sm_cm s) = Some p" and "sound W E ob x s"
    and "wired E nodes fetch n s" and "n < 2 ^ 64" and "truthful_nodes W E nodes" and "true_state W s"
    and "sm_task s = Some x" and "flush_done s"
  shows "coherent W p \<and> (\<not> ss_stale p \<longrightarrow> ss_block p = wd_number W (ss_block_hash p))"
proof (cases "ss_stale p")
  case False
  let ?cs = "\<lparr>cs_block = ss_block p, cs_block_hash = ss_block_hash p, cs_stale = ss_stale p\<rparr>"
  have cs: "tip_step (x, no_caches) (view (sm_cm s)) = ?cs"
    using next_snapshot_tip [OF assms(1)] tip_step_any [of x no_caches _ "flush_answers s"] by simp
  have right: "asked_right W s" and coh: "coherent W (snapshot_of s)"
    using assms(6) by (simp_all add: true_state_def)
  from assms(2) False have num: "ss_block p = wd_number W (ss_block_hash p)"
    and sd: "case x of
        ChainCommitted new \<Rightarrow>
          \<not> ss_stale (snapshot_of s) \<and> executes W (ss_block_hash (snapshot_of s)) (ss_block_hash p) new
          \<or> blank (snapshot_of s) \<and> unread (ss_block_hash (snapshot_of s)) s \<and> ids_true W (ss_block_hash p) new
      | ChainReorged old new \<Rightarrow>
          \<not> ss_stale (snapshot_of s) \<and> (\<exists>f. chain_first old = Some f
            \<and> forks W (ss_block_hash (snapshot_of s)) (saturating_pred (sh_number f)) (ss_block_hash p) new)
      | ChainReverted old \<Rightarrow> True"
    unfolding sound_def cs Let_def by (simp_all cong: notification.case_cong)
  have true: "caches_true W (flush_answers s)"
    by (rule answers_true [OF assms(3-5) right assms(7,8)])
  have "well_behaved W (x, flush_answers s) (sm_cm s)"
  proof (cases x)
    case (ChainCommitted new)
    from assms(1) ChainCommitted obtain t where t: "chain_tip_of new = Some t"
      by (auto split: option.splits)
    with cs ChainCommitted assms(1) False have "sh_hash t = ss_block_hash p"
      by (auto split: option.splits if_splits)
    with sd ChainCommitted t true unread_unusable [OF assms(3-5) right assms(7,8) _ _ refl]
    show ?thesis by auto
  next
    case (ChainReorged old new)
    from assms(1) ChainReorged obtain f t where t: "chain_first old = Some f" "chain_tip_of new = Some t"
      by (auto split: option.splits)
    with cs ChainReorged assms(1) False have "sh_hash t = ss_block_hash p"
      by (auto split: option.splits if_splits)
    with sd ChainReorged t show ?thesis by auto
  next
    case (ChainReverted old)
    then show ?thesis by simp
  qed
  from next_snapshot_coherent [OF assms(1) this coh] num show ?thesis by simp
qed simp

lemma true_state_cong:
  assumes "state_of s' = state_of s"
  shows "true_state W s' = true_state W s"
  using assms by (simp add: true_state_def asked_right_def)

lemma true_state_handle:
  assumes "handle_notification E ob (x, flush_answers s) (sm_cm s) = Some cm" and "sound W E ob x s"
    and "wired E nodes fetch n s" and "n < 2 ^ 64" and "truthful_nodes W E nodes" and "true_state W s"
    and "sm_task s = Some x" and "flush_done s"
  shows "true_state W (s\<lparr>sm_cm := cm, sm_task := None\<rparr>)"
proof -
  from assms(1) obtain p where p: "next_snapshot E ob (x, flush_answers s) (sm_cm s) = Some p"
    "cm = (sm_cm s)\<lparr>cm_state := swap p (cm_state (sm_cm s)),
        cm_ready_signal := cm_ready_signal (sm_cm s) \<and> ss_stale p,
        cm_trace := cm_trace (sm_cm s) @ [EfFlush, EfSwap p] @ told x p (sm_cm s)\<rparr>"
    by (rule handle_next)
  from sound_next [OF p(1) assms(2-8)] assms(6) p(2) show ?thesis
    by (simp add: true_state_def asked_right_def)
qed

lemma true_state_step:
  assumes "honest_step W E ob nodes s s'" and "wired E nodes fetch n s" and "n < 2 ^ 64"
    and "truthful_nodes W E nodes" and "true_state W s"
  shows "true_state W s'"
proof -
  from assms(1) have st: "sys_step E ob nodes s s'"
    and snd: "sm_task s = Some x \<Longrightarrow> sm_task s' = None \<Longrightarrow> sound W E ob x s" for x
    by (simp_all add: honest_step_def)
  note ts = assms(5) [unfolded true_state_def asked_right_def]
  from st show ?thesis
  proof cases
    case (read_account reply a st r)
    with ts basic_ref_sends [OF read_account(2)] show ?thesis
      by (auto simp: true_state_def asked_right_def st_accessors)
  next
    case (read_code reply h st r)
    with ts code_by_hash_ref_sends [OF read_code(2)] show ?thesis
      by (auto simp: true_state_def asked_right_def st_accessors)
  next
    case (read_storage reply a k st r)
    with ts storage_ref_sends [OF read_storage(2)] show ?thesis
      by (auto simp: true_state_def asked_right_def st_accessors)
  next
    case (read_block_hash reply num st r)
    with ts block_hash_ref_sends [OF read_block_hash(2)] show ?thesis
      by (auto simp: true_state_def asked_right_def st_accessors)
  next
    case (handle x cm)
    with true_state_handle [OF handle(4) snd assms(2-5) handle(2,3)] show ?thesis by simp
  qed (use assms(5) in \<open>simp_all add: true_state_def asked_right_def\<close>)
qed

lemma true_state_start:
  assumes "spawned_ok fetch sp" and "truthful_nodes W E nodes"
  shows "true_state W (system_start sp)"
  using assms
  by (simp add: true_state_def asked_right_def system_start_def spawned_ok_def static_state_new_def
      fresh_channels_def snapshot_default_def coherent_def truthful_nodes_def)

lemma true_state_run:
  assumes "honest_run W E ob nodes sp n s" and "n < 2 ^ 64" and "spawned_ok fetch sp"
    and "truthful_nodes W E nodes"
  shows "true_state W s"
  using assms(1,2)
proof (induction rule: honest_run.induct)
  case start
  show ?case by (rule true_state_start [OF assms(3,4)])
next
  case (step n s s')
  from step.prems have "n < 2 ^ 64" by simp
  from true_state_step [OF step.hyps(2) wired_run [OF honest_run_sys [OF step.hyps(1)] assms(3)]
      this assms(4) step.IH [OF this]] show ?case .
qed

text \<open>Code needs no truthful node: what is fetched is checked against its hash.\<close>

lemma code_true_step:
  assumes "honest_step W E ob nodes s s'" and "wired E nodes fetch n s" and "n < 2 ^ 64"
    and "code_true E (ss_code (snapshot_of s))"
  shows "code_true E (ss_code (snapshot_of s'))"
proof -
  from assms(1) have st: "sys_step E ob nodes s s'"
    and snd: "sm_task s = Some x \<Longrightarrow> sm_task s' = None \<Longrightarrow> sound W E ob x s" for x
    by (simp_all add: honest_step_def)
  from st show ?thesis
  proof cases
    case (read_account reply a st r)
    with assms(4) basic_ref_sends [OF read_account(2)] show ?thesis by auto
  next
    case (read_code reply h st r)
    with assms(4) code_by_hash_ref_sends [OF read_code(2)] show ?thesis by auto
  next
    case (read_storage reply a k st r)
    with assms(4) storage_ref_sends [OF read_storage(2)] show ?thesis by auto
  next
    case (read_block_hash reply num st r)
    with assms(4) block_hash_ref_sends [OF read_block_hash(2)] show ?thesis by auto
  next
    case (handle x cm)
    then have "sound W E ob x s" by (intro snd) simp_all
    moreover have "code_true E (cc_data (last (sy_flushed (sm_code s))))"
      by (rule flushed_code [OF assms(2,3) flush_answers_member(2) [OF assms(2) handle(2,3)]])
    ultimately have w: "code_well_behaved E ob (x, flush_answers s)"
      by (simp add: sound_def flush_answers_def)
    from handle(4) obtain p where p: "next_snapshot E ob (x, flush_answers s) (sm_cm s) = Some p"
      "st_inner (cm_state cm) = p"
      by (rule handle_next) simp
    from next_snapshot_code [OF p(1) w assms(4)] p(2) handle(1) show ?thesis by simp
  qed (use assms(4) in simp_all)
qed

lemma code_true_run:
  assumes "honest_run W E ob nodes sp n s" and "n < 2 ^ 64" and "spawned_ok fetch sp"
  shows "code_true E (ss_code (snapshot_of s))"
  using assms(1,2)
proof (induction rule: honest_run.induct)
  case start
  show ?case using assms(3)
    by (simp add: system_start_def spawned_ok_def static_state_new_def snapshot_default_def code_true_def)
next
  case (step n s s')
  from step.prems have "n < 2 ^ 64" by simp
  from code_true_step [OF step.hyps(2) wired_run [OF honest_run_sys [OF step.hyps(1)] assms(3)]
      this step.IH [OF this]] show ?case .
qed

text \<open>Replies.\<close>

lemma account_replied:
  assumes "wired E nodes fetch n s" and "n < 2 ^ 64" and "truthful_nodes W E nodes" and "asked_right W s"
    and "(t, Inr (Some i)) \<in> set (sy_replies (sm_account s))"
  shows "t < length (sent_account s)
    \<and> ai_core i = wd_account W (ar_block_hash (sent_account s ! t)) (ar_address (sent_account s ! t))"
proof -
  have "served account_spec (account_calls E nodes) [] fetch n (sent_account s) (sm_asked s) (sm_account s)"
    using assms(1) by (simp add: wired_def)
  from acct.served_reply [OF this assms(2,5)] have "t < length (sent_account s)"
    and c: "called_for account_spec (account_calls E nodes) (sent_account s)
        (Some (ar_block_hash (sent_account s ! t))) (ar_address (sent_account s ! t)) (Some i)"
    by (simp_all add: account_spec_def)
  with account_called [OF assms(3) _ c] assms(4) show ?thesis by (simp add: asked_right_def)
qed

lemma storage_replied:
  assumes "wired E nodes fetch n s" and "n < 2 ^ 64" and "truthful_nodes W E nodes" and "asked_right W s"
    and "(t, Inr v) \<in> set (sy_replies (sm_storage s))"
  shows "t < length (sent_storage s)
    \<and> v = wd_slot W (sr_block_hash (sent_storage s ! t))
            (sr_address (sent_storage s ! t), sr_index (sent_storage s ! t))"
proof -
  have "served storage_spec (storage_calls nodes) () fetch n (sent_storage s) (sm_asked s) (sm_storage s)"
    using assms(1) by (simp add: wired_def)
  from stor.served_reply [OF this assms(2,5)] have "t < length (sent_storage s)"
    and c: "called_for storage_spec (storage_calls nodes) (sent_storage s)
        (Some (sr_block_hash (sent_storage s ! t)))
        (sr_address (sent_storage s ! t), sr_index (sent_storage s ! t)) v"
    by (simp_all add: storage_spec_def)
  with storage_called [OF assms(3) _ c] assms(4) show ?thesis by (simp add: asked_right_def)
qed

lemma block_hash_replied:
  assumes "wired E nodes fetch n s" and "n < 2 ^ 64" and "truthful_nodes W E nodes" and "asked_right W s"
    and "(t, Inr x) \<in> set (sy_replies (sm_block_hash s))"
  shows "t < length (sent_block_hash s)
    \<and> x = wd_ancestor W (br_at_block_hash (sent_block_hash s ! t)) (br_number (sent_block_hash s ! t))"
proof -
  have "served block_hash_spec (block_hash_calls nodes) () fetch n (sent_block_hash s) (sm_asked s) (sm_block_hash s)"
    using assms(1) by (simp add: wired_def)
  from bhash.served_reply [OF this assms(2,5)] have "t < length (sent_block_hash s)"
    and c: "called_for block_hash_spec (block_hash_calls nodes) (sent_block_hash s)
        (Some (br_at_block_hash (sent_block_hash s ! t))) (br_number (sent_block_hash s ! t)) x"
    by (simp_all add: block_hash_spec_def)
  with block_hash_called [OF assms(3) _ c] assms(4) show ?thesis by (simp add: asked_right_def)
qed

lemma code_replied:
  assumes "wired E nodes fetch n s" and "n < 2 ^ 64" and "(t, Inr c) \<in> set (sy_replies (sm_code s))"
  shows "t < length (sent_code s)
    \<and> (\<exists>bs. code_hash_of E bs = cr_code_hash (sent_code s ! t) \<and> c = en_new_raw E bs)"
proof -
  have "served code_spec (code_calls E nodes) fmempty fetch n (sent_code s) (sm_asked s) (sm_code s)"
    using assms(1) by (simp add: wired_def)
  from code.served_reply [OF this assms(2,3)] have "t < length (sent_code s)"
    and c: "called_for code_spec (code_calls E nodes) (sent_code s) None (cr_code_hash (sent_code s ! t)) c"
    by (simp_all add: code_spec_def)
  with code_called [OF c] show ?thesis by blast
qed

text \<open>What has been sent stays where it is.\<close>

lemma sent_grows:
  assumes "sys_step E ob nodes s s'"
  shows "(\<exists>xs. sent_account s' = sent_account s @ xs) \<and> (\<exists>xs. sent_code s' = sent_code s @ xs)
    \<and> (\<exists>xs. sent_storage s' = sent_storage s @ xs) \<and> (\<exists>xs. sent_block_hash s' = sent_block_hash s @ xs)"
  using assms
proof cases
  case (read_account reply a st r)
  with basic_ref_sends [OF read_account(2)] show ?thesis by auto
next
  case (read_code reply h st r)
  with code_by_hash_ref_sends [OF read_code(2)] show ?thesis by auto
next
  case (read_storage reply a k st r)
  with storage_ref_sends [OF read_storage(2)] show ?thesis by auto
next
  case (read_block_hash reply num st r)
  with block_hash_ref_sends [OF read_block_hash(2)] show ?thesis by auto
next
  case (handle x cm)
  with handle_channels [OF handle(4)] show ?thesis by simp
qed simp_all

lemma sent_grows_run:
  assumes "(honest_step W E ob nodes ^^ k) s s'"
  shows "(\<exists>xs. sent_account s' = sent_account s @ xs) \<and> (\<exists>xs. sent_code s' = sent_code s @ xs)
    \<and> (\<exists>xs. sent_storage s' = sent_storage s @ xs) \<and> (\<exists>xs. sent_block_hash s' = sent_block_hash s @ xs)"
  using assms
proof (induction k arbitrary: s')
  case (Suc k)
  from Suc.prems obtain u where u: "(honest_step W E ob nodes ^^ k) s u" "honest_step W E ob nodes u s'"
    by (rule relpowp_Suc_E)
  from u(2) have "sys_step E ob nodes u s'" by (simp add: honest_step_def)
  from Suc.IH [OF u(1)] sent_grows [OF this] show ?case by auto
qed simp

section \<open>Managers in an honest run\<close>

text \<open>As long as no notification is finished, every step is honest.\<close>

lemma honest_stepI:
  "sys_step E ob nodes s s' \<Longrightarrow> sm_task s' = sm_task s \<Longrightarrow> honest_step W E ob nodes s s'"
  by (auto simp: honest_step_def)

lemma account_honest:
  assumes "(served_step account_spec (account_calls E nodes) (sent_account s) (sm_asked s) ^^ k) (sm_account s) m"
  shows "(honest_step W E ob nodes ^^ k) s (s\<lparr>sm_account := m\<rparr>)"
proof -
  have "honest_step W E ob nodes (s\<lparr>sm_account := u\<rparr>) (s\<lparr>sm_account := v\<rparr>)"
    if "served_step account_spec (account_calls E nodes) (sent_account s) (sm_asked s) u v" for u v
    using sys_step.account [of E nodes "s\<lparr>sm_account := u\<rparr>" v ob] that
    by (intro honest_stepI) simp_all
  from lift_relpowp [where T = "honest_step W E ob nodes" and f = "\<lambda>m. s\<lparr>sm_account := m\<rparr>", OF assms this] show ?thesis by simp
qed

lemma code_honest:
  assumes "(served_step code_spec (code_calls E nodes) (sent_code s) (sm_asked s) ^^ k) (sm_code s) m"
  shows "(honest_step W E ob nodes ^^ k) s (s\<lparr>sm_code := m\<rparr>)"
proof -
  have "honest_step W E ob nodes (s\<lparr>sm_code := u\<rparr>) (s\<lparr>sm_code := v\<rparr>)"
    if "served_step code_spec (code_calls E nodes) (sent_code s) (sm_asked s) u v" for u v
    using sys_step.code [of E nodes "s\<lparr>sm_code := u\<rparr>" v ob] that
    by (intro honest_stepI) simp_all
  from lift_relpowp [where T = "honest_step W E ob nodes" and f = "\<lambda>m. s\<lparr>sm_code := m\<rparr>", OF assms this] show ?thesis by simp
qed

lemma storage_honest:
  assumes "(served_step storage_spec (storage_calls nodes) (sent_storage s) (sm_asked s) ^^ k) (sm_storage s) m"
  shows "(honest_step W E ob nodes ^^ k) s (s\<lparr>sm_storage := m\<rparr>)"
proof -
  have "honest_step W E ob nodes (s\<lparr>sm_storage := u\<rparr>) (s\<lparr>sm_storage := v\<rparr>)"
    if "served_step storage_spec (storage_calls nodes) (sent_storage s) (sm_asked s) u v" for u v
    using sys_step.storage [of nodes "s\<lparr>sm_storage := u\<rparr>" v E ob] that
    by (intro honest_stepI) simp_all
  from lift_relpowp [where T = "honest_step W E ob nodes" and f = "\<lambda>m. s\<lparr>sm_storage := m\<rparr>", OF assms this] show ?thesis by simp
qed

lemma block_hash_honest:
  assumes "(served_step block_hash_spec (block_hash_calls nodes) (sent_block_hash s) (sm_asked s) ^^ k) (sm_block_hash s) m"
  shows "(honest_step W E ob nodes ^^ k) s (s\<lparr>sm_block_hash := m\<rparr>)"
proof -
  have "honest_step W E ob nodes (s\<lparr>sm_block_hash := u\<rparr>) (s\<lparr>sm_block_hash := v\<rparr>)"
    if "served_step block_hash_spec (block_hash_calls nodes) (sent_block_hash s) (sm_asked s) u v" for u v
    using sys_step.block_hash [of nodes "s\<lparr>sm_block_hash := u\<rparr>" v E ob] that
    by (intro honest_stepI) simp_all
  from lift_relpowp [where T = "honest_step W E ob nodes" and f = "\<lambda>m. s\<lparr>sm_block_hash := m\<rparr>", OF assms this] show ?thesis by simp
qed

end
