(* ===== verification/System_Props.thy ===== *)
theory System_Props
  imports System_Truth
begin

text \<open>The properties of the running simulator, and a run of it for the witnesses.\<close>

section \<open>A run\<close>

text \<open>
  A simulation asks for an account before the first notification; the account manager fetches
  it; the first commit moves the simulator to block 101 and takes the fetched account along.
\<close>

definition sys_world :: world where
  "sys_world = \<lparr>wd_account = (\<lambda>_ _. (10, 1, 2)), wd_slot = (\<lambda>_ _. 42),
     wd_ancestor = (\<lambda>_ n. if n = 101 then 8 else 7), wd_number = (\<lambda>h. if h = 0 then 0 else 101)\<rparr>"

definition sys_nodes :: "b256 \<Rightarrow> nat node set" where
  "sys_nodes h = {demo_node\<lparr>nd_get_block_by_number := (\<lambda>n. Inr (Some (if n = 101 then 8 else 7)))\<rparr>}"


abbreviation "sys_req \<equiv> \<lparr>ar_address = 1, ar_block = 0, ar_block_hash = 0\<rparr> :: account_request"

abbreviation "sys_start_account \<equiv>
  (msys_init (tag_calls account_spec) [] fetch_config_default :: (bytes, nat) account_task)"




lemma code_exec:
  assumes "served_exec code_spec (code_calls E nodes) sent asked m es = Some m'" and "sm_code s = m"
    and "sent_code s = sent" and "sm_asked s = asked" and "length es = k"
  shows "(honest_step W E ob nodes ^^ k) s (s\<lparr>sm_code := m'\<rparr>)"
  using code_honest [where s = s and W = W and ob = ob] served_exec_steps [OF assms(1)] assms(2-5)
  by blast



abbreviation "sys_chain \<equiv> demo_chain [(101, 8, 7)] :: (bytes, nat, nat) chain"



lemma sys_spawned:
  "\<exists>rx sp rx'. builder_build builder_default = Some (rx :: (bytes, nat, nat) rex_sim)
    \<and> rx_fetch rx = fetch_config_default \<and> spawn rx = Some (sp, rx')"
  by (simp add: builder_build_def Let_def builder_default_def fetch_config_defs spawn_def
      take_receiver_def clamp_concurrency_def)

text \<open>The system after the read, after its reply, and after the commit.\<close>

abbreviation "sys_timeout \<equiv> (\<lambda>_. RecvTimeout) :: account_request \<Rightarrow> (nat, bytes account_info option) recv_outcome"



text \<open>The four reads, at the start, each with its fetch.\<close>

lemma sys_start_fields:
  fixes sp :: "(bytes, nat, nat) spawned"
  assumes "spawned_ok fetch_config_default sp" and "s0 = (system_start sp :: (bytes, nat, nat, nat) system)"
  shows "state_of s0 = static_state_new snapshot_default fresh_channels fetch_config_default"
    and "sm_task s0 = None" and "sm_asked s0 = 0"
    and "sm_account s0 = sys_start_account"
    and "sm_code s0 = msys_init (tag_calls code_spec) fmempty fetch_config_default"
    and "sm_storage s0 = msys_init (tag_calls storage_spec) () fetch_config_default"
    and "sm_block_hash s0 = msys_init (tag_calls block_hash_spec) () fetch_config_default"
  using assms by (simp_all add: system_start_def spawned_ok_def manager_task_init)




lemma sys_code_read:
  fixes s0 :: "(bytes, nat, nat, nat) system"
  assumes "spawned_ok fetch_config_default sp" and "s0 = system_start sp"
  shows "\<exists>st s2. code_by_hash_ref (\<lambda>_. Received (Inr [0x60, 0x00]) :: (nat, bytes) recv_outcome) 2 (state_of s0)
      = (st, Inr [0x60, 0x00])
    \<and> (honest_step sys_world demo_env (\<lambda>bs. bs) sys_nodes ^^ 7) (with_state st s0) s2
    \<and> sent_code s0 = [] \<and> sy_replies (sm_code s2) = [(0, Inr [0x60, 0x00])]"
proof -
  note s0 = sys_start_fields [OF assms]
  let ?req = "\<lparr>cr_code_hash = 2, cr_block = 0, cr_address_hint = None\<rparr> :: code_request"
  let ?es = "[EvBurst [\<lparr>reg_code_hash = 2, reg_address = 9\<rparr>], EvRequest 0 ?req, EvAcquire, EvBurstEnd,
      EvFinish 0 (Inr [0x60, 0x00]), EvSend 0, EvComplete]
    :: (code_request, code_registration, bytes, nat) mevent list"
  define st where "st = fst (code_by_hash_ref (\<lambda>_. Received (Inr [0x60, 0x00]) :: (nat, bytes) recv_outcome) 2
    (state_of s0))"
  have st: "code_by_hash_ref (\<lambda>_. Received (Inr [0x60, 0x00]) :: (nat, bytes) recv_outcome) 2 (state_of s0)
      = (st, Inr [0x60, 0x00])"
    "chan_sent (ch_code (st_channels st)) = [?req]"
    by (simp_all add: st_def s0(1) code_by_hash_ref_def static_state_new_def snapshot_default_def
        fresh_channels_def chan_send_def Let_def)
  obtain m where m: "served_exec code_spec (code_calls demo_env sys_nodes) [?req] 0
      (msys_init (tag_calls code_spec) fmempty fetch_config_default) ?es = Some m"
    "sy_replies m = [(0, Inr [0x60, 0x00])]"
    by (simp add: demo_defs sys_nodes_def code_spec_def code_calls_def code_answers_def
      nodes_for_def get_code_by_hash_def msys_init_def code_hash_of_def
      manager_new_def fetch_config_default_def drain_side_def retag_def spawn_fetch_def tag_calls_def
      finish_task_def take_completion_def apply_completion_def COMPLETION_CHANNEL_DEPTH_def in_turn_def)
  have "(honest_step sys_world demo_env (\<lambda>bs. bs) sys_nodes ^^ 7) (with_state st s0)
      ((with_state st s0)\<lparr>sm_code := m\<rparr>)"
    by (rule code_exec [OF m(1)]) (simp_all add: s0 st(2))
  with st(1) m(2) s0(1) show ?thesis
    by (intro exI [of _ st] exI [of _ "(with_state st s0)\<lparr>sm_code := m\<rparr>"])
      (simp add: static_state_new_def fresh_channels_def)
qed

section \<open>Properties\<close>









text \<open>
  C10: and a simulation never runs the wrong code: bytecode read by hash is the analysed form of
  bytes with exactly that hash, whatever the hints and the node say.
\<close>

theorem system_code_read_true:
  assumes "builder_build b = Some rx" and "spawn rx = Some (sp, rx')"
    and "honest_run W E ob nodes sp n s"
    and "code_by_hash_ref (\<lambda>_. outcome) h (state_of s) = (st, Inr c)"
    and "(honest_step W E ob nodes ^^ k) (with_state st s) s'" and "n + 1 + k < 2 ^ 64"
    and "\<And>x. outcome = Received x \<Longrightarrow> (length (sent_code s), x) \<in> set (sy_replies (sm_code s'))"
  shows "\<exists>bs. code_hash_of E bs = h \<and> c = en_new_raw E bs"
proof (cases "fmlookup (ss_code (snapshot_of s)) h")
  case (Some j)
  have "n < 2 ^ 64" using assms(6) by simp
  from code_true_run [OF assms(3) this spawn_ok [OF assms(1,2)]] Some assms(4) show ?thesis
    by (auto simp: code_by_hash_ref_def Let_def code_true_def st_accessors
        split: if_splits)
next
  case None
  let ?req = "\<lparr>cr_code_hash = h, cr_block = st_block (state_of s), cr_address_hint = None\<rparr>"
  from None assms(4) have r: "outcome = Received (Inr c)"
    by (cases outcome) (auto simp: code_by_hash_ref_def Let_def split: if_splits option.splits)
  from None assms(4) have "chan_sent (ch_code (st_channels st)) = sent_code s @ [?req]"
    by (auto simp: code_by_hash_ref_def Let_def chan_send_def st_accessors split: if_splits option.splits)
  with sent_grows_run [OF assms(5)] have own: "sent_code s' ! length (sent_code s) = ?req" by auto
  have "honest_step W E ob nodes s (with_state st s)"
    by (rule honest_stepI [OF sys_step.read_code [OF assms(4)]]) simp
  from honest_run_more [OF assms(5) honest_run.step [OF assms(3) this]]
  have run: "honest_run W E ob nodes sp (Suc n + k) s'" and bound: "Suc n + k < 2 ^ 64"
    using assms(6) by simp_all
  from code_replied [OF wired_run [OF honest_run_sys [OF run] spawn_ok [OF assms(1,2)]] bound assms(7) [OF r]]
  show ?thesis by (simp add: own)
qed

theorem system_code_read_true_witness:
  "\<exists>(s0 :: (bytes, nat, nat, nat) system) st (s' :: (bytes, nat, nat, nat) system).
     code_by_hash_ref (\<lambda>_. Received (Inr [0x60, 0x00]) :: (nat, bytes) recv_outcome) 2 (state_of s0) = (st, Inr [0x60, 0x00])
     \<and> sy_replies (sm_code s') = [(0, Inr [0x60, 0x00])] \<and> (\<exists>bs. code_hash_of demo_env bs = 2 \<and> [0x60, 0x00] = en_new_raw demo_env bs)"
proof -
  obtain rx :: "(bytes, nat, nat) rex_sim" and sp rx' where sp: "builder_build builder_default = Some rx"
    "rx_fetch rx = fetch_config_default" "spawn rx = Some (sp, rx')"
    using sys_spawned by blast
  have ok: "spawned_ok fetch_config_default sp" using spawn_ok [OF sp(1,3)] sp(2) by simp
  define s0 where "s0 = (system_start sp :: (bytes, nat, nat, nat) system)"
  from sys_code_read [OF ok s0_def] obtain st s2 where d:
    "code_by_hash_ref (\<lambda>_. Received (Inr [0x60, 0x00]) :: (nat, bytes) recv_outcome) 2 (state_of s0) = (st, Inr [0x60, 0x00])"
    "(honest_step sys_world demo_env (\<lambda>bs. bs) sys_nodes ^^ 7) (with_state st s0) s2"
    "sent_code s0 = []" "sy_replies (sm_code s2) = [(0, Inr [0x60, 0x00])]" by blast
  have "honest_run sys_world demo_env (\<lambda>bs. bs) sys_nodes sp 0 s0"
    unfolding s0_def by (rule honest_run.start)
  from system_code_read_true [OF sp(1,3) this d(1) d(2)] d(3,4)
  have "(\<exists>bs. code_hash_of demo_env bs = 2 \<and> [0x60, 0x00] = en_new_raw demo_env bs)" by simp
  with d(1,4) show ?thesis by blast
qed

text \<open>
  C3: no notification is ever stuck: from every state that a built and spawned simulator can
  get into with a notification taken, whatever the managers are busy with and whatever
  concurrency was configured, there is a way on in which all four managers flush and the
  notification is applied.
\<close>

theorem system_applies_notification:
  assumes "builder_build b = Some rx" and "spawn rx = Some (sp, rx')"
    and "sys_run E ob nodes sp n s" and "n < 2 ^ 64" and "sm_task s = Some x" and "\<forall>h. nodes h \<noteq> {}"
  shows "\<exists>s' fr. sys_steps E ob nodes s s' \<and> sm_task s' = None
    \<and> handle_notification E ob (x, fr) (sm_cm s) = Some (sm_cm s')"
  by (rule notification_handled [OF wired_run [OF assms(3) spawn_ok [OF assms(1,2)]] assms(4)
        spawn_ok [OF assms(1,2)] _ assms(5)]) (use assms(6) in simp)

theorem system_applies_notification_witness:
  "\<exists>(sp :: (bytes, nat, nat) spawned) (s :: (bytes, nat, nat, nat) system) s' fr.
     sys_run demo_env (\<lambda>bs. bs) sys_nodes sp 1 s \<and> sm_task s = Some (ChainCommitted sys_chain)
     \<and> sys_steps demo_env (\<lambda>bs. bs) sys_nodes s s' \<and> sm_task s' = None
     \<and> handle_notification demo_env (\<lambda>bs. bs) (ChainCommitted sys_chain, fr) (sm_cm s) = Some (sm_cm s')"
proof -
  obtain rx :: "(bytes, nat, nat) rex_sim" and sp rx' where sp: "builder_build builder_default = Some rx"
    "spawn rx = Some (sp, rx')"
    using sys_spawned by blast
  define s where "s = (system_start sp :: (bytes, nat, nat, nat) system)
    \<lparr>sm_task := Some (ChainCommitted sys_chain), sm_asked := 1\<rparr>"
  have "sys_step demo_env (\<lambda>bs. bs) sys_nodes (system_start sp) s"
    using sys_step.notify [of "system_start sp" "ChainCommitted sys_chain" demo_env "\<lambda>bs. bs" sys_nodes]
    by (simp add: s_def system_start_def demo_chain_def)
  from sys_run.step [OF sys_run.start this] have run: "sys_run demo_env (\<lambda>bs. bs) sys_nodes sp 1 s" by simp
  have t: "sm_task s = Some (ChainCommitted sys_chain)" by (simp add: s_def)
  have "\<forall>h. sys_nodes h \<noteq> {}" by (simp add: sys_nodes_def)
  from system_applies_notification [OF sp run _ t this] run t show ?thesis by auto
qed

end
