(* ===== verification/Unit_Tests.thy ===== *)
theory Unit_Tests
  imports Transitions Static_State
begin

text \<open>
  The unit tests of \<open>rex-sim\<close> (the \<open>tests\<close> modules of \<open>validation.rs\<close>, \<open>transitions.rs\<close> and
  \<open>state.rs\<close>), run on the model: each test is the conjunction of its assertions, over the
  model's operations, and each holds.  An \<open>unwrap\<close> that would panic makes its assertion false.

  The tests never look at withdrawals and logs, which are \<open>unit\<close> here; \<open>Bytecode::new_raw\<close> is
  an argument of the tests that use it.
\<close>

section \<open>Helpers of the tests\<close>

definition test_hash :: "u64 \<Rightarrow> b256" where
  "test_hash n = from_be_bytes (replicate 24 0 @ be_digits 8 (unat n))"

definition test_addr :: "u64 \<Rightarrow> address" where
  "test_addr n = of_nat (be_value (replicate 12 0 @ be_digits 8 (unat n)))"

definition test_header :: "u64 \<Rightarrow> b256 \<Rightarrow> sealed_header" where
  "test_header number h = \<lparr>sh_number = number, sh_hash = h, sh_parent_hash = 0, sh_timestamp = 0,
     sh_mix_hash = 0, sh_gas_limit = 0, sh_parent_beacon_block_root = None\<rparr>"

definition test_block_data :: "u64 \<Rightarrow> (unit, unit) block_data" where
  "test_block_data number =
    (let h = test_hash number
     in \<lparr>bd_number = number, bd_hash = h, bd_header = test_header number h, bd_withdrawals = None,
         bd_receipts = [], bd_tx_hashes = []\<rparr>)"

definition test_account_info :: "u64 \<Rightarrow> bytes account_info" where
  "test_account_info balance = \<lparr>ai_balance = ucast balance, ai_nonce = 0, ai_code_hash = 0,
     ai_account_id = None, ai_code = None\<rparr>"

type_synonym test_state = "(bytes, unit, unit) state_snapshot"

abbreviation no_state :: test_state where "no_state \<equiv> snapshot_default"

abbreviation at_block :: "u64 \<Rightarrow> test_state" where
  "at_block n \<equiv> snapshot_default\<lparr>ss_block := n, ss_block_hash := test_hash n\<rparr>"

abbreviation with_info :: "u64 \<Rightarrow> bytes account_change" where
  "with_info balance \<equiv> \<lparr>ac_info = Some (test_account_info balance), ac_storage = fmempty\<rparr>"

abbreviation tip_at :: "u64 \<Rightarrow> chain_tip" where
  "tip_at n \<equiv> \<lparr>ct_number = n, ct_hash = test_hash n\<rparr>"

abbreviation has_key :: "('k, 'v) fmap \<Rightarrow> 'k \<Rightarrow> bool" where
  "has_key m k \<equiv> fmlookup m k \<noteq> None"

section \<open>validation.rs\<close>

abbreviation at_tip :: "u64 \<Rightarrow> current_state" where
  "at_tip n \<equiv> \<lparr>cs_block = n, cs_block_hash = test_hash n, cs_stale = False\<rparr>"

abbreviation linked_block :: "u64 \<Rightarrow> block_info" where
  "linked_block n \<equiv> \<lparr>bi_number = n, bi_hash = test_hash n, bi_parent_hash = test_hash (n - 1)\<rparr>"

definition t_commit_initial_state_accepts_any :: bool where
  "t_commit_initial_state_accepts_any =
    (let result = validate_chain_committed cs_initial
           \<lparr>bi_number = 100, bi_hash = test_hash 100, bi_parent_hash = test_hash 99\<rparr> []
     in result = CvAcceptAny \<and> cv_is_acceptable result)"

definition t_stale_state_accepts_any :: bool where
  "t_stale_state_accepts_any =
    (let result = validate_chain_committed
           \<lparr>cs_block = 50, cs_block_hash = test_hash 50, cs_stale = True\<rparr>
           \<lparr>bi_number = 100, bi_hash = test_hash 100, bi_parent_hash = test_hash 99\<rparr> []
     in result = CvAcceptAny \<and> cv_is_acceptable result)"

definition t_perfect_continuity_is_valid :: bool where
  "t_perfect_continuity_is_valid =
    (let result = validate_chain_committed
           \<lparr>cs_block = 100, cs_block_hash = test_hash 100, cs_stale = False\<rparr>
           \<lparr>bi_number = 101, bi_hash = test_hash 101, bi_parent_hash = test_hash 100\<rparr> []
     in result = CvValid \<and> cv_is_acceptable result)"

definition t_perfect_continuity_wrong_parent_hash :: bool where
  "t_perfect_continuity_wrong_parent_hash =
    (let result = validate_chain_committed
           \<lparr>cs_block = 100, cs_block_hash = test_hash 100, cs_stale = False\<rparr>
           \<lparr>bi_number = 101, bi_hash = test_hash 101, bi_parent_hash = test_hash 999\<rparr> []
     in result = CvGap 101 101 \<and> \<not> cv_is_acceptable result)"

definition t_overlap_with_match_is_valid :: bool where
  "t_overlap_with_match_is_valid =
    (let result = validate_chain_committed
           \<lparr>cs_block = 100, cs_block_hash = test_hash 100, cs_stale = False\<rparr>
           \<lparr>bi_number = 98, bi_hash = test_hash 98, bi_parent_hash = test_hash 97\<rparr>
           [(98, test_hash 98), (99, test_hash 99), (100, test_hash 100), (101, test_hash 101)]
     in result = CvValid \<and> cv_is_acceptable result)"

definition t_overlap_without_match_is_invalid :: bool where
  "t_overlap_without_match_is_invalid =
    (let result = validate_chain_committed
           \<lparr>cs_block = 100, cs_block_hash = test_hash 100, cs_stale = False\<rparr>
           \<lparr>bi_number = 98, bi_hash = test_hash 98, bi_parent_hash = test_hash 97\<rparr>
           [(98, test_hash 98), (99, test_hash 99), (100, test_hash 9999), (101, test_hash 101)]
     in result = CvOverlapMismatch \<and> \<not> cv_is_acceptable result)"

definition t_gap_is_detected :: bool where
  "t_gap_is_detected =
    (let result = validate_chain_committed
           \<lparr>cs_block = 100, cs_block_hash = test_hash 100, cs_stale = False\<rparr>
           \<lparr>bi_number = 105, bi_hash = test_hash 105, bi_parent_hash = test_hash 104\<rparr> []
     in result = CvGap 101 105 \<and> \<not> cv_is_acceptable result)"

definition t_same_block_different_hash_detected :: bool where
  "t_same_block_different_hash_detected =
    (let result = validate_chain_committed
           \<lparr>cs_block = 100, cs_block_hash = test_hash 100, cs_stale = False\<rparr>
           \<lparr>bi_number = 100, bi_hash = test_hash 9999, bi_parent_hash = test_hash 99\<rparr>
           [(100, test_hash 9999)]
     in result = CvOverlapMismatch \<and> \<not> cv_is_acceptable result)"

definition t_reorg_initial_state_accepts_any :: bool where
  "t_reorg_initial_state_accepts_any =
    (let result = validate_chain_reorged cs_initial
           \<lparr>bi_number = 100, bi_hash = test_hash 100, bi_parent_hash = test_hash 99\<rparr> []
     in result = RvAcceptAny \<and> rv_is_acceptable result)"

definition t_perfect_match_is_valid :: bool where
  "t_perfect_match_is_valid =
    (let result = validate_chain_reorged
           \<lparr>cs_block = 100, cs_block_hash = test_hash 100, cs_stale = False\<rparr>
           \<lparr>bi_number = 100, bi_hash = test_hash 100, bi_parent_hash = test_hash 99\<rparr> []
     in result = RvValid \<and> rv_is_acceptable result)"

definition t_our_state_in_old_chain_is_valid :: bool where
  "t_our_state_in_old_chain_is_valid =
    (let result = validate_chain_reorged
           \<lparr>cs_block = 98, cs_block_hash = test_hash 98, cs_stale = False\<rparr>
           \<lparr>bi_number = 100, bi_hash = test_hash 100, bi_parent_hash = test_hash 99\<rparr>
           [(98, test_hash 98), (99, test_hash 99), (100, test_hash 100)]
     in result = RvValid \<and> rv_is_acceptable result)"

definition t_mismatch_is_detected :: bool where
  "t_mismatch_is_detected =
    (let result = validate_chain_reorged
           \<lparr>cs_block = 100, cs_block_hash = test_hash 100, cs_stale = False\<rparr>
           \<lparr>bi_number = 98, bi_hash = test_hash 98, bi_parent_hash = test_hash 97\<rparr>
           [(95, test_hash 95), (96, test_hash 96), (97, test_hash 97), (98, test_hash 98)]
     in result = RvMismatch \<and> \<not> rv_is_acceptable result)"

definition t_same_block_different_hash_is_mismatch :: bool where
  "t_same_block_different_hash_is_mismatch =
    (let result = validate_chain_reorged
           \<lparr>cs_block = 100, cs_block_hash = test_hash 100, cs_stale = False\<rparr>
           \<lparr>bi_number = 100, bi_hash = test_hash 9999, bi_parent_hash = test_hash 99\<rparr>
           [(100, test_hash 9999)]
     in result = RvMismatch \<and> \<not> rv_is_acceptable result)"

definition t_empty_cache_is_valid :: bool where
  "t_empty_cache_is_valid \<longleftrightarrow> validate_cache (test_hash 100) True (test_hash 200) = CacheEmpty"

definition t_matching_hash_is_valid :: bool where
  "t_matching_hash_is_valid \<longleftrightarrow> validate_cache (test_hash 100) False (test_hash 100) = CacheValid"

definition t_mismatched_hash_is_stale :: bool where
  "t_mismatched_hash_is_stale \<longleftrightarrow> validate_cache (test_hash 100) False (test_hash 200) = CacheStale"

definition t_zero_hash_cache_with_entries_is_stale :: bool where
  "t_zero_hash_cache_with_entries_is_stale \<longleftrightarrow> validate_cache 0 False (test_hash 100) = CacheStale"

section \<open>transitions.rs\<close>

text \<open>The module \<open>cache_merge\<close>.\<close>

definition t_merges_valid_caches :: bool where
  "t_merges_valid_caches =
    (let caches = caches_default
           \<lparr>ca_accounts := \<lparr>tc_block_hash = test_hash 100,
              tc_data = fmupd (test_addr 1) (test_account_info 1000) fmempty\<rparr>,
            ca_storage := \<lparr>tc_block_hash = test_hash 100, tc_data = fmupd (test_addr 1, 0) 42 fmempty\<rparr>\<rparr>;
         (state, stats) = merge_caches (at_block 100) caches (test_hash 100)
     in cms_accounts_merged stats = 1 \<and> cms_accounts_discarded stats = 0
        \<and> cms_storage_merged stats = 1 \<and> cms_storage_discarded stats = 0
        \<and> has_key (ss_accounts state) (test_addr 1) \<and> has_key (ss_storage state) (test_addr 1, 0))"

definition t_discards_stale_caches :: bool where
  "t_discards_stale_caches =
    (let caches = caches_default
           \<lparr>ca_accounts := \<lparr>tc_block_hash = test_hash 99,
              tc_data = fmupd (test_addr 1) (test_account_info 1000) fmempty\<rparr>,
            ca_storage := \<lparr>tc_block_hash = test_hash 99, tc_data = fmupd (test_addr 1, 0) 42 fmempty\<rparr>\<rparr>;
         (state, stats) = merge_caches (at_block 100) caches (test_hash 100)
     in cms_accounts_merged stats = 0 \<and> cms_accounts_discarded stats = 1
        \<and> cms_storage_merged stats = 0 \<and> cms_storage_discarded stats = 1
        \<and> fm_is_empty (ss_accounts state) \<and> fm_is_empty (ss_storage state))"

definition t_code_always_merged :: "(bytes \<Rightarrow> bytes) \<Rightarrow> bool" where
  "t_code_always_merged new_raw =
    (let caches = caches_default
           \<lparr>ca_code := \<lparr>cc_data = fmupd (test_hash 1) (new_raw [0x60, 0x00]) fmempty\<rparr>\<rparr>;
         (state, stats) = merge_caches no_state caches (test_hash 100)
     in cms_code_merged stats = 1 \<and> has_key (ss_code state) (test_hash 1))"

definition t_empty_caches_are_valid :: bool where
  "t_empty_caches_are_valid =
    (let (state, stats) = merge_caches (at_block 100) caches_default (test_hash 100)
     in cms_accounts_merged stats = 0 \<and> cms_accounts_discarded stats = 0)"

text \<open>The module \<open>execution_changes\<close>.\<close>

definition t_applies_account_info_to_known_accounts_only :: bool where
  "t_applies_account_info_to_known_accounts_only =
    (let state = no_state\<lparr>ss_accounts := fmupd (test_addr 1) (test_account_info 1000) fmempty\<rparr>;
         changes = execution_changes_default
           \<lparr>ec_accounts := fold (\<lambda>(n, balance). fmupd (test_addr n) (with_info balance))
              [(1, 5000), (2, 7000)] fmempty\<rparr>;
         state = apply_execution_changes state changes
     in map_option ai_balance (fmlookup (ss_accounts state) (test_addr 1)) = Some 5000
        \<and> \<not> has_key (ss_accounts state) (test_addr 2))"

definition t_applies_storage_changes_to_known_slots_only :: bool where
  "t_applies_storage_changes_to_known_slots_only =
    (let state = no_state\<lparr>ss_storage := fmupd (test_addr 1, 0) 50 fmempty\<rparr>;
         storage = fmupd 1 200 (fmupd 0 100 fmempty);
         changes = execution_changes_default
           \<lparr>ec_accounts := fmupd (test_addr 1) \<lparr>ac_info = None, ac_storage = storage\<rparr> fmempty\<rparr>;
         state = apply_execution_changes state changes
     in fmlookup (ss_storage state) (test_addr 1, 0) = Some 100
        \<and> \<not> has_key (ss_storage state) (test_addr 1, 1))"

definition t_applies_contracts :: "(bytes \<Rightarrow> bytes) \<Rightarrow> bool" where
  "t_applies_contracts new_raw =
    (let changes = execution_changes_default
           \<lparr>ec_contracts := fmupd (test_hash 1) (new_raw [0x60, 0x00]) fmempty\<rparr>;
         state = apply_execution_changes no_state changes
     in has_key (ss_code state) (test_hash 1))"

definition t_overwrites_existing_values :: bool where
  "t_overwrites_existing_values =
    (let state = no_state\<lparr>ss_accounts := fmupd (test_addr 1) (test_account_info 1000) fmempty,
           ss_storage := fmupd (test_addr 1, 0) 50 fmempty\<rparr>;
         changes = execution_changes_default
           \<lparr>ec_accounts := fmupd (test_addr 1)
              \<lparr>ac_info = Some (test_account_info 5000), ac_storage = fmupd 0 999 fmempty\<rparr> fmempty\<rparr>;
         state = apply_execution_changes state changes
     in map_option ai_balance (fmlookup (ss_accounts state) (test_addr 1)) = Some 5000
        \<and> fmlookup (ss_storage state) (test_addr 1, 0) = Some 999)"

text \<open>The module \<open>block_data\<close>.\<close>

definition t_applies_block_hashes :: bool where
  "t_applies_block_hashes =
    (let state = apply_block_data no_state [test_block_data 100, test_block_data 101]
     in fmlookup (ss_block_hashes state) 100 = Some (test_hash 100)
        \<and> fmlookup (ss_block_hashes state) 101 = Some (test_hash 101))"

definition t_applies_receipts :: bool where
  "t_applies_receipts =
    (let state = apply_block_data no_state [test_block_data 100, test_block_data 101]
     in map brc_block (ss_receipts_history state) = [100, 101])"

text \<open>The module \<open>build_commit\<close>.\<close>

definition t_builds_from_current_state :: bool where
  "t_builds_from_current_state =
    (let current = (at_block 99)\<lparr>ss_stale := True,
           ss_accounts := fmupd (test_addr 1) (test_account_info 1000) fmempty\<rparr>;
         (new_state, _) = build_commit_state current caches_default execution_changes_default [] (tip_at 100)
     in \<not> ss_stale new_state \<and> ss_block new_state = 100 \<and> ss_block_hash new_state = test_hash 100
        \<and> has_key (ss_accounts new_state) (test_addr 1))"

definition t_execution_overwrites_cache :: bool where
  "t_execution_overwrites_cache =
    (let caches = caches_default\<lparr>ca_accounts := \<lparr>tc_block_hash = test_hash 99,
              tc_data = fmupd (test_addr 1) (test_account_info 1000) fmempty\<rparr>\<rparr>;
         changes = execution_changes_default\<lparr>ec_accounts := fmupd (test_addr 1) (with_info 5000) fmempty\<rparr>;
         (new_state, stats) = build_commit_state (at_block 99) caches changes [] (tip_at 100)
     in cms_accounts_merged stats = 1
        \<and> map_option ai_balance (fmlookup (ss_accounts new_state) (test_addr 1)) = Some 5000)"

definition t_records_changed_accounts_at_tip :: bool where
  "t_records_changed_accounts_at_tip =
    (let changes = execution_changes_default\<lparr>ec_accounts :=
           fmupd (test_addr 2) (with_info 7000) (fmupd (test_addr 1) (with_info 5000) fmempty)\<rparr>;
         (new_state, _) = build_commit_state no_state caches_default changes [test_block_data 100] (tip_at 100)
     in map_option sort (changed_accounts new_state 100) = Some (sort [test_addr 1, test_addr 2]))"

text \<open>The module \<open>build_reorg\<close>.\<close>

definition t_reorg_clears_accounts_and_storage :: bool where
  "t_reorg_clears_accounts_and_storage =
    (let current = (at_block 100)\<lparr>ss_accounts := fmupd (test_addr 1) (test_account_info 1000) fmempty,
           ss_storage := fmupd (test_addr 1, 0) 42 fmempty\<rparr>;
         new_state = build_reorg_state current 95 execution_changes_default [] (tip_at 98)
     in fm_is_empty (ss_accounts new_state) \<and> fm_is_empty (ss_storage new_state))"

definition t_reorg_preserves_code :: "(bytes \<Rightarrow> bytes) \<Rightarrow> bool" where
  "t_reorg_preserves_code new_raw =
    (let current = no_state\<lparr>ss_code := fmupd (test_hash 1) (new_raw [0x60]) fmempty\<rparr>;
         new_state = build_reorg_state current 95 execution_changes_default [] (tip_at 98)
     in has_key (ss_code new_state) (test_hash 1))"

definition t_truncates_receipts_at_common_ancestor :: bool where
  "t_truncates_receipts_at_common_ancestor =
    (let current = push_receipts 100 [] [] (push_receipts 95 [] [] (push_receipts 90 [] [] no_state));
         new_state = build_reorg_state current 95 execution_changes_default [] (tip_at 98)
     in map brc_block (ss_receipts_history new_state) = [90, 95])"

definition t_truncates_block_hashes_at_common_ancestor :: bool where
  "t_truncates_block_hashes_at_common_ancestor =
    (let current = no_state\<lparr>ss_block_hashes := fmupd 100 (test_hash 100) (fmupd 95 (test_hash 95)
           (fmupd 90 (test_hash 90) fmempty))\<rparr>;
         new_state = build_reorg_state current 95 execution_changes_default [] (tip_at 98)
     in fm_len (ss_block_hashes new_state) = 2
        \<and> has_key (ss_block_hashes new_state) 90 \<and> has_key (ss_block_hashes new_state) 95
        \<and> \<not> has_key (ss_block_hashes new_state) 100)"

definition t_applies_new_chain_changes :: bool where
  "t_applies_new_chain_changes =
    (let changes = execution_changes_default\<lparr>ec_accounts := fmupd (test_addr 1) (with_info 5000) fmempty\<rparr>;
         new_state = build_reorg_state no_state 95 changes [test_block_data 98] (tip_at 98)
     in \<not> has_key (ss_accounts new_state) (test_addr 1)
        \<and> has_key (ss_block_hashes new_state) 98
        \<and> length (ss_receipts_history new_state) = 1)"

definition t_records_new_chain_changed_accounts :: bool where
  "t_records_new_chain_changed_accounts =
    (let changes = execution_changes_default\<lparr>ec_accounts := fmupd (test_addr 1) (with_info 5000) fmempty\<rparr>;
         new_state = build_reorg_state no_state 95 changes [test_block_data 98] (tip_at 98)
     in changed_accounts new_state 98 = Some [test_addr 1])"

definition t_truncates_changed_accounts_at_common_ancestor :: bool where
  "t_truncates_changed_accounts_at_common_ancestor =
    (let current = push_changed_accounts 100 [test_addr 100]
           (push_changed_accounts 95 [test_addr 95] (push_changed_accounts 90 [test_addr 90] no_state));
         new_state = build_reorg_state current 95 execution_changes_default [] (tip_at 98)
     in changed_accounts new_state 100 = None
        \<and> changed_accounts new_state 95 = Some [test_addr 95]
        \<and> changed_accounts new_state 90 = Some [test_addr 90])"

text \<open>The module \<open>build_revert\<close>.\<close>

definition t_marks_state_as_stale :: bool where
  "t_marks_state_as_stale \<longleftrightarrow> ss_stale (build_revert_state no_state 95)"

definition t_sets_block_hash_to_zero :: bool where
  "t_sets_block_hash_to_zero =
    (let new_state = build_revert_state no_state 95 in ss_block new_state = 95 \<and> ss_block_hash new_state = 0)"

definition t_revert_clears_accounts_and_storage :: bool where
  "t_revert_clears_accounts_and_storage =
    (let current = no_state\<lparr>ss_accounts := fmupd (test_addr 1) (test_account_info 1000) fmempty,
           ss_storage := fmupd (test_addr 1, 0) 42 fmempty\<rparr>;
         new_state = build_revert_state current 95
     in fm_is_empty (ss_accounts new_state) \<and> fm_is_empty (ss_storage new_state))"

definition t_revert_preserves_code :: "(bytes \<Rightarrow> bytes) \<Rightarrow> bool" where
  "t_revert_preserves_code new_raw =
    (let current = no_state\<lparr>ss_code := fmupd (test_hash 1) (new_raw [0x60]) fmempty\<rparr>;
         new_state = build_revert_state current 95
     in has_key (ss_code new_state) (test_hash 1))"

definition t_truncates_at_common_ancestor :: bool where
  "t_truncates_at_common_ancestor =
    (let current = push_receipts 100 [] [] (push_receipts 95 [] [] (push_receipts 90 [] [] no_state));
         current = current\<lparr>ss_block_hashes := fmupd 100 (test_hash 100) (fmupd 95 (test_hash 95)
           (fmupd 90 (test_hash 90) fmempty))\<rparr>;
         new_state = build_revert_state current 95
     in length (ss_receipts_history new_state) = 2 \<and> fm_len (ss_block_hashes new_state) = 2)"

text \<open>The module \<open>scenarios\<close>.\<close>

definition t_commit_then_reorg_scenario :: bool where
  "t_commit_then_reorg_scenario =
    (let state = (at_block 100)\<lparr>ss_stale := False,
           ss_accounts := fmupd (test_addr 1) (test_account_info 1000) fmempty,
           ss_storage := fmupd (test_addr 1, 0) 42 fmempty,
           ss_block_hashes := fmupd 100 (test_hash 100) fmempty\<rparr>;
         new_state = build_reorg_state state 95 execution_changes_default [] (tip_at 98)
     in fm_is_empty (ss_accounts new_state) \<and> fm_is_empty (ss_storage new_state)
        \<and> \<not> has_key (ss_block_hashes new_state) 100
        \<and> ss_block new_state = 98 \<and> \<not> ss_stale new_state)"

definition t_revert_then_recover_scenario :: bool where
  "t_revert_then_recover_scenario =
    (let reverted = build_revert_state no_state 95;
         (recovered, _) = build_commit_state (reverted\<lparr>ss_stale := True\<rparr>) caches_default
           execution_changes_default [] (tip_at 100)
     in ss_stale reverted \<and> \<not> ss_stale recovered \<and> ss_block recovered = 100)"

definition t_stale_cache_discarded_on_commit :: bool where
  "t_stale_cache_discarded_on_commit =
    (let caches = caches_default\<lparr>ca_accounts := \<lparr>tc_block_hash = test_hash 50,
              tc_data = fmupd (test_addr 1) (test_account_info 1000) fmempty\<rparr>\<rparr>;
         (new_state, stats) = build_commit_state (at_block 99) caches execution_changes_default [] (tip_at 100)
     in cms_accounts_discarded stats = 1 \<and> cms_accounts_merged stats = 0
        \<and> fm_is_empty (ss_accounts new_state))"

section \<open>state.rs\<close>

definition t_stores_and_retrieves_changed_accounts :: bool where
  "t_stores_and_retrieves_changed_accounts =
    (let s = push_changed_accounts 101 [test_addr 3]
           (push_changed_accounts 100 [test_addr 1, test_addr 2] no_state)
     in changed_accounts s 100 = Some [test_addr 1, test_addr 2]
        \<and> changed_accounts s 101 = Some [test_addr 3] \<and> changed_accounts s 102 = None)"

definition t_changed_accounts_respects_history_depth :: bool where
  "t_changed_accounts_respects_history_depth =
    (let s = fold (\<lambda>b. push_changed_accounts b [test_addr b])
           (map word_of_nat [0..<RECEIPTS_HISTORY_DEPTH + 10]) no_state
     in length (ss_changed_accounts_history s) = RECEIPTS_HISTORY_DEPTH
        \<and> changed_accounts s 9 = None \<and> changed_accounts s 10 = Some [test_addr 10])"

definition t_truncates_changed_accounts_from_block :: bool where
  "t_truncates_changed_accounts_from_block =
    (let s = truncate_changed_accounts 96 (push_changed_accounts 100 [test_addr 100]
           (push_changed_accounts 95 [test_addr 95] (push_changed_accounts 90 [test_addr 90] no_state)))
     in length (ss_changed_accounts_history s) = 2
        \<and> changed_accounts s 100 = None \<and> changed_accounts s 95 = Some [test_addr 95])"

definition t_static_state_exposes_changed_accounts :: "fetch_channels \<Rightarrow> bool" where
  "t_static_state_exposes_changed_accounts channels =
    (let snap = push_changed_accounts 200 [test_addr 7] no_state;
         state = static_state_new snap channels fetch_config_default
     in st_changed_accounts state 200 = Some [test_addr 7] \<and> st_changed_accounts state 201 = None)"

section \<open>They all pass\<close>

lemma be_value_zeros: "be_value (replicate n 0 @ bs) = be_value bs"
proof (induction n)
  case (Suc n)
  have "be_value (0 # cs) = be_value cs" for cs :: "u8 list" by (simp add: be_value_def)
  with Suc show ?case by simp
qed simp

lemma unat_bounded: "unat (n::u64) mod 18446744073709551616 = unat n"
proof -
  have "unat n < 2 ^ 64" using unsigned_less [of n] by simp
  then show ?thesis by simp
qed

lemma test_hash_eq: "test_hash n = of_nat (unat n)"
  by (simp add: test_hash_def from_be_bytes_def be_value_zeros be_value_digits unat_bounded)

lemma test_addr_eq: "test_addr n = of_nat (unat n)"
  by (simp add: test_addr_def be_value_zeros be_value_digits unat_bounded)

lemma validation_tests_pass:
  "t_commit_initial_state_accepts_any" "t_stale_state_accepts_any" "t_perfect_continuity_is_valid"
  "t_perfect_continuity_wrong_parent_hash" "t_overlap_with_match_is_valid"
  "t_overlap_without_match_is_invalid" "t_gap_is_detected" "t_same_block_different_hash_detected"
  "t_reorg_initial_state_accepts_any" "t_perfect_match_is_valid" "t_our_state_in_old_chain_is_valid"
  "t_mismatch_is_detected" "t_same_block_different_hash_is_mismatch"
  "t_empty_cache_is_valid" "t_matching_hash_is_valid" "t_mismatched_hash_is_stale"
  "t_zero_hash_cache_with_entries_is_stale"
  by (simp_all add: t_commit_initial_state_accepts_any_def t_stale_state_accepts_any_def
      t_perfect_continuity_is_valid_def t_perfect_continuity_wrong_parent_hash_def
      t_overlap_with_match_is_valid_def t_overlap_without_match_is_invalid_def t_gap_is_detected_def
      t_same_block_different_hash_detected_def t_reorg_initial_state_accepts_any_def
      t_perfect_match_is_valid_def t_our_state_in_old_chain_is_valid_def t_mismatch_is_detected_def
      t_same_block_different_hash_is_mismatch_def t_empty_cache_is_valid_def t_matching_hash_is_valid_def
      t_mismatched_hash_is_stale_def t_zero_hash_cache_with_entries_is_stale_def
      validation_defs cs_initial_def validate_cache_def test_hash_eq word_le_nat_alt)

text \<open>The maps of the tests have at most two entries.\<close>

lemma keys_run:
  "sorted_list_of_fset {||} = []" "sorted_list_of_fset {|a|} = [a]"
  "a < b \<Longrightarrow> sorted_list_of_fset {|b, a|} = [a, b]"
  by (auto simp: sorted_list_of_fset_def sorted_list_of_set_nonempty insert_Diff_if)

lemma ffilter_run:
  "ffilter P {||} = {||}"
  "ffilter P (finsert x A) = (if P x then finsert x (ffilter P A) else ffilter P A)"
  by auto

lemmas entries_run = sorted_list_of_fmap_def keys_run ffilter_run fcard_finsert_if

lemmas transitions_run = test_hash_eq test_addr_eq entries_run fm_simps hist_simps
  snapshot_default_def caches_default_def execution_changes_default_def stats_default_def
  tagged_cache_default_def code_cache_default_def merge_caches_def is_valid_for_def fm_len_def
  apply_execution_changes_def apply_entries_def change_entries_def apply_account_entry_def
  apply_slot_entry_def apply_contract_entry_def apply_block_data_def apply_block_def push_defs
  test_block_data_def test_header_def test_account_info_def build_commit_state_def
  build_reorg_state_def build_revert_state_def copy_history_before_def changed_addresses_def
  changed_accounts_def truncate_receipts_def truncate_changed_accounts_def last_n_def
  RECEIPTS_HISTORY_DEPTH_def

lemma merges_valid_caches_passes: "t_merges_valid_caches"
  by (simp add: t_merges_valid_caches_def transitions_run)

lemma discards_stale_caches_passes: "t_discards_stale_caches"
  by (simp add: t_discards_stale_caches_def transitions_run)

lemma code_always_merged_passes: "t_code_always_merged new_raw"
  by (simp add: t_code_always_merged_def transitions_run)

lemma empty_caches_are_valid_passes: "t_empty_caches_are_valid"
  by (simp add: t_empty_caches_are_valid_def transitions_run)

lemma applies_account_info_to_known_accounts_only_passes: "t_applies_account_info_to_known_accounts_only"
  by (simp add: t_applies_account_info_to_known_accounts_only_def transitions_run)

lemma applies_storage_changes_to_known_slots_only_passes: "t_applies_storage_changes_to_known_slots_only"
  by (simp add: t_applies_storage_changes_to_known_slots_only_def transitions_run)

lemma applies_contracts_passes: "t_applies_contracts new_raw"
  by (simp add: t_applies_contracts_def transitions_run)

lemma overwrites_existing_values_passes: "t_overwrites_existing_values"
  by (simp add: t_overwrites_existing_values_def transitions_run)

lemma applies_block_hashes_passes: "t_applies_block_hashes"
  by (simp add: t_applies_block_hashes_def transitions_run)

lemma applies_receipts_passes: "t_applies_receipts"
  by (simp add: t_applies_receipts_def transitions_run)

lemma builds_from_current_state_passes: "t_builds_from_current_state"
  by (simp add: t_builds_from_current_state_def transitions_run)

lemma execution_overwrites_cache_passes: "t_execution_overwrites_cache"
  by (simp add: t_execution_overwrites_cache_def transitions_run)

lemma records_changed_accounts_at_tip_passes: "t_records_changed_accounts_at_tip"
  by (simp add: t_records_changed_accounts_at_tip_def transitions_run)

lemma reorg_clears_accounts_and_storage_passes: "t_reorg_clears_accounts_and_storage"
  by (simp add: t_reorg_clears_accounts_and_storage_def transitions_run)

lemma reorg_preserves_code_passes: "t_reorg_preserves_code new_raw"
  by (simp add: t_reorg_preserves_code_def transitions_run)

lemma truncates_receipts_at_common_ancestor_passes: "t_truncates_receipts_at_common_ancestor"
  by (simp add: t_truncates_receipts_at_common_ancestor_def transitions_run)

lemma truncates_block_hashes_at_common_ancestor_passes: "t_truncates_block_hashes_at_common_ancestor"
  by (simp add: t_truncates_block_hashes_at_common_ancestor_def transitions_run)

lemma applies_new_chain_changes_passes: "t_applies_new_chain_changes"
  by (simp add: t_applies_new_chain_changes_def transitions_run)

lemma records_new_chain_changed_accounts_passes: "t_records_new_chain_changed_accounts"
  by (simp add: t_records_new_chain_changed_accounts_def transitions_run)

lemma truncates_changed_accounts_at_common_ancestor_passes: "t_truncates_changed_accounts_at_common_ancestor"
  by (simp add: t_truncates_changed_accounts_at_common_ancestor_def transitions_run)

lemma marks_state_as_stale_passes: "t_marks_state_as_stale"
  by (simp add: t_marks_state_as_stale_def transitions_run)

lemma sets_block_hash_to_zero_passes: "t_sets_block_hash_to_zero"
  by (simp add: t_sets_block_hash_to_zero_def transitions_run)

lemma revert_clears_accounts_and_storage_passes: "t_revert_clears_accounts_and_storage"
  by (simp add: t_revert_clears_accounts_and_storage_def transitions_run)

lemma revert_preserves_code_passes: "t_revert_preserves_code new_raw"
  by (simp add: t_revert_preserves_code_def transitions_run)

lemma truncates_at_common_ancestor_passes: "t_truncates_at_common_ancestor"
  by (simp add: t_truncates_at_common_ancestor_def transitions_run)

lemma commit_then_reorg_scenario_passes: "t_commit_then_reorg_scenario"
  by (simp add: t_commit_then_reorg_scenario_def transitions_run)

lemma revert_then_recover_scenario_passes: "t_revert_then_recover_scenario"
  by (simp add: t_revert_then_recover_scenario_def transitions_run)

lemma stale_cache_discarded_on_commit_passes: "t_stale_cache_discarded_on_commit"
  by (simp add: t_stale_cache_discarded_on_commit_def transitions_run)

lemma stores_and_retrieves_changed_accounts_passes: "t_stores_and_retrieves_changed_accounts"
  by (simp add: t_stores_and_retrieves_changed_accounts_def transitions_run)

lemma push_changed_accounts_fold:
  "ss_changed_accounts_history (fold (\<lambda>b. push_changed_accounts b (f b)) bs no_state)
     = last_n RECEIPTS_HISTORY_DEPTH (map (\<lambda>b. \<lparr>bca_block = b, bca_accounts = f b\<rparr>) bs)"
proof (induction bs rule: rev_induct)
  case (snoc b bs)
  then show ?case
    by (simp add: push_defs hist_simps last_n_idem last_n_snoc [symmetric] RECEIPTS_HISTORY_DEPTH_def)
qed (simp add: snapshot_default_def last_n_def)

lemma changed_accounts_respects_history_depth_passes: "t_changed_accounts_respects_history_depth"
  by (simp add: t_changed_accounts_respects_history_depth_def push_changed_accounts_fold
      changed_accounts_def last_n_def RECEIPTS_HISTORY_DEPTH_def drop_map comp_def upt_rec_numeral)

lemma truncates_changed_accounts_from_block_passes: "t_truncates_changed_accounts_from_block"
  by (simp add: t_truncates_changed_accounts_from_block_def transitions_run)

lemma static_state_exposes_changed_accounts_passes: "t_static_state_exposes_changed_accounts channels"
  by (simp add: t_static_state_exposes_changed_accounts_def st_changed_accounts_def
      static_state_new_def transitions_run)

text \<open>
  The unit tests of the three modules hold of the model: all assertions of the 17 tests of
  the validation, the 28 of the transitions and the 4 of the state.
\<close>

theorem unit_tests_pass:
  "t_commit_initial_state_accepts_any \<and> t_stale_state_accepts_any
     \<and> t_perfect_continuity_is_valid \<and> t_perfect_continuity_wrong_parent_hash
     \<and> t_overlap_with_match_is_valid \<and> t_overlap_without_match_is_invalid
     \<and> t_gap_is_detected \<and> t_same_block_different_hash_detected
     \<and> t_reorg_initial_state_accepts_any \<and> t_perfect_match_is_valid
     \<and> t_our_state_in_old_chain_is_valid \<and> t_mismatch_is_detected
     \<and> t_same_block_different_hash_is_mismatch \<and> t_empty_cache_is_valid
     \<and> t_matching_hash_is_valid \<and> t_mismatched_hash_is_stale
     \<and> t_zero_hash_cache_with_entries_is_stale \<and> t_merges_valid_caches
     \<and> t_discards_stale_caches \<and> t_code_always_merged new_raw
     \<and> t_empty_caches_are_valid \<and> t_applies_account_info_to_known_accounts_only
     \<and> t_applies_storage_changes_to_known_slots_only \<and> t_applies_contracts new_raw
     \<and> t_overwrites_existing_values \<and> t_applies_block_hashes \<and> t_applies_receipts
     \<and> t_builds_from_current_state \<and> t_execution_overwrites_cache
     \<and> t_records_changed_accounts_at_tip \<and> t_reorg_clears_accounts_and_storage
     \<and> t_reorg_preserves_code new_raw \<and> t_truncates_receipts_at_common_ancestor
     \<and> t_truncates_block_hashes_at_common_ancestor \<and> t_applies_new_chain_changes
     \<and> t_records_new_chain_changed_accounts
     \<and> t_truncates_changed_accounts_at_common_ancestor \<and> t_marks_state_as_stale
     \<and> t_sets_block_hash_to_zero \<and> t_revert_clears_accounts_and_storage
     \<and> t_revert_preserves_code new_raw \<and> t_truncates_at_common_ancestor
     \<and> t_commit_then_reorg_scenario \<and> t_revert_then_recover_scenario
     \<and> t_stale_cache_discarded_on_commit \<and> t_stores_and_retrieves_changed_accounts
     \<and> t_changed_accounts_respects_history_depth \<and> t_truncates_changed_accounts_from_block
     \<and> t_static_state_exposes_changed_accounts channels"
  by (intro conjI validation_tests_pass merges_valid_caches_passes discards_stale_caches_passes
      code_always_merged_passes empty_caches_are_valid_passes
      applies_account_info_to_known_accounts_only_passes
      applies_storage_changes_to_known_slots_only_passes applies_contracts_passes
      overwrites_existing_values_passes applies_block_hashes_passes applies_receipts_passes
      builds_from_current_state_passes execution_overwrites_cache_passes
      records_changed_accounts_at_tip_passes reorg_clears_accounts_and_storage_passes
      reorg_preserves_code_passes truncates_receipts_at_common_ancestor_passes
      truncates_block_hashes_at_common_ancestor_passes applies_new_chain_changes_passes
      records_new_chain_changed_accounts_passes truncates_changed_accounts_at_common_ancestor_passes
      marks_state_as_stale_passes sets_block_hash_to_zero_passes
      revert_clears_accounts_and_storage_passes revert_preserves_code_passes
      truncates_at_common_ancestor_passes commit_then_reorg_scenario_passes
      revert_then_recover_scenario_passes stale_cache_discarded_on_commit_passes
      stores_and_retrieves_changed_accounts_passes changed_accounts_respects_history_depth_passes
      truncates_changed_accounts_from_block_passes static_state_exposes_changed_accounts_passes)

end
