(* ===== verification/Mock_Rpc.thy ===== *)
theory Mock_Rpc
  imports Managers "HOL-Library.Monad_Syntax"
begin

text \<open>
  The mock of \<open>rex-sim/src/rpc.rs\<close> and the harnesses of \<open>manager_tests.rs\<close> that put a fetch
  manager on top of it.  The mock counts calls, remembers hints and can hold every call back at a
  gate, a semaphore.  A call has two halves, before and after the gate: what it leaves in the mock
  when it starts, and what it answers when it is let through.

  A harness is the manager among its tasks together with the mock.  It follows one schedule:
  a request is taken as soon as it is sent, alone in its burst, and the calls that may pass the
  gate finish and complete in the order in which they were made.  The lemmas
  \<open>get_runs\<close> and \<open>flush_runs\<close> show that this is a run of the manager like any other.
\<close>

section \<open>The mock\<close>

record 'c mock_rpc =
  mk_accounts :: "(address, 'c account_info option) fmap"
  mk_codes :: "(b256, 'c) fmap"
  mk_storage :: "(address \<times> u256, u256) fmap"
  mk_block_hashes :: "(u64, b256) fmap"
  mk_code_hints :: "address option list"
  mk_account_calls :: u64
  mk_code_calls :: u64
  mk_storage_calls :: u64
  mk_block_hash_calls :: u64
  mk_gate :: "nat option"

definition mock_new :: "'c mock_rpc" where
  "mock_new = \<lparr>mk_accounts = fmempty, mk_codes = fmempty, mk_storage = fmempty, mk_block_hashes = fmempty,
     mk_code_hints = [], mk_account_calls = 0, mk_code_calls = 0, mk_storage_calls = 0,
     mk_block_hash_calls = 0, mk_gate = None\<rparr>"

definition mock_gated :: "'c mock_rpc" where
  "mock_gated = mock_new\<lparr>mk_gate := Some 0\<rparr>"

definition add_permits :: "nat \<Rightarrow> 'c mock_rpc \<Rightarrow> 'c mock_rpc" where
  "add_permits n m = m\<lparr>mk_gate := map_option (\<lambda>k. k + n) (mk_gate m)\<rparr>"

text \<open>\<open>gate.acquire().await\<close>, and the permit forgotten; \<open>None\<close>: it waits.\<close>

definition mock_wait :: "'c mock_rpc \<Rightarrow> 'c mock_rpc option" where
  "mock_wait m =
    (case mk_gate m of
       None \<Rightarrow> Some m
     | Some 0 \<Rightarrow> None
     | Some (Suc k) \<Rightarrow> Some (m\<lparr>mk_gate := Some k\<rparr>))"

definition set_account :: "address \<Rightarrow> 'c account_info option \<Rightarrow> 'c mock_rpc \<Rightarrow> 'c mock_rpc" where
  "set_account address info m = m\<lparr>mk_accounts := fmupd address info (mk_accounts m)\<rparr>"

definition set_code :: "b256 \<Rightarrow> 'c \<Rightarrow> 'c mock_rpc \<Rightarrow> 'c mock_rpc" where
  "set_code code_hash code m = m\<lparr>mk_codes := fmupd code_hash code (mk_codes m)\<rparr>"

definition set_storage :: "address \<Rightarrow> u256 \<Rightarrow> u256 \<Rightarrow> 'c mock_rpc \<Rightarrow> 'c mock_rpc" where
  "set_storage address index value m = m\<lparr>mk_storage := fmupd (address, index) value (mk_storage m)\<rparr>"

definition set_block_hash :: "u64 \<Rightarrow> b256 \<Rightarrow> 'c mock_rpc \<Rightarrow> 'c mock_rpc" where
  "set_block_hash number hash m = m\<lparr>mk_block_hashes := fmupd number hash (mk_block_hashes m)\<rparr>"

text \<open>The four calls: their first half and their answer.\<close>

record ('c, 'call, 'resp, 'e) mock_call =
  mc_enter :: "'call \<Rightarrow> 'c mock_rpc \<Rightarrow> 'c mock_rpc"
  mc_answer :: "'c mock_rpc \<Rightarrow> 'call \<Rightarrow> 'e sim_error + 'resp"

definition ok_or :: "'a option \<Rightarrow> 'e \<Rightarrow> 'e + 'a" where
  "ok_or x e = (case x of Some v \<Rightarrow> Inr v | None \<Rightarrow> Inl e)"

definition mock_account :: "('c, address \<times> u64, 'c account_info option, 'e) mock_call" where
  "mock_account = \<lparr>
     mc_enter = (\<lambda>_ m. m\<lparr>mk_account_calls := mk_account_calls m + 1\<rparr>),
     mc_answer = (\<lambda>m (address, block). ok_or (fmlookup (mk_accounts m) address) (BlockNotFound block))\<rparr>"

definition mock_code :: "('c, b256 \<times> address option \<times> u64, 'c, 'e) mock_call" where
  "mock_code = \<lparr>
     mc_enter = (\<lambda>(_, address, _) m.
       m\<lparr>mk_code_calls := mk_code_calls m + 1, mk_code_hints := mk_code_hints m @ [address]\<rparr>),
     mc_answer = (\<lambda>m (code_hash, address, _).
       if address = None then Inl (MissingAddressHint code_hash)
       else ok_or (fmlookup (mk_codes m) code_hash) (MissingAddressHint code_hash))\<rparr>"

definition mock_storage :: "('c, address \<times> u256 \<times> u64, u256, 'e) mock_call" where
  "mock_storage = \<lparr>
     mc_enter = (\<lambda>_ m. m\<lparr>mk_storage_calls := mk_storage_calls m + 1\<rparr>),
     mc_answer = (\<lambda>m (address, index, block).
       ok_or (fmlookup (mk_storage m) (address, index)) (BlockNotFound block))\<rparr>"

definition mock_block_hash :: "('c, u64, b256, 'e) mock_call" where
  "mock_block_hash = \<lparr>
     mc_enter = (\<lambda>_ m. m\<lparr>mk_block_hash_calls := mk_block_hash_calls m + 1\<rparr>),
     mc_answer = (\<lambda>m number. ok_or (fmlookup (mk_block_hashes m) number) (BlockNotFound number))\<rparr>"

text \<open>\<open>get_block_number\<close> with a mock.\<close>

definition mock_block_number :: "'e sim_error + u64" where
  "mock_block_number = Inl (BlockNotFound 0)"

section \<open>A manager on the mock\<close>

type_synonym ('c, 'req, 'key, 'val, 'resp, 'cache, 'ctx, 'call, 'e) harness =
  "('req, 'key, 'val, 'resp, 'cache, 'ctx, 'call, 'e) msys \<times> 'c mock_rpc"

definition act ::
  "('req, 'key, 'val, 'resp, 'cache, 'ctx, 'side, 'call) fetch_spec \<Rightarrow> ('c, 'call, 'resp, 'e) mock_call
    \<Rightarrow> ('req, 'side, 'resp, 'e) mevent list
    \<Rightarrow> ('c, 'req, 'key, 'val, 'resp, 'cache, 'ctx, 'call, 'e) harness
    \<Rightarrow> ('c, 'req, 'key, 'val, 'resp, 'cache, 'ctx, 'call, 'e) harness option" where
  "act S D es h = map_option (\<lambda>s. (s, snd h)) (mexec S (\<lambda>c r. r = mc_answer D (snd h) c) (fst h) es)"

text \<open>A request: a hit is answered at once, a miss starts its call if there is a permit.\<close>

definition request ::
  "('req, 'key, 'val, 'resp, 'cache, 'ctx, 'side, 'call) fetch_spec \<Rightarrow> ('c, 'call, 'resp, 'e) mock_call
    \<Rightarrow> 'side list \<Rightarrow> 'req \<Rightarrow> ('c, 'req, 'key, 'val, 'resp, 'cache, 'ctx, 'call, 'e) harness
    \<Rightarrow> ('c, 'req, 'key, 'val, 'resp, 'cache, 'ctx, 'call, 'e) harness option" where
  "request S D sides req h = do {
     h \<leftarrow> act S D [EvBurst sides, EvRequest (length (sy_accepted (fst h))) req] h;
     (case sy_phase (fst h) of
        Acquiring _ _ \<Rightarrow> do {
          (s, m) \<leftarrow> act S D [EvAcquire, EvBurstEnd] h;
          Some (s, mc_enter D (tk_call (last (sy_running s))) m)}
      | _ \<Rightarrow> act S D [EvBurstEnd] h)}"

text \<open>The oldest call passes the gate, and its completion is taken.\<close>

definition land ::
  "('req, 'key, 'val, 'resp, 'cache, 'ctx, 'side, 'call) fetch_spec \<Rightarrow> ('c, 'call, 'resp, 'e) mock_call
    \<Rightarrow> ('c, 'req, 'key, 'val, 'resp, 'cache, 'ctx, 'call, 'e) harness
    \<Rightarrow> ('c, 'req, 'key, 'val, 'resp, 'cache, 'ctx, 'call, 'e) harness option" where
  "land S D h =
    (case sy_running (fst h) of
       [] \<Rightarrow> None
     | task # _ \<Rightarrow> do {
         m \<leftarrow> mock_wait (snd h);
         act S D [EvFinish 0 (mc_answer D m (tk_call task)), EvSend 0, EvComplete] (fst h, m)})"

fun land_up_to ::
  "('req, 'key, 'val, 'resp, 'cache, 'ctx, 'side, 'call) fetch_spec \<Rightarrow> ('c, 'call, 'resp, 'e) mock_call
    \<Rightarrow> nat \<Rightarrow> ('c, 'req, 'key, 'val, 'resp, 'cache, 'ctx, 'call, 'e) harness
    \<Rightarrow> ('c, 'req, 'key, 'val, 'resp, 'cache, 'ctx, 'call, 'e) harness" where
  "land_up_to S D 0 h = h"
| "land_up_to S D (Suc n) h = (case land S D h of None \<Rightarrow> h | Some h \<Rightarrow> land_up_to S D n h)"

definition settle ::
  "('req, 'key, 'val, 'resp, 'cache, 'ctx, 'side, 'call) fetch_spec \<Rightarrow> ('c, 'call, 'resp, 'e) mock_call
    \<Rightarrow> ('c, 'req, 'key, 'val, 'resp, 'cache, 'ctx, 'call, 'e) harness
    \<Rightarrow> ('c, 'req, 'key, 'val, 'resp, 'cache, 'ctx, 'call, 'e) harness" where
  "settle S D h = land_up_to S D (length (sy_running (fst h))) h"

text \<open>\<open>get\<close> of a harness; \<open>sides\<close> are the registrations that have arrived.\<close>

definition harness_get ::
  "('req, 'key, 'val, 'resp, 'cache, 'ctx, 'side, 'call) fetch_spec \<Rightarrow> ('c, 'call, 'resp, 'e) mock_call
    \<Rightarrow> 'side list \<Rightarrow> 'req \<Rightarrow> ('c, 'req, 'key, 'val, 'resp, 'cache, 'ctx, 'call, 'e) harness
    \<Rightarrow> ('c, 'req, 'key, 'val, 'resp, 'cache, 'ctx, 'call, 'e) harness option" where
  "harness_get S D sides req h = map_option (settle S D) (request S D sides req h)"

text \<open>\<open>flush\<close>: what can land is drained; the rest waits for the deadline, which is reported.\<close>

definition harness_flush ::
  "('req, 'key, 'val, 'resp, 'cache, 'ctx, 'side, 'call) fetch_spec \<Rightarrow> ('c, 'call, 'resp, 'e) mock_call
    \<Rightarrow> ('c, 'req, 'key, 'val, 'resp, 'cache, 'ctx, 'call, 'e) harness
    \<Rightarrow> ('cache \<times> bool \<times> ('c, 'req, 'key, 'val, 'resp, 'cache, 'ctx, 'call, 'e) harness) option" where
  "harness_flush S D h = do {
     h \<leftarrow> act S D [EvFlushBegin] h;
     let h = settle S D h;
     let timed_out = 0 < mg_inflight (sy_mg (fst h));
     h \<leftarrow> act S D [EvFlushEnd] h;
     Some (last (sy_flushed (fst h)), timed_out, h)}"

text \<open>\<open>recv_timeout(RECV).unwrap()\<close> of the reply with a ticket.\<close>

definition recv ::
  "nat \<Rightarrow> ('c, 'req, 'key, 'val, 'resp, 'cache, 'ctx, 'call, 'e) harness \<Rightarrow> ('e sim_error + 'resp) option" where
  "recv t h = map_of (sy_replies (fst h)) t"

definition open_gate ::
  "nat \<Rightarrow> ('c, 'req, 'key, 'val, 'resp, 'cache, 'ctx, 'call, 'e) harness
    \<Rightarrow> ('c, 'req, 'key, 'val, 'resp, 'cache, 'ctx, 'call, 'e) harness" where
  "open_gate n h = (fst h, add_permits n (snd h))"

section \<open>A harness makes runs of the manager\<close>

lemma mexec_run: "mexec S answers s es = Some s' \<Longrightarrow> (mstep S answers)\<^sup>*\<^sup>* s s'"
proof (induction es arbitrary: s)
  case (Cons e es)
  then show ?case
    by (auto split: option.splits intro: converse_rtranclp_into_rtranclp mexec1_sound)
qed simp

text \<open>The answers stay what they are, and the manager makes a run on them.\<close>

definition runs ::
  "('c, 'call, 'resp, 'e) mock_call \<Rightarrow> ('req, 'key, 'val, 'resp, 'cache, 'ctx, 'side, 'call) fetch_spec
    \<Rightarrow> ('c, 'req, 'key, 'val, 'resp, 'cache, 'ctx, 'call, 'e) harness
    \<Rightarrow> ('c, 'req, 'key, 'val, 'resp, 'cache, 'ctx, 'call, 'e) harness \<Rightarrow> bool" where
  "runs D S h h' \<longleftrightarrow> mc_answer D (snd h') = mc_answer D (snd h)
    \<and> (mstep S (\<lambda>c r. r = mc_answer D (snd h) c))\<^sup>*\<^sup>* (fst h) (fst h')"

lemma runs_refl: "runs D S h h"
  by (simp add: runs_def)

lemma runs_trans: "runs D S h h1 \<Longrightarrow> runs D S h1 h2 \<Longrightarrow> runs D S h h2"
  by (auto simp: runs_def intro: rtranclp_trans)

lemma act_runs: "act S D es h = Some h' \<Longrightarrow> runs D S h h'"
  by (auto simp: act_def runs_def dest: mexec_run)

text \<open>What a spec's calls must keep: the answers depend on the four maps only.\<close>

locale mock_laws =
  fixes D :: "('c, 'call, 'resp, 'e) mock_call"
  assumes enter_keeps: "mc_answer D (mc_enter D c m) = mc_answer D m"
    and gate_keeps: "mc_answer D (m\<lparr>mk_gate := g\<rparr>) = mc_answer D m"
begin

lemma runs_enter: "runs D S h (fst h, mc_enter D c (snd h))"
  by (simp add: runs_def enter_keeps)

lemma runs_wait: "mock_wait (snd h) = Some m \<Longrightarrow> runs D S h (fst h, m)"
  using gate_keeps by (auto simp: runs_def mock_wait_def split: option.splits nat.splits)

lemma request_runs:
  assumes "request S D sides req h = Some h'"
  shows "runs D S h h'"
proof -
  from assms obtain h1 where 1: "act S D [EvBurst sides, EvRequest (length (sy_accepted (fst h))) req] h = Some h1"
    and 2: "(case sy_phase (fst h1) of
        Acquiring _ _ \<Rightarrow> do {
          (s, m) \<leftarrow> act S D [EvAcquire, EvBurstEnd] h1;
          Some (s, mc_enter D (tk_call (last (sy_running s))) m)}
      | _ \<Rightarrow> act S D [EvBurstEnd] h1) = Some h'"
    unfolding request_def bind_eq_Some_conv by blast
  have "runs D S h1 h'"
  proof (cases "\<exists>r t. sy_phase (fst h1) = Acquiring r t")
    case True
    with 2 obtain s m where "act S D [EvAcquire, EvBurstEnd] h1 = Some (s, m)"
      and h': "h' = (s, mc_enter D (tk_call (last (sy_running s))) m)"
      by (auto simp: bind_eq_Some_conv)
    from runs_trans [OF act_runs [OF this(1)] runs_enter [of S "(s, m)"]] show ?thesis by (simp add: h')
  next
    case False
    with 2 have "act S D [EvBurstEnd] h1 = Some h'" by (cases "sy_phase (fst h1)") simp_all
    then show ?thesis by (rule act_runs)
  qed
  with act_runs [OF 1] show ?thesis by (rule runs_trans)
qed

lemma land_runs:
  assumes "land S D h = Some h'"
  shows "runs D S h h'"
proof -
  from assms obtain m es where "mock_wait (snd h) = Some m" "act S D es (fst h, m) = Some h'"
    unfolding land_def by (auto simp: bind_eq_Some_conv split: list.splits)
  from runs_trans [OF runs_wait [OF this(1)] act_runs [OF this(2)]] show ?thesis .
qed

lemma land_up_to_runs: "runs D S h (land_up_to S D n h)"
proof (induction n arbitrary: h)
  case (Suc n)
  show ?case
  proof (cases "land S D h")
    case (Some h1)
    from runs_trans [OF land_runs [OF Some] Suc] Some show ?thesis by simp
  qed (simp add: runs_refl)
qed (simp add: runs_refl)

lemma get_runs:
  assumes "harness_get S D sides req h = Some h'"
  shows "runs D S h h'"
proof -
  from assms obtain h1 where 1: "request S D sides req h = Some h1" "h' = settle S D h1"
    by (auto simp: harness_get_def)
  from runs_trans [OF request_runs [OF 1(1)] land_up_to_runs] show ?thesis by (simp add: 1(2) settle_def)
qed

lemma flush_runs:
  assumes "harness_flush S D h = Some (cache, timed_out, h')"
  shows "runs D S h h'"
proof -
  from assms obtain h1 where 1: "act S D [EvFlushBegin] h = Some h1"
    and 2: "act S D [EvFlushEnd] (settle S D h1) = Some h'"
    unfolding harness_flush_def bind_eq_Some_conv Let_def by blast
  from runs_trans [OF act_runs [OF 1] land_up_to_runs] act_runs [OF 2] show ?thesis
    unfolding settle_def by (rule runs_trans)
qed

end

lemmas mock_calls = mock_account_def mock_code_def mock_storage_def mock_block_hash_def

interpretation mock_acct: mock_laws mock_account
  by unfold_locales (simp_all add: mock_calls)

interpretation mock_cd: mock_laws mock_code
  by unfold_locales (auto simp: mock_calls)

interpretation mock_stor: mock_laws mock_storage
  by unfold_locales (simp_all add: mock_calls)

interpretation mock_bhash: mock_laws mock_block_hash
  by unfold_locales (simp_all add: mock_calls)

end
