(* ===== verification/Manager_Tests.thy ===== *)
theory Manager_Tests
  imports Mock_Rpc Unit_Tests "HOL-Library.Product_Lexorder"
begin

text \<open>
  \<open>rex-sim/src/manager_tests.rs\<close>: the tests of the four fetch managers, as runs of the harnesses of
  \<open>Mock_Rpc\<close>.  A test is a computation in the option monad; \<open>None\<close> is a failed assertion or a
  reply that does not come.  \<open>Bytecode::new_raw\<close> and \<open>KECCAK_EMPTY\<close> are arguments.
\<close>

section \<open>Helpers of the tests\<close>

definition info :: "u64 \<Rightarrow> b256 \<Rightarrow> bytes account_info" where
  "info balance code_hash = \<lparr>ai_balance = ucast balance, ai_nonce = balance, ai_code_hash = code_hash,
     ai_account_id = None, ai_code = None\<rparr>"

definition bytecode :: "(bytes \<Rightarrow> bytes) \<Rightarrow> u8 \<Rightarrow> bytes" where
  "bytecode new_raw byte = new_raw [0x60, byte]"

definition cfg :: "u64 \<Rightarrow> u64 \<Rightarrow> fetch_config" where
  "cfg permits flush_ms = \<lparr>fc_account = permits, fc_code = permits, fc_storage = permits,
     fc_block_hash = permits, fc_rpc_timeout_ms = 1000, fc_wait_timeout_ms = 2000,
     fc_flush_timeout_ms = flush_ms\<rparr>"

text \<open>An assertion; \<open>until\<close>, which waits for a condition, is one too: it holds when the schedule gets there.\<close>

definition expect :: "bool \<Rightarrow> unit option" where
  "expect b = (if b then Some () else None)"

text \<open>An assertion on a reply that has to be there.\<close>

definition expect_reply ::
  "nat \<Rightarrow> (unit sim_error + 'resp \<Rightarrow> bool)
    \<Rightarrow> ('c, 'req, 'key, 'val, 'resp, 'cache, 'ctx, 'call, unit) harness \<Rightarrow> unit option" where
  "expect_reply t P h = (case recv t h of Some r \<Rightarrow> expect (P r) | None \<Rightarrow> None)"

section \<open>The harnesses\<close>

type_synonym account_harness =
  "(bytes, account_request, address, bytes account_info, bytes account_info option, bytes account_cache,
    code_registration list, address \<times> u64, unit) harness"

definition account_harness :: "bytes mock_rpc \<Rightarrow> fetch_config \<Rightarrow> account_harness" where
  "account_harness rpc fetch = (msys_init account_spec [] fetch, rpc)"

definition account_get :: "address \<Rightarrow> u64 \<Rightarrow> b256 \<Rightarrow> account_harness \<Rightarrow> account_harness option" where
  "account_get address block block_hash =
    harness_get account_spec mock_account []
      \<lparr>ar_address = address, ar_block = block, ar_block_hash = block_hash\<rparr>"

definition account_flush :: "account_harness \<Rightarrow> (bytes account_cache \<times> bool \<times> account_harness) option" where
  "account_flush = harness_flush account_spec mock_account"

type_synonym code_harness =
  "(bytes, code_request, b256, bytes, bytes, bytes code_cache, code_hints,
    b256 \<times> address option \<times> u64, unit) harness"

definition code_harness :: "bytes mock_rpc \<Rightarrow> fetch_config \<Rightarrow> code_harness" where
  "code_harness rpc fetch = (msys_init code_spec fmempty fetch, rpc)"

definition code_get ::
  "code_registration list \<Rightarrow> b256 \<Rightarrow> u64 \<Rightarrow> address option \<Rightarrow> code_harness \<Rightarrow> code_harness option" where
  "code_get regs code_hash block hint =
    harness_get code_spec mock_code regs
      \<lparr>cr_code_hash = code_hash, cr_block = block, cr_address_hint = hint\<rparr>"

definition code_flush :: "code_harness \<Rightarrow> (bytes code_cache \<times> bool \<times> code_harness) option" where
  "code_flush = harness_flush code_spec mock_code"

type_synonym storage_harness =
  "(bytes, storage_request, address \<times> u256, u256, u256, storage_cache, unit,
    address \<times> u256 \<times> u64, unit) harness"

definition storage_harness :: "bytes mock_rpc \<Rightarrow> fetch_config \<Rightarrow> storage_harness" where
  "storage_harness rpc fetch = (msys_init storage_spec () fetch, rpc)"

definition storage_get :: "address \<Rightarrow> u256 \<Rightarrow> u64 \<Rightarrow> b256 \<Rightarrow> storage_harness \<Rightarrow> storage_harness option" where
  "storage_get address index block block_hash =
    harness_get storage_spec mock_storage []
      \<lparr>sr_address = address, sr_index = index, sr_block = block, sr_block_hash = block_hash\<rparr>"

definition storage_flush :: "storage_harness \<Rightarrow> (storage_cache \<times> bool \<times> storage_harness) option" where
  "storage_flush = harness_flush storage_spec mock_storage"

type_synonym block_hash_harness =
  "(bytes, block_hash_request, u64, b256, b256, block_hash_cache, unit, u64, unit) harness"

definition block_hash_harness :: "bytes mock_rpc \<Rightarrow> fetch_config \<Rightarrow> block_hash_harness" where
  "block_hash_harness rpc fetch = (msys_init block_hash_spec () fetch, rpc)"

definition block_hash_get :: "u64 \<Rightarrow> b256 \<Rightarrow> block_hash_harness \<Rightarrow> block_hash_harness option" where
  "block_hash_get number at_block_hash =
    harness_get block_hash_spec mock_block_hash [] \<lparr>br_number = number, br_at_block_hash = at_block_hash\<rparr>"

definition block_hash_flush ::
  "block_hash_harness \<Rightarrow> (block_hash_cache \<times> bool \<times> block_hash_harness) option" where
  "block_hash_flush = harness_flush block_hash_spec mock_block_hash"

text \<open>\<open>assert_eq!(first.unwrap().unwrap().balance, ..)\<close>\<close>

definition has_balance :: "u256 \<Rightarrow> unit sim_error + bytes account_info option \<Rightarrow> bool" where
  "has_balance b r = (case r of Inr (Some i) \<Rightarrow> ai_balance i = b | _ \<Rightarrow> False)"

section \<open>The account manager\<close>

definition t_account_cache_hit_skips_rpc :: "b256 \<Rightarrow> unit option" where
  "t_account_cache_hit_skips_rpc KECCAK_EMPTY = do {
     let rpc = set_account (test_addr 1) (Some (info 10 KECCAK_EMPTY)) mock_new;
     h \<leftarrow> account_get (test_addr 1) 100 (test_hash 1) (account_harness rpc (cfg 4 5000));
     expect_reply 0 (has_balance 10) h;
     expect (mk_account_calls (snd h) = 1);
     h \<leftarrow> account_get (test_addr 1) 100 (test_hash 1) h;
     expect_reply 1 (has_balance 10) h;
     expect (mk_account_calls (snd h) = 1)}"

definition two_accounts :: "bytes mock_rpc" where
  "two_accounts = set_account (test_addr 2) (Some (info 20 (test_hash 0xbb)))
     (set_account (test_addr 1) (Some (info 10 (test_hash 0xaa))) mock_gated)"

definition t_account_stale_epoch_completion_is_not_cached :: "unit option" where
  "t_account_stale_epoch_completion_is_not_cached = do {
     h \<leftarrow> account_get (test_addr 1) 100 (test_hash 1) (account_harness two_accounts (cfg 8 5000));
     expect (mk_account_calls (snd h) = 1);
     h \<leftarrow> account_get (test_addr 2) 101 (test_hash 2) h;
     expect (mk_account_calls (snd h) = 2);
     let h = settle account_spec mock_account (open_gate 64 h);
     expect_reply 0 (has_balance 10) h;
     expect_reply 1 (has_balance 20) h;
     expect (mk_account_calls (snd h) = 2);
     h \<leftarrow> account_get (test_addr 1) 101 (test_hash 2) h;
     expect_reply 2 (has_balance 10) h;
     expect (mk_account_calls (snd h) = 3);
     h \<leftarrow> account_get (test_addr 2) 101 (test_hash 2) h;
     expect_reply 3 (has_balance 20) h;
     expect (mk_account_calls (snd h) = 3)}"

text \<open>The registrations are what the manager has sent, its context.\<close>

definition t_account_registration_fires_even_when_epoch_is_stale :: "unit option" where
  "t_account_registration_fires_even_when_epoch_is_stale = do {
     h \<leftarrow> account_get (test_addr 1) 100 (test_hash 1) (account_harness two_accounts (cfg 8 5000));
     expect (mk_account_calls (snd h) = 1);
     h \<leftarrow> account_get (test_addr 2) 101 (test_hash 2) h;
     expect (mk_account_calls (snd h) = 2);
     let h = settle account_spec mock_account (open_gate 64 h);
     expect_reply 0 (\<lambda>r. \<exists>i. r = Inr i) h;
     expect_reply 1 (\<lambda>r. \<exists>i. r = Inr i) h;
     let seen = map (\<lambda>reg. (reg_code_hash reg, reg_address reg)) (mg_ctx (sy_mg (fst h)));
     expect (sort seen = [(test_hash 0xaa, test_addr 1), (test_hash 0xbb, test_addr 2)])}"

definition t_account_none_result_is_not_cached :: "unit option" where
  "t_account_none_result_is_not_cached = do {
     let rpc = set_account (test_addr 1) None mock_new;
     h \<leftarrow> account_get (test_addr 1) 100 (test_hash 1) (account_harness rpc (cfg 4 5000));
     expect_reply 0 (\<lambda>r. r = Inr None) h;
     expect (mk_account_calls (snd h) = 1);
     h \<leftarrow> account_get (test_addr 1) 100 (test_hash 1) h;
     expect_reply 1 (\<lambda>r. r = Inr None) h;
     expect (mk_account_calls (snd h) = 2);
     expect (mg_ctx (sy_mg (fst h)) = [])}"

text \<open>\<open>for n in 1..=8\<close>, twice; the elapsed time is whether the flush ran into its deadline.\<close>

fun get_all :: "u64 list \<Rightarrow> account_harness \<Rightarrow> account_harness option" where
  "get_all [] h = Some h"
| "get_all (n # ns) h = do {
     h \<leftarrow> account_get (test_addr n) 100 (test_hash 1) h;
     get_all ns h}"

fun expect_all :: "nat list \<Rightarrow> account_harness \<Rightarrow> unit option" where
  "expect_all [] h = Some ()"
| "expect_all (t # ts) h = do {
     expect_reply t (\<lambda>r. \<exists>i. r = Inr (Some i)) h;
     expect_all ts h}"

definition t_account_inflight_returns_to_zero_so_flush_does_not_wait :: "b256 \<Rightarrow> unit option" where
  "t_account_inflight_returns_to_zero_so_flush_does_not_wait KECCAK_EMPTY = do {
     let ns = [1, 2, 3, 4, 5, 6, 7, 8];
     let rpc = fold (\<lambda>n. set_account (test_addr n) (Some (info n KECCAK_EMPTY))) ns mock_new;
     h \<leftarrow> get_all ns (account_harness rpc (cfg 4 5000));
     expect_all [0, 1, 2, 3, 4, 5, 6, 7] h;
     expect (mk_account_calls (snd h) = 8);
     (cache, timed_out, h) \<leftarrow> account_flush h;
     expect (fm_len (tc_data cache) = 8);
     expect (tc_block_hash cache = test_hash 1);
     expect (\<not> timed_out)}"

section \<open>The code manager\<close>

definition t_code_completion_across_flush_boundary_is_cached :: "(bytes \<Rightarrow> bytes) \<Rightarrow> unit option" where
  "t_code_completion_across_flush_boundary_is_cached new_raw = do {
     let rpc = set_code (test_hash 0xcc) (bytecode new_raw 1) mock_gated;
     h \<leftarrow> code_get [] (test_hash 0xcc) 100 (Some (test_addr 1)) (code_harness rpc (cfg 4 100));
     expect (mk_code_calls (snd h) = 1);
     (flushed, timed_out, h) \<leftarrow> code_flush h;
     expect (fm_is_empty (cc_data flushed));
     let h = settle code_spec mock_code (open_gate 64 h);
     expect_reply 0 (\<lambda>r. r = Inr (bytecode new_raw 1)) h;
     h \<leftarrow> code_get [] (test_hash 0xcc) 101 None h;
     expect_reply 1 (\<lambda>r. r = Inr (bytecode new_raw 1)) h;
     expect (mk_code_calls (snd h) = 1)}"

definition t_code_registration_supplies_missing_address_hint :: "(bytes \<Rightarrow> bytes) \<Rightarrow> unit option" where
  "t_code_registration_supplies_missing_address_hint new_raw = do {
     let rpc = set_code (test_hash 0xcc) (bytecode new_raw 2) mock_new;
     h \<leftarrow> code_get [] (test_hash 0xcc) 100 None (code_harness rpc (cfg 4 5000));
     expect_reply 0 (\<lambda>r. \<exists>c. r = Inl (MissingAddressHint c)) h;
     expect (mk_code_calls (snd h) = 1);
     h \<leftarrow> code_get [\<lparr>reg_code_hash = test_hash 0xcc, reg_address = test_addr 7\<rparr>] (test_hash 0xcc) 100 None h;
     expect_reply 1 (\<lambda>r. r = Inr (bytecode new_raw 2)) h;
     expect (mk_code_calls (snd h) = 2);
     expect (mk_code_hints (snd h) = [None, Some (test_addr 7)])}"

section \<open>The storage manager\<close>

definition t_storage_cache_hit_skips_rpc :: "unit option" where
  "t_storage_cache_hit_skips_rpc = do {
     let rpc = set_storage (test_addr 1) 7 42 mock_new;
     h \<leftarrow> storage_get (test_addr 1) 7 100 (test_hash 1) (storage_harness rpc (cfg 4 5000));
     expect_reply 0 (\<lambda>r. r = Inr 42) h;
     expect (mk_storage_calls (snd h) = 1);
     h \<leftarrow> storage_get (test_addr 1) 7 100 (test_hash 1) h;
     expect_reply 1 (\<lambda>r. r = Inr 42) h;
     expect (mk_storage_calls (snd h) = 1)}"

definition t_storage_stale_epoch_completion_is_not_cached :: "unit option" where
  "t_storage_stale_epoch_completion_is_not_cached = do {
     let rpc = set_storage (test_addr 2) 8 43 (set_storage (test_addr 1) 7 42 mock_gated);
     h \<leftarrow> storage_get (test_addr 1) 7 100 (test_hash 1) (storage_harness rpc (cfg 8 5000));
     expect (mk_storage_calls (snd h) = 1);
     h \<leftarrow> storage_get (test_addr 2) 8 101 (test_hash 2) h;
     expect (mk_storage_calls (snd h) = 2);
     let h = settle storage_spec mock_storage (open_gate 64 h);
     expect_reply 0 (\<lambda>r. r = Inr 42) h;
     expect_reply 1 (\<lambda>r. r = Inr 43) h;
     h \<leftarrow> storage_get (test_addr 1) 7 101 (test_hash 2) h;
     expect_reply 2 (\<lambda>r. r = Inr 42) h;
     expect (mk_storage_calls (snd h) = 3);
     h \<leftarrow> storage_get (test_addr 2) 8 101 (test_hash 2) h;
     expect_reply 3 (\<lambda>r. r = Inr 43) h;
     expect (mk_storage_calls (snd h) = 3)}"

definition t_storage_completion_abandoned_by_flush_is_not_cached :: "unit option" where
  "t_storage_completion_abandoned_by_flush_is_not_cached = do {
     let rpc = set_storage (test_addr 1) 7 42 mock_gated;
     h \<leftarrow> storage_get (test_addr 1) 7 100 (test_hash 1) (storage_harness rpc (cfg 4 100));
     expect (mk_storage_calls (snd h) = 1);
     (flushed, timed_out, h) \<leftarrow> storage_flush h;
     expect (fm_is_empty (tc_data flushed));
     let h = settle storage_spec mock_storage (open_gate 64 h);
     expect_reply 0 (\<lambda>r. r = Inr 42) h;
     (after, timed_out, h) \<leftarrow> storage_flush h;
     expect (fm_is_empty (tc_data after))}"

definition t_storage_cache_key_is_address_index_pair :: "unit option" where
  "t_storage_cache_key_is_address_index_pair = do {
     let rpc = set_storage (test_addr 1) 8 43 (set_storage (test_addr 1) 7 42 mock_new);
     h \<leftarrow> storage_get (test_addr 1) 7 100 (test_hash 1) (storage_harness rpc (cfg 4 5000));
     expect_reply 0 (\<lambda>r. r = Inr 42) h;
     expect (mk_storage_calls (snd h) = 1);
     h \<leftarrow> storage_get (test_addr 1) 8 100 (test_hash 1) h;
     expect_reply 1 (\<lambda>r. r = Inr 43) h;
     expect (mk_storage_calls (snd h) = 2);
     h \<leftarrow> storage_get (test_addr 1) 7 100 (test_hash 1) h;
     expect_reply 2 (\<lambda>r. r = Inr 42) h;
     h \<leftarrow> storage_get (test_addr 1) 8 100 (test_hash 1) h;
     expect_reply 3 (\<lambda>r. r = Inr 43) h;
     expect (mk_storage_calls (snd h) = 2);
     (cache, _, _) \<leftarrow> storage_flush h;
     expect (tc_block_hash cache = test_hash 1);
     expect (fmlookup (tc_data cache) (test_addr 1, 7) = Some 42);
     expect (fmlookup (tc_data cache) (test_addr 1, 8) = Some 43);
     expect (fm_len (tc_data cache) = 2)}"

section \<open>The block-hash manager\<close>

definition t_block_hash_cache_hit_and_flush_returns_tagged_cache :: "unit option" where
  "t_block_hash_cache_hit_and_flush_returns_tagged_cache = do {
     let rpc = set_block_hash 99 (test_hash 0x99) mock_new;
     h \<leftarrow> block_hash_get 99 (test_hash 1) (block_hash_harness rpc (cfg 4 5000));
     expect_reply 0 (\<lambda>r. r = Inr (test_hash 0x99)) h;
     expect (mk_block_hash_calls (snd h) = 1);
     h \<leftarrow> block_hash_get 99 (test_hash 1) h;
     expect_reply 1 (\<lambda>r. r = Inr (test_hash 0x99)) h;
     expect (mk_block_hash_calls (snd h) = 1);
     (cache, timed_out, h) \<leftarrow> block_hash_flush h;
     expect (\<not> timed_out);
     expect (tc_block_hash cache = test_hash 1);
     expect (fmlookup (tc_data cache) 99 = Some (test_hash 0x99))}"

definition t_block_hash_tag_change_clears_cache :: "unit option" where
  "t_block_hash_tag_change_clears_cache = do {
     let rpc = set_block_hash 99 (test_hash 0x99) mock_new;
     h \<leftarrow> block_hash_get 99 (test_hash 1) (block_hash_harness rpc (cfg 4 5000));
     expect_reply 0 (\<lambda>r. \<exists>v. r = Inr v) h;
     expect (mk_block_hash_calls (snd h) = 1);
     h \<leftarrow> block_hash_get 99 (test_hash 2) h;
     expect_reply 1 (\<lambda>r. \<exists>v. r = Inr v) h;
     expect (mk_block_hash_calls (snd h) = 2);
     (cache, timed_out, h) \<leftarrow> block_hash_flush h;
     expect (tc_block_hash cache = test_hash 2)}"

section \<open>They all pass\<close>

lemmas mock_run = mock_new_def mock_gated_def add_permits_def mock_wait_def set_account_def set_code_def
  set_storage_def set_block_hash_def ok_or_def mock_calls

lemmas harness_run = act_def request_def land_def settle_def harness_get_def harness_flush_def recv_def
  open_gate_def expect_def expect_reply_def bytecode_def info_def cfg_def has_balance_def two_accounts_def
  account_harness_def account_get_def account_flush_def code_harness_def code_get_def code_flush_def
  storage_harness_def storage_get_def storage_flush_def block_hash_harness_def block_hash_get_def
  block_hash_flush_def

lemmas manager_run = msys_init_def manager_new_def drain_side_def retag_def spawn_fetch_def finish_task_def
  take_completion_def apply_completion_def flush_take_def COMPLETION_CHANNEL_DEPTH_def spec_defs

lemmas test_run = mock_run harness_run manager_run test_hash_eq test_addr_eq fm_simps fm_len_def
  fcard_finsert_if

lemma account_cache_hit_skips_rpc_passes: "t_account_cache_hit_skips_rpc k = Some ()"
  by (simp add: t_account_cache_hit_skips_rpc_def test_run)

lemma account_stale_epoch_completion_is_not_cached_passes: "t_account_stale_epoch_completion_is_not_cached = Some ()"
  by (simp add: t_account_stale_epoch_completion_is_not_cached_def test_run)

lemma account_registration_fires_even_when_epoch_is_stale_passes: "t_account_registration_fires_even_when_epoch_is_stale = Some ()"
  by (simp add: t_account_registration_fires_even_when_epoch_is_stale_def test_run)

lemma account_none_result_is_not_cached_passes: "t_account_none_result_is_not_cached = Some ()"
  by (simp add: t_account_none_result_is_not_cached_def test_run)

lemma account_inflight_returns_to_zero_so_flush_does_not_wait_passes: "t_account_inflight_returns_to_zero_so_flush_does_not_wait k = Some ()"
  by (simp add: t_account_inflight_returns_to_zero_so_flush_does_not_wait_def test_run)

lemma code_completion_across_flush_boundary_is_cached_passes: "t_code_completion_across_flush_boundary_is_cached new_raw = Some ()"
  by (simp add: t_code_completion_across_flush_boundary_is_cached_def test_run)

lemma code_registration_supplies_missing_address_hint_passes: "t_code_registration_supplies_missing_address_hint new_raw = Some ()"
  by (simp add: t_code_registration_supplies_missing_address_hint_def test_run)

lemma storage_cache_hit_skips_rpc_passes: "t_storage_cache_hit_skips_rpc = Some ()"
  by (simp add: t_storage_cache_hit_skips_rpc_def test_run)

lemma storage_stale_epoch_completion_is_not_cached_passes: "t_storage_stale_epoch_completion_is_not_cached = Some ()"
  by (simp add: t_storage_stale_epoch_completion_is_not_cached_def test_run)

lemma storage_completion_abandoned_by_flush_is_not_cached_passes: "t_storage_completion_abandoned_by_flush_is_not_cached = Some ()"
  by (simp add: t_storage_completion_abandoned_by_flush_is_not_cached_def test_run)

lemma storage_cache_key_is_address_index_pair_passes: "t_storage_cache_key_is_address_index_pair = Some ()"
  by (simp add: t_storage_cache_key_is_address_index_pair_def test_run)

lemma block_hash_cache_hit_and_flush_returns_tagged_cache_passes: "t_block_hash_cache_hit_and_flush_returns_tagged_cache = Some ()"
  by (simp add: t_block_hash_cache_hit_and_flush_returns_tagged_cache_def test_run)

lemma block_hash_tag_change_clears_cache_passes: "t_block_hash_tag_change_clears_cache = Some ()"
  by (simp add: t_block_hash_tag_change_clears_cache_def test_run)

text \<open>
  All tests of the four managers pass, each a run of its manager.
\<close>

theorem manager_tests_pass:
  "t_account_cache_hit_skips_rpc k = Some ()
   \<and> t_account_stale_epoch_completion_is_not_cached = Some ()
   \<and> t_account_registration_fires_even_when_epoch_is_stale = Some ()
   \<and> t_account_none_result_is_not_cached = Some ()
   \<and> t_account_inflight_returns_to_zero_so_flush_does_not_wait k = Some ()
   \<and> t_code_completion_across_flush_boundary_is_cached new_raw = Some ()
   \<and> t_code_registration_supplies_missing_address_hint new_raw = Some ()
   \<and> t_storage_cache_hit_skips_rpc = Some ()
   \<and> t_storage_stale_epoch_completion_is_not_cached = Some ()
   \<and> t_storage_completion_abandoned_by_flush_is_not_cached = Some ()
   \<and> t_storage_cache_key_is_address_index_pair = Some ()
   \<and> t_block_hash_cache_hit_and_flush_returns_tagged_cache = Some ()
   \<and> t_block_hash_tag_change_clears_cache = Some ()"
  by (intro conjI account_cache_hit_skips_rpc_passes
      account_stale_epoch_completion_is_not_cached_passes
      account_registration_fires_even_when_epoch_is_stale_passes
      account_none_result_is_not_cached_passes
      account_inflight_returns_to_zero_so_flush_does_not_wait_passes
      code_completion_across_flush_boundary_is_cached_passes
      code_registration_supplies_missing_address_hint_passes
      storage_cache_hit_skips_rpc_passes
      storage_stale_epoch_completion_is_not_cached_passes
      storage_completion_abandoned_by_flush_is_not_cached_passes
      storage_cache_key_is_address_index_pair_passes
      block_hash_cache_hit_and_flush_returns_tagged_cache_passes
      block_hash_tag_change_clears_cache_passes)

end
