(* ===== verification/Artifacts.thy ===== *)
theory Artifacts
  imports Prelude "HOL-Library.Sublist" "HOL-Library.Product_Lexorder"
begin

text \<open>
  \<open>rex-sim/src/artifacts.rs\<close>: the names under which recorded notifications are stored (also
  written by \<open>rex-cons/examples/subscribe.rs\<close>) and the two directory listings that read them
  back.  A directory is the list of its file names, in the order \<open>read_dir\<close> gives them.
  \<open>arg_after\<close> is how the example programs read an option of their command line.
\<close>

section \<open>Decimal numbers\<close>

definition digit :: "nat \<Rightarrow> char" where
  "digit d = char_of (48 + d)"

text \<open>\<open>Display\<close> of a \<open>u64\<close>.\<close>

fun dec :: "nat \<Rightarrow> string" where
  "dec n = (if n < 10 then [digit n] else dec (n div 10) @ [digit (n mod 10)])"

declare dec.simps [simp del]

definition show_u64 :: "u64 \<Rightarrow> string" where
  "show_u64 n = dec (unat n)"

definition is_digit :: "char \<Rightarrow> bool" where
  "is_digit c \<longleftrightarrow> 48 \<le> (of_char c :: nat) \<and> (of_char c :: nat) \<le> 57"

definition value_of :: "string \<Rightarrow> nat" where
  "value_of s = foldl (\<lambda>acc c. acc * 10 + (of_char c - 48)) 0 s"

text \<open>\<open>str::parse::<u64>\<close>: an optional plus sign, at least one digit, no overflow.\<close>

definition parse_u64 :: "string \<Rightarrow> u64 option" where
  "parse_u64 s =
    (let s = (case s of c # rest \<Rightarrow> if c = CHR ''+'' then rest else s | [] \<Rightarrow> s)
     in if s \<noteq> [] \<and> list_all is_digit s \<and> value_of s < 2 ^ 64 then Some (of_nat (value_of s)) else None)"

section \<open>String operations\<close>

definition strip_prefix :: "string \<Rightarrow> string \<Rightarrow> string option" where
  "strip_prefix p s = (if prefix p s then Some (drop (length p) s) else None)"

definition strip_suffix :: "string \<Rightarrow> string \<Rightarrow> string option" where
  "strip_suffix p s = (if suffix p s then Some (take (length s - length p) s) else None)"

text \<open>\<open>str::split\<close> on a non-empty pattern; \<open>acc\<close> is the part since the last match, reversed.\<close>

function split_str_acc :: "string \<Rightarrow> string \<Rightarrow> string \<Rightarrow> string list" where
  "split_str_acc pat acc [] = [rev acc]"
| "split_str_acc pat acc (c # cs) =
     (if pat \<noteq> [] \<and> prefix pat (c # cs) then rev acc # split_str_acc pat [] (drop (length pat) (c # cs))
      else split_str_acc pat (c # acc) cs)"
  by pat_completeness auto
termination
  by (relation "measure (\<lambda>(pat, acc, s). length s)") (auto simp: length_greater_0_conv [symmetric]
      simp del: length_greater_0_conv)

definition split_str :: "string \<Rightarrow> string \<Rightarrow> string list" where
  "split_str pat s = split_str_acc pat [] s"

text \<open>\<open>args.iter().position(|a| a == flag).and_then(|i| args.get(i + 1))\<close>\<close>

fun arg_after :: "string \<Rightarrow> string list \<Rightarrow> string option" where
  "arg_after flag [] = None"
| "arg_after flag (a # rest) =
    (if a = flag then (case rest of [] \<Rightarrow> None | v # _ \<Rightarrow> Some v) else arg_after flag rest)"

section \<open>File names\<close>

definition range_name :: "u64 \<Rightarrow> u64 \<Rightarrow> string" where
  "range_name a b = show_u64 a @ ''_'' @ show_u64 b"

text \<open>The names the subscriber writes, for a commit, a reorg and a revert.\<close>

definition commit_filename :: "u64 \<Rightarrow> u64 \<Rightarrow> string" where
  "commit_filename start end = ''commit_'' @ range_name start end @ ''.bincode''"

definition reorg_filename :: "u64 \<Rightarrow> u64 \<Rightarrow> u64 \<Rightarrow> u64 \<Rightarrow> string" where
  "reorg_filename os oe ns ne = ''reorg_'' @ range_name os oe @ ''_to_'' @ range_name ns ne @ ''.bincode''"

definition revert_filename :: "u64 \<Rightarrow> u64 \<Rightarrow> string" where
  "revert_filename start end = ''revert_'' @ range_name start end @ ''.bincode''"

text \<open>A directory is read through a function from names to contents.\<close>

definition load_notification :: "(string \<Rightarrow> 'b option) \<Rightarrow> ('b \<Rightarrow> 'n option) \<Rightarrow> string \<Rightarrow> 'n option" where
  "load_notification files deserialize path = Option.bind (files path) deserialize"

definition load_commit :: "(string \<Rightarrow> 'b option) \<Rightarrow> ('b \<Rightarrow> 'n option) \<Rightarrow> u64 \<Rightarrow> 'n option" where
  "load_commit files deserialize block = load_notification files deserialize (commit_filename block block)"

definition load_reorg ::
  "(string \<Rightarrow> 'b option) \<Rightarrow> ('b \<Rightarrow> 'n option) \<Rightarrow> u64 \<Rightarrow> u64 \<Rightarrow> u64 \<Rightarrow> u64 \<Rightarrow> 'n option" where
  "load_reorg files deserialize os oe ns ne =
    load_notification files deserialize (reorg_filename os oe ns ne)"

definition load_revert :: "(string \<Rightarrow> 'b option) \<Rightarrow> ('b \<Rightarrow> 'n option) \<Rightarrow> u64 \<Rightarrow> u64 \<Rightarrow> 'n option" where
  "load_revert files deserialize start end =
    load_notification files deserialize (revert_filename start end)"

section \<open>Listings\<close>

definition commit_block_of :: "string \<Rightarrow> u64 option" where
  "commit_block_of filename =
    (if prefix ''commit_'' filename \<and> suffix ''.bincode'' filename
     then (case strip_prefix ''commit_'' filename of
             None \<Rightarrow> None
           | Some s \<Rightarrow> (case split_str ''_'' s of [] \<Rightarrow> None | block_str # _ \<Rightarrow> parse_u64 block_str))
     else None)"

definition list_commit_blocks :: "string list \<Rightarrow> u64 list" where
  "list_commit_blocks names = sort (List.map_filter commit_block_of names)"

definition reorg_of :: "string \<Rightarrow> (u64 \<times> u64 \<times> u64 \<times> u64) option" where
  "reorg_of filename =
    (if prefix ''reorg_'' filename \<and> suffix ''.bincode'' filename
     then
       (let s = (case strip_prefix ''reorg_'' filename of Some s \<Rightarrow> s | None \<Rightarrow> []);
            s = (case strip_suffix ''.bincode'' s of Some s \<Rightarrow> s | None \<Rightarrow> []);
            parts = split_str ''_to_'' s
        in case parts of
             [p0, p1] \<Rightarrow>
               (case (split_str ''_'' p0, split_str ''_'' p1) of
                  ([a, b], [c, d]) \<Rightarrow>
                    (case (parse_u64 a, parse_u64 b, parse_u64 c, parse_u64 d) of
                       (Some os, Some oe, Some ns, Some ne) \<Rightarrow> Some (os, oe, ns, ne)
                     | _ \<Rightarrow> None)
                | _ \<Rightarrow> None)
           | _ \<Rightarrow> None)
     else None)"

definition list_reorgs :: "string list \<Rightarrow> (u64 \<times> u64 \<times> u64 \<times> u64) list" where
  "list_reorgs names = sort (List.map_filter reorg_of names)"

section \<open>Numbers read back\<close>

lemma of_char_digit: "d < 10 \<Longrightarrow> (of_char (digit d) :: nat) = 48 + d"
  by (simp add: digit_def)

lemma is_digit_digit: "d < 10 \<Longrightarrow> is_digit (digit d)"
  by (simp add: is_digit_def of_char_digit)

lemma dec_digits: "list_all is_digit (dec n) \<and> dec n \<noteq> []"
proof (induction n rule: dec.induct)
  case (1 n)
  then show ?case by (subst (1 2) dec.simps) (auto simp: is_digit_digit)
qed

lemma value_of_dec: "value_of (dec n) = n"
proof (induction n rule: dec.induct)
  case (1 n)
  then show ?case by (subst dec.simps) (auto simp: value_of_def of_char_digit)
qed

lemma digit_not_plus: "is_digit c \<Longrightarrow> c \<noteq> CHR ''+''"
  by (auto simp: is_digit_def)

lemma digit_not_underscore: "is_digit c \<Longrightarrow> c \<noteq> CHR ''_''"
  by (auto simp: is_digit_def)

lemma parse_show [simp]: "parse_u64 (show_u64 n) = Some n"
proof -
  obtain c cs where d: "dec (unat n) = c # cs" using dec_digits [of "unat n"] by (cases "dec (unat n)") auto
  have "unat n < 2 ^ LENGTH(64)" by (rule unsigned_less)
  with d dec_digits [of "unat n"] value_of_dec [of "unat n"] digit_not_plus [of c] show ?thesis
    by (simp add: parse_u64_def show_u64_def)
qed

lemma split_digits:
  "list_all is_digit ds \<Longrightarrow> hd pat = CHR ''_'' \<Longrightarrow>
    split_str_acc pat acc (ds @ rest) = split_str_acc pat (rev ds @ acc) rest"
proof (induction ds arbitrary: acc)
  case Nil
  then show ?case by simp
next
  case (Cons d ds)
  then have "\<not> (pat \<noteq> [] \<and> prefix pat (d # ds @ rest))"
    using digit_not_underscore [of d] by (cases pat) auto
  with Cons show ?case by auto
qed

lemma show_digits: "list_all is_digit (show_u64 n)"
  using dec_digits by (simp add: show_u64_def)

lemma show_head: "\<exists>c cs. show_u64 n = c # cs \<and> is_digit c"
  using dec_digits [of "unat n"] by (cases "dec (unat n)") (auto simp: show_u64_def)

lemma split_range: "split_str ''_'' (range_name a b) = [show_u64 a, show_u64 b]"
  using split_digits [OF show_digits, of "''_''" "[]" b "[]"]
  by (simp add: split_str_def range_name_def split_digits [OF show_digits])

lemma split_to:
  "split_str ''_to_'' (range_name a b @ ''_to_'' @ range_name c d) = [range_name a b, range_name c d]"
proof -
  have u: "split_str_acc ''_to_'' acc (CHR ''_'' # show_u64 n @ rest) =
      split_str_acc ''_to_'' (rev (show_u64 n) @ CHR ''_'' # acc) rest" for n acc rest
  proof -
    obtain x xs where x: "show_u64 n = x # xs" "is_digit x" using show_head by blast
    then have "\<not> prefix ''_to_'' (CHR ''_'' # show_u64 n @ rest)"
      by (auto simp: is_digit_def)
    then show ?thesis by (simp add: split_digits [OF show_digits])
  qed
  have r: "split_str_acc ''_to_'' [] (range_name m n @ rest) =
      split_str_acc ''_to_'' (rev (range_name m n)) rest" for m n rest
    using u [of "rev (show_u64 m)" n rest]
    by (simp add: range_name_def split_digits [OF show_digits])
  show ?thesis
    using r [of a b "''_to_'' @ range_name c d"] r [of c d "[]"] by (simp add: split_str_def)
qed

lemma commit_block_of_name: "commit_block_of (commit_filename a b) = Some a"
proof -
  have "split_str ''_'' (range_name a b @ ''.bincode'') =
      show_u64 a # split_str_acc ''_'' [] (show_u64 b @ ''.bincode'')"
    by (simp add: split_str_def range_name_def split_digits [OF show_digits])
  then show ?thesis
    by (simp add: commit_block_of_def commit_filename_def strip_prefix_def suffix_def)
qed

lemma reorg_of_name: "reorg_of (reorg_filename a b c d) = Some (a, b, c, d)"
proof -
  have "strip_suffix ''.bincode'' (x @ ''.bincode'') = Some x" for x
    by (simp add: strip_suffix_def suffix_def)
  from this [of "range_name a b @ ''_to_'' @ range_name c d"] show ?thesis
    by (simp add: reorg_of_def reorg_filename_def strip_prefix_def suffix_def Let_def split_to [simplified]
        split_range)
qed

lemma other_names:
  "commit_block_of (reorg_filename a b c d) = None" "commit_block_of (revert_filename a b) = None"
  "reorg_of (commit_filename a b) = None" "reorg_of (revert_filename a b) = None"
  by (simp_all add: commit_block_of_def reorg_of_def reorg_filename_def revert_filename_def
      commit_filename_def)

section \<open>Properties\<close>

text \<open>What the subscriber stores, in the order of its notifications.\<close>

datatype stored =
    StoredCommit u64 u64
  | StoredReorg u64 u64 u64 u64
  | StoredRevert u64 u64

fun stored_filename :: "stored \<Rightarrow> string" where
  "stored_filename (StoredCommit a b) = commit_filename a b"
| "stored_filename (StoredReorg a b c d) = reorg_filename a b c d"
| "stored_filename (StoredRevert a b) = revert_filename a b"

text \<open>
  C40: listing a directory the subscriber wrote gives back, sorted, the ranges of exactly the
  reorgs, and for each commit the first block of its range; a commit of several blocks is
  listed by its first block only, so two commits that start alike are listed twice.
\<close>

theorem listings_read_back:
  "list_reorgs (map stored_filename xs) =
     sort (List.map_filter (\<lambda>x. case x of StoredReorg a b c d \<Rightarrow> Some (a, b, c, d) | _ \<Rightarrow> None) xs)
   \<and> list_commit_blocks (map stored_filename xs) =
     sort (List.map_filter (\<lambda>x. case x of StoredCommit a b \<Rightarrow> Some a | _ \<Rightarrow> None) xs)"
proof -
  have "reorg_of (stored_filename x) =
      (case x of StoredReorg a b c d \<Rightarrow> Some (a, b, c, d) | _ \<Rightarrow> None)"
    and "commit_block_of (stored_filename x) = (case x of StoredCommit a b \<Rightarrow> Some a | _ \<Rightarrow> None)" for x
    by (cases x; simp add: reorg_of_name commit_block_of_name other_names)+
  then have "List.map_filter reorg_of (map stored_filename xs) =
      List.map_filter (\<lambda>x. case x of StoredReorg a b c d \<Rightarrow> Some (a, b, c, d) | _ \<Rightarrow> None) xs"
    and "List.map_filter commit_block_of (map stored_filename xs) =
      List.map_filter (\<lambda>x. case x of StoredCommit a b \<Rightarrow> Some a | _ \<Rightarrow> None) xs"
    by (induction xs; simp add: List.map_filter_simps split: option.split)+
  then show ?thesis by (simp add: list_reorgs_def list_commit_blocks_def)
qed

text \<open>
  \<open>load_commit\<close> finds only commits of one block: the name it opens for a block is the name
  of the stored commit exactly when the range is that single block.
\<close>

lemma load_commit_single_blocks:
  "stored_filename (StoredCommit a b) = commit_filename n n \<longleftrightarrow> a = n \<and> b = n"
proof
  assume "stored_filename (StoredCommit a b) = commit_filename n n"
  then have "range_name a b = range_name n n" by (simp add: commit_filename_def)
  then have "split_str ''_'' (range_name a b) = split_str ''_'' (range_name n n)" by simp
  then have "show_u64 a = show_u64 n" "show_u64 b = show_u64 n" by (simp_all add: split_range)
  then show "a = n \<and> b = n" by (metis option.inject parse_show)
qed simp

section \<open>The test of the listing\<close>

text \<open>
  \<open>test_list_commit_blocks\<close>: the directory of recorded files is an argument, \<open>None\<close> where it
  does not exist; the assertion over \<open>windows(2)\<close> compares each block with the next.
\<close>

definition t_list_commit_blocks :: "string list option \<Rightarrow> bool" where
  "t_list_commit_blocks artifacts_dir =
    (case artifacts_dir of
       None \<Rightarrow> True
     | Some names \<Rightarrow>
         (let blocks = list_commit_blocks names
          in blocks \<noteq> [] \<and> list_all (\<lambda>(a, b). a < b) (zip blocks (tl blocks))))"

lemma windows_sorted: "list_all (\<lambda>(a, b). a < b) (zip xs (tl xs)) \<longleftrightarrow> sorted_wrt (<) (xs :: u64 list)"
proof (induction xs)
  case (Cons x xs)
  then show ?case by (cases xs) (auto intro: less_trans)
qed simp

text \<open>
  The test passes exactly on a directory that holds a commit and no two commits that start at
  the same block: \<open>list_commit_blocks\<close> sorts but does not remove duplicates.
\<close>

lemma list_commit_blocks_test:
  "t_list_commit_blocks (Some names) \<longleftrightarrow>
    List.map_filter commit_block_of names \<noteq> [] \<and> distinct (List.map_filter commit_block_of names)"
  by (auto simp: t_list_commit_blocks_def list_commit_blocks_def windows_sorted strict_sorted_iff
      Let_def dest: arg_cong [where f = "\<lambda>xs. length xs"])

lemma list_commit_blocks_test_passes:
  "t_list_commit_blocks (Some (map stored_filename [StoredCommit 102 102, StoredReorg 1 2 3 4, StoredCommit 101 101]))
   \<and> \<not> t_list_commit_blocks (Some (map stored_filename [StoredCommit 101 101, StoredCommit 101 102]))
   \<and> t_list_commit_blocks None"
  by (simp add: list_commit_blocks_test commit_block_of_name other_names List.map_filter_simps)
     (simp add: t_list_commit_blocks_def)

end
