(* ===== verification/Replay.thy ===== *)
theory Replay
  imports Changeset_Props Artifacts
begin

text \<open>
  \<open>rex-sim/examples/test_artifacts.rs\<close>: the program that replays recorded notifications through
  a changeset manager of its own and checks what becomes of the state.  It sends a notification,
  sleeps, and looks at the state; the sleeps are taken to be long enough, so a notification is
  handled when the next line runs.  The four fetch managers are replaced by a task that answers
  every flush with empty caches, and nobody listens on the fetch channels.

  The printed lines are left out, except what they show of the state, which is a list of
  observations.  How the program stops short is a value: an error it returns, an assertion that
  fails, or a wait that never ends.
\<close>

section \<open>The state of a replay\<close>

datatype replay_stop =
    ReplayError
  | ReplayPanic string
  | ReplayHangs

text \<open>One observation: the block sent, and tip, generation and stale flag after it.\<close>

record replay_line =
  rl_sent :: u64
  rl_block :: u64
  rl_generation :: u64
  rl_stale :: bool

text \<open>\<open>rp_alive\<close>: the changeset manager's task has not panicked.\<close>

record ('c, 'w, 'l) replay =
  rp_cm :: "('c, 'w, 'l) changeset_manager"
  rp_alive :: bool
  rp_lines :: "replay_line list"

abbreviation rp_state :: "('c, 'w, 'l) replay \<Rightarrow> ('c, 'w, 'l) static_state" where
  "rp_state rp \<equiv> cm_state (rp_cm rp)"

text \<open>\<open>let (account_tx, _) = mpsc::unbounded_channel()\<close>: the receiver is dropped at once.\<close>

definition dropped_channels :: fetch_channels where
  "dropped_channels = \<lparr>
         ch_account = \<lparr>chan_open = False, chan_sent = []\<rparr>,
         ch_code = \<lparr>chan_open = False, chan_sent = []\<rparr>,
         ch_storage = \<lparr>chan_open = False, chan_sent = []\<rparr>,
         ch_block_hash = \<lparr>chan_open = False, chan_sent = []\<rparr>\<rparr>"

definition replay_start :: "('c, 'w, 'l) replay" where
  "replay_start =
    (let state = static_state_new snapshot_default dropped_channels fetch_config_default
     in \<lparr>rp_cm = \<lparr>cm_state = state, cm_ready_signal = True, cm_update_sender = False,
           cm_log_sink = False, cm_trace = []\<rparr>,
         rp_alive = True, rp_lines = []\<rparr>)"

text \<open>\<open>run_dummy_flush_responder\<close>.\<close>

definition dummy_flush_replies :: "'c flush_replies" where
  "dummy_flush_replies = \<lparr>fr_account = Some tagged_cache_default, fr_code = Some code_cache_default,
     fr_storage = Some tagged_cache_default, fr_block_hash = Some tagged_cache_default\<rparr>"

text \<open>\<open>notif_tx.send(notification).await?\<close> and the sleep after it.\<close>

definition replay_send ::
  "'c env \<Rightarrow> ('c \<Rightarrow> bytes) \<Rightarrow> ('c, 'w, 'l) notification \<Rightarrow> ('c, 'w, 'l) replay
    \<Rightarrow> replay_stop + ('c, 'w, 'l) replay" where
  "replay_send E ob n rp =
    (if \<not> rp_alive rp then Inl ReplayError
     else case handle_notification E ob (n, dummy_flush_replies) (rp_cm rp) of
            None \<Rightarrow> Inr (rp\<lparr>rp_alive := False\<rparr>)
          | Some cm \<Rightarrow> Inr (rp\<lparr>rp_cm := cm\<rparr>))"

text \<open>\<open>?\<close> and \<open>for\<close> with \<open>?\<close> in its body.\<close>

definition and_then :: "'e + 'a \<Rightarrow> ('a \<Rightarrow> 'e + 'b) \<Rightarrow> 'e + 'b" where
  "and_then r f = (case r of Inl e \<Rightarrow> Inl e | Inr x \<Rightarrow> f x)"

fun try_for :: "('a \<Rightarrow> 's \<Rightarrow> 'e + 's) \<Rightarrow> 'a list \<Rightarrow> 's \<Rightarrow> 'e + 's" where
  "try_for f [] s = Inr s"
| "try_for f (x # xs) s = and_then (f x s) (try_for f xs)"

section \<open>Test 1: sequential commits\<close>

type_synonym ('c, 'w, 'l) loader = "u64 \<Rightarrow> ('c, 'w, 'l) notification option"

text \<open>\<open>load_commit(artifacts_dir, block)?\<close>, then the send.\<close>

definition send_commit ::
  "'c env \<Rightarrow> ('c \<Rightarrow> bytes) \<Rightarrow> ('c, 'w, 'l) loader \<Rightarrow> u64 \<Rightarrow> ('c, 'w, 'l) replay
    \<Rightarrow> replay_stop + ('c, 'w, 'l) replay" where
  "send_commit E ob load block rp =
    (case load block of None \<Rightarrow> Inl ReplayError | Some n \<Rightarrow> replay_send E ob n rp)"

definition observe :: "u64 \<Rightarrow> ('c, 'w, 'l) replay \<Rightarrow> ('c, 'w, 'l) replay" where
  "observe block rp = rp\<lparr>rp_lines := rp_lines rp @
     [\<lparr>rl_sent = block, rl_block = st_block (rp_state rp), rl_generation = st_generation (rp_state rp),
       rl_stale = ss_stale (st_inner (rp_state rp))\<rparr>]\<rparr>"

definition checked_commit ::
  "'c env \<Rightarrow> ('c \<Rightarrow> bytes) \<Rightarrow> ('c, 'w, 'l) loader \<Rightarrow> u64 \<Rightarrow> ('c, 'w, 'l) replay
    \<Rightarrow> replay_stop + ('c, 'w, 'l) replay" where
  "checked_commit E ob load block rp =
    and_then (send_commit E ob load block rp) (\<lambda>rp.
      let current_block = st_block (rp_state rp);
          is_stale = ss_stale (st_inner (rp_state rp));
          rp = observe block rp
      in if current_block \<noteq> block then Inl (ReplayPanic ''Block number mismatch'')
         else if is_stale then Inl (ReplayPanic ''State should not be stale'')
         else Inr rp)"

text \<open>\<open>ready_rx.await?\<close>: the value sent; an error once the sender is gone; otherwise it waits.\<close>

definition await_ready :: "('c, 'w, 'l) replay \<Rightarrow> replay_stop + u64" where
  "await_ready rp =
    (case List.map_filter (\<lambda>e. case e of EfReady b \<Rightarrow> Some b | _ \<Rightarrow> None) (cm_trace (rp_cm rp)) of
       b # _ \<Rightarrow> Inr b
     | [] \<Rightarrow> Inl (if rp_alive rp then ReplayHangs else ReplayError))"

definition test_normal_commits ::
  "'c env \<Rightarrow> ('c \<Rightarrow> bytes) \<Rightarrow> ('c, 'w, 'l) loader \<Rightarrow> u64 list
    \<Rightarrow> replay_stop + ('c, 'w, 'l) replay \<times> u64" where
  "test_normal_commits E ob load blocks =
    and_then (try_for (checked_commit E ob load) blocks replay_start) (\<lambda>rp.
    and_then (await_ready rp) (\<lambda>ready_block. Inr (rp, ready_block)))"

section \<open>Test 2: a reorg\<close>

definition pre_reorg_blocks :: "u64 list \<Rightarrow> u64 \<Rightarrow> u64 list" where
  "pre_reorg_blocks blocks old_start = take 5 (filter (\<lambda>b. b < old_start) blocks)"

definition last_or_0 :: "u64 list \<Rightarrow> u64" where
  "last_or_0 xs = (if xs = [] then 0 else last xs)"

definition blocks_to_reorg :: "u64 list \<Rightarrow> u64 list \<Rightarrow> u64 \<Rightarrow> u64 list" where
  "blocks_to_reorg blocks pre old_end = filter (\<lambda>b. last_or_0 pre \<le> b \<and> b \<le> old_end) blocks"

text \<open>\<open>if let Ok(notification) = load_commit(..)\<close>: a commit that does not load is left out.\<close>

definition send_if_loaded ::
  "'c env \<Rightarrow> ('c \<Rightarrow> bytes) \<Rightarrow> ('c, 'w, 'l) loader \<Rightarrow> u64 \<Rightarrow> ('c, 'w, 'l) replay
    \<Rightarrow> replay_stop + ('c, 'w, 'l) replay" where
  "send_if_loaded E ob load block rp =
    (case load block of None \<Rightarrow> Inr rp | Some n \<Rightarrow> replay_send E ob n rp)"

text \<open>The lines about the two tips: \<open>tip()\<close> panics on an empty chain.\<close>

fun print_tips :: "('c, 'w, 'l) notification \<Rightarrow> replay_stop + unit" where
  "print_tips (ChainReorged old new) =
     (if chain_tip_of old = None \<or> chain_tip_of new = None then Inl (ReplayPanic ''tip'') else Inr ())"
| "print_tips _ = Inr ()"

text \<open>The result is \<open>None\<close> when the test is skipped.\<close>

definition test_reorg ::
  "'c env \<Rightarrow> ('c \<Rightarrow> bytes) \<Rightarrow> ('c, 'w, 'l) loader
    \<Rightarrow> (u64 \<Rightarrow> u64 \<Rightarrow> u64 \<Rightarrow> u64 \<Rightarrow> ('c, 'w, 'l) notification option)
    \<Rightarrow> u64 list \<Rightarrow> u64 \<times> u64 \<times> u64 \<times> u64 \<Rightarrow> replay_stop + ('c, 'w, 'l) replay option" where
  "test_reorg E ob load load_r blocks reorg =
    (case reorg of (old_start, old_end, new_start, new_end) \<Rightarrow>
      (let pre = pre_reorg_blocks blocks old_start
       in if pre = [] then Inr None
          else
            and_then (try_for (send_commit E ob load) pre replay_start) (\<lambda>rp.
            and_then (try_for (send_if_loaded E ob load) (blocks_to_reorg blocks pre old_end) rp) (\<lambda>rp.
              let pre_reorg_gen = st_generation (rp_state rp)
              in case load_r old_start old_end new_start new_end of
                   None \<Rightarrow> Inl ReplayError
                 | Some n \<Rightarrow>
                     and_then (print_tips n) (\<lambda>_.
                     and_then (replay_send E ob n rp) (\<lambda>rp.
                       let post_reorg_gen = st_generation (rp_state rp)
                       in if \<not> pre_reorg_gen < post_reorg_gen
                          then Inl (ReplayPanic ''Generation should increment on reorg'')
                          else Inr (Some rp)))))))"

section \<open>Test 3: skipped commits\<close>

text \<open>
  The result: whether the state is stale after the skip, and after the blocks that follow it
  when there are enough of them.
\<close>

definition test_skipped_commits ::
  "'c env \<Rightarrow> ('c \<Rightarrow> bytes) \<Rightarrow> ('c, 'w, 'l) loader \<Rightarrow> u64 list
    \<Rightarrow> replay_stop + (bool \<times> bool option) option" where
  "test_skipped_commits E ob load blocks =
    (if length blocks < 10 then Inr None
     else
       and_then (try_for (send_commit E ob load) (take 3 blocks) replay_start) (\<lambda>rp.
         let after_normal = st_inner (rp_state rp)
         in if ss_stale after_normal
            then Inl (ReplayPanic ''Should not be stale after normal commits'')
            else
              (let skip_to = min 8 (length blocks - 1)
               in and_then (send_commit E ob load (blocks ! skip_to) rp) (\<lambda>rp.
                    let after_skip = st_inner (rp_state rp)
                    in if skip_to + 3 < length blocks
                       then and_then
                              (try_for (send_commit E ob load) (take 2 (drop (skip_to + 1) blocks)) rp)
                              (\<lambda>rp. Inr (Some (ss_stale after_skip, Some (ss_stale (st_inner (rp_state rp))))))
                       else Inr (Some (ss_stale after_skip, None))))))"

section \<open>The program\<close>

definition artifacts_dir :: "string list \<Rightarrow> string" where
  "artifacts_dir args =
    (case arg_after ''--artifacts'' args of Some d \<Rightarrow> d | None \<Rightarrow> ''../rex-cons/artifacts'')"

text \<open>
  \<open>fs\<close> opens a directory: the names in it and the contents behind them; \<open>deserialize\<close> is
  bincode.
\<close>

definition replay_main ::
  "'c env \<Rightarrow> ('c \<Rightarrow> bytes) \<Rightarrow> (string \<Rightarrow> (string list \<times> (string \<Rightarrow> 'b option)) option)
    \<Rightarrow> ('b \<Rightarrow> ('c, 'w, 'l) notification option) \<Rightarrow> string list \<Rightarrow> replay_stop + unit" where
  "replay_main E ob fs deserialize args =
    (case fs (artifacts_dir args) of
       None \<Rightarrow> Inl ReplayError
     | Some (names, files) \<Rightarrow>
         (let blocks = list_commit_blocks names;
              reorgs = list_reorgs names;
              load = load_commit files deserialize;
              load_r = load_reorg files deserialize
          in and_then (test_normal_commits E ob load (take (min 10 (length blocks)) blocks)) (\<lambda>_.
             and_then (case reorgs of
                         [] \<Rightarrow> Inr None
                       | reorg # _ \<Rightarrow> test_reorg E ob load load_r blocks reorg) (\<lambda>_.
             and_then (test_skipped_commits E ob load blocks) (\<lambda>_. Inr ())))))"

section \<open>Recordings of a linked chain\<close>

text \<open>The header of a recorded commit of one block.\<close>

definition header_at :: "('c, 'w, 'l) loader \<Rightarrow> u64 \<Rightarrow> sealed_header option" where
  "header_at load b =
    (case load b of
       Some (ChainCommitted c) \<Rightarrow>
         (case cn_blocks_and_receipts c of [(v, rs)] \<Rightarrow> Some (bv_header v) | _ \<Rightarrow> None)
     | _ \<Rightarrow> None)"

definition recorded :: "('c, 'w, 'l) loader \<Rightarrow> u64 \<Rightarrow> bool" where
  "recorded load b \<longleftrightarrow>
    (case header_at load b of
       Some h \<Rightarrow> sh_number h = b \<and> b \<noteq> 0 \<and> sh_hash h \<noteq> 0
     | None \<Rightarrow> False)"

definition links :: "('c, 'w, 'l) loader \<Rightarrow> u64 \<Rightarrow> u64 \<Rightarrow> bool" where
  "links load a b \<longleftrightarrow> b = a + 1
    \<and> map_option sh_parent_hash (header_at load b) = map_option sh_hash (header_at load a)"

definition linked :: "('c, 'w, 'l) loader \<Rightarrow> u64 list \<Rightarrow> bool" where
  "linked load bs \<longleftrightarrow> (\<forall>b \<in> set bs. recorded load b) \<and> successively (links load) bs"

text \<open>The tip a recorded block makes.\<close>

definition tip_at :: "('c, 'w, 'l) loader \<Rightarrow> u64 \<Rightarrow> current_state" where
  "tip_at load b = \<lparr>cs_block = b, cs_block_hash = sh_hash (the (header_at load b)), cs_stale = False\<rparr>"

definition readies :: "('c, 'w, 'l) replay \<Rightarrow> u64 list" where
  "readies rp = List.map_filter (\<lambda>e. case e of EfReady b \<Rightarrow> Some b | _ \<Rightarrow> None) (cm_trace (rp_cm rp))"

lemma recordedE:
  assumes "recorded load b"
  obtains c v rs where "load b = Some (ChainCommitted c)" "cn_blocks_and_receipts c = [(v, rs)]"
    "header_at load b = Some (bv_header v)" "sh_number (bv_header v) = b" "b \<noteq> 0" "sh_hash (bv_header v) \<noteq> 0"
  using assms
  by (auto simp: recorded_def header_at_def split: option.splits notification.splits list.splits)

lemma map_filter_append: "List.map_filter f (xs @ ys) = List.map_filter f xs @ List.map_filter f ys"
  by (simp add: List.map_filter_def)

lemma readies_told:
  "List.map_filter (\<lambda>e. case e of EfReady b \<Rightarrow> Some b | _ \<Rightarrow> None) (told n s cm) =
    (if cm_ready_signal cm \<and> \<not> ss_stale s then [ss_block s] else [])"
  by (auto simp: told_def List.map_filter_simps)

text \<open>Sending a notification with non-empty chains.\<close>

lemma replay_send_handled:
  assumes "rp_alive rp" and "\<forall>c \<in> set (chains_of n). cn_blocks_and_receipts c \<noteq> []"
  obtains rp' where "replay_send E ob n rp = Inr rp'" "rp_alive rp'" "rp_lines rp' = rp_lines rp"
    "view (rp_cm rp') = tip_step (n, dummy_flush_replies) (view (rp_cm rp))"
    "st_generation (rp_state rp') = st_generation (rp_state rp) + 1"
    "cm_ready_signal (rp_cm rp') \<longleftrightarrow> cm_ready_signal (rp_cm rp) \<and> cs_stale (view (rp_cm rp'))"
    "readies rp' = readies rp @ (if cm_ready_signal (rp_cm rp) \<and> \<not> cs_stale (view (rp_cm rp'))
       then [cs_block (view (rp_cm rp'))] else [])"
proof -
  obtain cm where h: "handle_notification E ob (n, dummy_flush_replies) (rp_cm rp) = Some cm"
    using handle_None [of E ob n dummy_flush_replies "rp_cm rp"] assms(2) by auto
  let ?rp = "rp\<lparr>rp_cm := cm\<rparr>"
  from h obtain s where s: "cm = (rp_cm rp)\<lparr>cm_state := swap s (rp_state rp),
        cm_ready_signal := cm_ready_signal (rp_cm rp) \<and> ss_stale s,
        cm_trace := cm_trace (rp_cm rp) @ [EfFlush, EfSwap s] @ told n s (rp_cm rp)\<rparr>"
    by (rule handle_next)
  have v: "view cm = \<lparr>cs_block = ss_block s, cs_block_hash = ss_block_hash s, cs_stale = ss_stale s\<rparr>"
    by (simp add: s view_def)
  have "readies ?rp = readies rp @ (if cm_ready_signal (rp_cm rp) \<and> \<not> ss_stale s then [ss_block s] else [])"
    by (simp add: readies_def s map_filter_append List.map_filter_simps readies_told)
  then have e: "readies ?rp = readies rp @ (if cm_ready_signal (rp_cm rp) \<and> \<not> cs_stale (view cm)
      then [cs_block (view cm)] else [])" by (simp add: v)
  have q: "cm_ready_signal cm \<longleftrightarrow> cm_ready_signal (rp_cm rp) \<and> cs_stale (view cm)"
    "st_generation (cm_state cm) = st_generation (rp_state rp) + 1" by (simp_all add: v) (simp_all add: s)
  have "replay_send E ob n rp = Inr ?rp" using h assms(1) by (simp add: replay_send_def)
  from that [OF this] assms(1) e q tip.step_refines [OF h] show ?thesis by simp
qed

text \<open>Sending a recorded block.\<close>

lemma send_recorded:
  assumes "recorded load b" and "rp_alive rp"
    and "is_initial (view (rp_cm rp)) \<or> cs_stale (view (rp_cm rp))
      \<or> (\<exists>a. view (rp_cm rp) = tip_at load a \<and> links load a b \<and> recorded load a)"
  obtains rp' where "send_commit E ob load b rp = Inr rp'" "rp_alive rp'" "rp_lines rp' = rp_lines rp"
    "view (rp_cm rp') = tip_at load b" "st_generation (rp_state rp') = st_generation (rp_state rp) + 1"
    "\<not> cm_ready_signal (rp_cm rp')"
    "readies rp' = readies rp @ (if cm_ready_signal (rp_cm rp) then [b] else [])"
proof -
  from assms(1) obtain c v rs where c: "load b = Some (ChainCommitted c)" "cn_blocks_and_receipts c = [(v, rs)]"
    "header_at load b = Some (bv_header v)" "sh_number (bv_header v) = b"
    by (rule recordedE)
  have "\<forall>c' \<in> set (chains_of (ChainCommitted c)). cn_blocks_and_receipts c' \<noteq> []" by (simp add: c)
  from replay_send_handled [OF assms(2) this, of E ob] obtain rp' where
    r: "replay_send E ob (ChainCommitted c) rp = Inr rp'" "rp_alive rp'" "rp_lines rp' = rp_lines rp"
    and t: "view (rp_cm rp') = tip_step (ChainCommitted c, dummy_flush_replies) (view (rp_cm rp))"
    and g: "st_generation (rp_state rp') = st_generation (rp_state rp) + 1"
    and q: "cm_ready_signal (rp_cm rp') \<longleftrightarrow> cm_ready_signal (rp_cm rp) \<and> cs_stale (view (rp_cm rp'))"
    and e: "readies rp' = readies rp @ (if cm_ready_signal (rp_cm rp) \<and> \<not> cs_stale (view (rp_cm rp'))
       then [cs_block (view (rp_cm rp'))] else [])" by blast
  have "connects (tip_at load a) (info_of (bv_header v)) (chain_ids c)" if "links load a b" "recorded load a" for a
    using that c by (auto simp: connects_def tip_at_def info_of_def links_def elim!: recordedE)
  then have "view (rp_cm rp') = tip_at load b"
    using assms(3) c by (auto simp: t chain_tip_of_def chain_first_def tip_at_def)
  with r g q e c(1) show ?thesis
    by (intro that [of rp']) (simp_all add: send_commit_def tip_at_def)
qed

text \<open>A loop over linked blocks, seen as a walk along the chain.\<close>

lemma try_for_chain:
  assumes "\<forall>i a b rp. step_ok a b \<longrightarrow> R i a rp \<longrightarrow> (\<exists>rp'. f b rp = Inr rp' \<and> R (Suc i) b rp')"
    and "successively step_ok (a # bs)" and "R i a rp"
  shows "\<exists>rp'. try_for f bs rp = Inr rp' \<and> R (i + length bs) (last (a # bs)) rp'"
  using assms(2,3)
proof (induction bs arbitrary: a i rp)
  case (Cons b bs)
  from Cons.prems have "step_ok a b" "successively step_ok (b # bs)" by (simp_all add: successively_Cons)
  with assms(1) Cons.prems(2) Cons.IH [of b "Suc i"] show ?case
    by (fastforce simp: and_then_def)
qed simp

definition on_chain ::
  "('c, 'w, 'l) loader \<Rightarrow> u64 \<Rightarrow> nat \<Rightarrow> u64 \<Rightarrow> ('c, 'w, 'l) replay \<Rightarrow> bool" where
  "on_chain load first i b rp \<longleftrightarrow> rp_alive rp \<and> view (rp_cm rp) = tip_at load b
    \<and> st_generation (rp_state rp) = of_nat i \<and> \<not> cm_ready_signal (rp_cm rp) \<and> readies rp = [first]"

lemma replay_start_view:
  "is_initial (view (rp_cm replay_start))" "rp_alive replay_start" "readies replay_start = []"
  "cm_ready_signal (rp_cm replay_start)" "st_generation (rp_state replay_start) = 0"
  "rp_lines replay_start = []"
  by (simp_all add: replay_start_def view_def is_initial_def static_state_new_def snapshot_default_def
      readies_def List.map_filter_simps Let_def)

lemma send_first:
  assumes "recorded load b"
  obtains rp where "send_commit E ob load b replay_start = Inr rp" "on_chain load b 1 b rp" "rp_lines rp = []"
  using assms replay_start_view(2) disjI1 [OF replay_start_view(1)]
  by (rule send_recorded [where E = E and ob = ob]) (simp add: on_chain_def replay_start_view that)

definition next_recorded :: "('c, 'w, 'l) loader \<Rightarrow> u64 \<Rightarrow> u64 \<Rightarrow> bool" where
  "next_recorded load a b \<longleftrightarrow> links load a b \<and> recorded load a \<and> recorded load b"

lemma send_next:
  assumes "next_recorded load a b" and "on_chain load first i a rp"
  obtains rp' where "send_commit E ob load b rp = Inr rp'" "on_chain load first (Suc i) b rp'"
    "rp_lines rp' = rp_lines rp"
proof -
  from assms have "recorded load b" "rp_alive rp" "links load a b" "recorded load a"
    "view (rp_cm rp) = tip_at load a"
    by (simp_all add: next_recorded_def on_chain_def)
  then obtain rp' where r: "send_commit E ob load b rp = Inr rp'" "rp_alive rp'" "rp_lines rp' = rp_lines rp"
    "view (rp_cm rp') = tip_at load b" "st_generation (rp_state rp') = st_generation (rp_state rp) + 1"
    "\<not> cm_ready_signal (rp_cm rp')"
    "readies rp' = readies rp @ (if cm_ready_signal (rp_cm rp) then [b] else [])"
    by (metis send_recorded)
  with assms(2) show ?thesis by (intro that [of rp']) (simp_all add: on_chain_def)
qed

lemma linked_successively:
  assumes "linked load bs"
  shows "successively (next_recorded load) bs"
  using assms
  by (induction bs rule: induct_list012) (auto simp: linked_def next_recorded_def)

lemma on_chain_state:
  assumes "on_chain load first i b rp"
  shows "st_block (rp_state rp) = b" "\<not> ss_stale (st_inner (rp_state rp))"
  using assms by (auto simp: on_chain_def view_def Let_def tip_at_def st_accessors)

section \<open>The three tests\<close>

text \<open>What the check after a commit has seen.\<close>

definition lines_ok :: "nat \<Rightarrow> ('c, 'w, 'l) replay \<Rightarrow> bool" where
  "lines_ok n rp \<longleftrightarrow> length (rp_lines rp) = n
    \<and> (\<forall>l \<in> set (rp_lines rp). rl_block l = rl_sent l \<and> \<not> rl_stale l)"

lemma checked_of_send:
  assumes "send_commit E ob load b rp = Inr rp'" and "on_chain load first i b rp'" and "lines_ok n rp'"
  shows "checked_commit E ob load b rp = Inr (observe b rp')"
    and "on_chain load first i b (observe b rp')" and "lines_ok (Suc n) (observe b rp')"
  using assms on_chain_state [OF assms(2)]
  by (auto simp: checked_commit_def and_then_def Let_def on_chain_def observe_def lines_ok_def readies_def)

lemma checked_next:
  assumes "next_recorded load a b" and "on_chain load first i a rp \<and> lines_ok i rp"
  shows "\<exists>rp'. checked_commit E ob load b rp = Inr rp' \<and> on_chain load first (Suc i) b rp' \<and> lines_ok (Suc i) rp'"
proof -
  from send_next [OF assms(1) conjunct1 [OF assms(2)], of E ob] obtain rp' where
    r: "send_commit E ob load b rp = Inr rp'" "on_chain load first (Suc i) b rp'" "rp_lines rp' = rp_lines rp"
    by blast
  from assms(2) r(3) have "lines_ok i rp'" by (simp add: lines_ok_def)
  from checked_of_send [OF r(1,2) this] show ?thesis by blast
qed

lemma normal_commits_run:
  assumes "linked load (b # bs)"
  shows "\<exists>rp. test_normal_commits E ob load (b # bs) = Inr (rp, b)
    \<and> on_chain load b (Suc (length bs)) (last (b # bs)) rp \<and> lines_ok (Suc (length bs)) rp"
proof -
  from assms have "recorded load b" by (simp add: linked_def)
  from send_first [OF this, of E ob] obtain rp1 where
    s: "send_commit E ob load b replay_start = Inr rp1" "on_chain load b 1 b rp1" "rp_lines rp1 = []" by blast
  then have "lines_ok 0 rp1" by (simp add: lines_ok_def)
  note c = checked_of_send [OF s(1,2) this]
  have "\<forall>i x y rp. next_recorded load x y \<longrightarrow> on_chain load b i x rp \<and> lines_ok i rp \<longrightarrow>
      (\<exists>rp'. checked_commit E ob load y rp = Inr rp' \<and> on_chain load b (Suc i) y rp' \<and> lines_ok (Suc i) rp')"
    using checked_next by blast
  from try_for_chain [where R = "\<lambda>i a rp. on_chain load b i a rp \<and> lines_ok i rp",
      OF this linked_successively [OF assms] conjI [OF c(2) c(3) [folded One_nat_def]]]
  obtain rp2 where "try_for (checked_commit E ob load) bs (observe b rp1) = Inr rp2"
    "on_chain load b (1 + length bs) (last (b # bs)) rp2" "lines_ok (1 + length bs) rp2" by auto
  then show ?thesis
    by (auto simp: test_normal_commits_def and_then_def c(1) await_ready_def on_chain_def readies_def)
qed

lemma send_run:
  assumes "linked load (b # bs)"
  obtains rp where "try_for (send_commit E ob load) (b # bs) replay_start = Inr rp"
    "on_chain load b (Suc (length bs)) (last (b # bs)) rp"
proof -
  from assms have "recorded load b" by (simp add: linked_def)
  from send_first [OF this, of E ob] obtain rp1 where
    s: "send_commit E ob load b replay_start = Inr rp1" "on_chain load b 1 b rp1" by blast
  have "\<forall>i x y rp. next_recorded load x y \<longrightarrow> on_chain load b i x rp \<longrightarrow>
      (\<exists>rp'. send_commit E ob load y rp = Inr rp' \<and> on_chain load b (Suc i) y rp')"
    using send_next by metis
  from try_for_chain [where R = "on_chain load b", OF this linked_successively [OF assms] s(2)] s(1) that
  show ?thesis by (auto simp: and_then_def)
qed

text \<open>The numbers of linked blocks are consecutive.\<close>

lemma unat_next: "n + 1 \<noteq> 0 \<Longrightarrow> unat (n + 1) = Suc (unat n)"
  using unatSuc [of n] by (simp add: add.commute)

lemma linked_nth:
  assumes "linked load bs" and "i < length bs"
  shows "unat (bs ! i) = unat (bs ! 0) + i"
  using assms(2)
proof (induction i)
  case (Suc i)
  then have "links load (bs ! i) (bs ! Suc i)" "recorded load (bs ! Suc i)"
    using assms(1) by (auto simp: linked_def successively_conv_nth)
  then have "bs ! Suc i = bs ! i + 1" "bs ! i + 1 \<noteq> 0"
    by (auto simp: links_def elim!: recordedE)
  with Suc show ?case by (simp add: unat_next)
qed simp

text \<open>A block beyond the next one is a gap.\<close>

lemma send_gap:
  assumes "recorded load a" and "recorded load b" and "unat a + 1 < unat b"
    and "rp_alive rp" and "view (rp_cm rp) = tip_at load a"
  obtains rp' where "send_commit E ob load b rp = Inr rp'" "rp_alive rp'" "cs_stale (view (rp_cm rp'))"
proof -
  from assms(2) obtain c v rs where c: "load b = Some (ChainCommitted c)" "cn_blocks_and_receipts c = [(v, rs)]"
    "sh_number (bv_header v) = b" by (rule recordedE)
  have "\<forall>c' \<in> set (chains_of (ChainCommitted c)). cn_blocks_and_receipts c' \<noteq> []" by (simp add: c)
  from replay_send_handled [OF assms(4) this, of E ob] obtain rp' where
    r: "replay_send E ob (ChainCommitted c) rp = Inr rp'" "rp_alive rp'"
    and t: "view (rp_cm rp') = tip_step (ChainCommitted c, dummy_flush_replies) (view (rp_cm rp))" by blast
  have "b \<noteq> a + 1" "\<not> b \<le> a"
    using assms(3) unat_next [of a] by (cases "a + 1 = 0"; auto simp: word_le_nat_alt)+
  moreover from assms(1) have "\<not> is_initial (tip_at load a)"
    by (auto simp: is_initial_def tip_at_def elim!: recordedE)
  ultimately have "cs_stale (view (rp_cm rp'))" unfolding t assms(5)
    by (simp add: chain_tip_of_def chain_first_def c connects_def tip_at_def info_of_def)
  with r c(1) show ?thesis by (intro that [of rp']) (simp_all add: send_commit_def)
qed

lemma send_commit_recorded:
  assumes "recorded load b" and "rp_alive rp"
  obtains rp' where "send_commit E ob load b rp = Inr rp'" "send_if_loaded E ob load b rp = Inr rp'"
    "rp_alive rp'" "st_generation (rp_state rp') = st_generation (rp_state rp) + 1"
proof -
  from assms(1) obtain c v rs where c: "load b = Some (ChainCommitted c)" "cn_blocks_and_receipts c = [(v, rs)]"
    by (rule recordedE)
  have "\<forall>c' \<in> set (chains_of (ChainCommitted c)). cn_blocks_and_receipts c' \<noteq> []" by (simp add: c)
  from replay_send_handled [OF assms(2) this, of E ob] obtain rp' where
    "replay_send E ob (ChainCommitted c) rp = Inr rp'" "rp_alive rp'"
    "st_generation (rp_state rp') = st_generation (rp_state rp) + 1" by blast
  with c(1) show ?thesis by (intro that [of rp']) (simp_all add: send_commit_def send_if_loaded_def)
qed

lemma send_all_recorded:
  assumes "\<forall>b \<in> set bs. recorded load b" and "rp_alive rp"
  obtains rp' where "try_for (send_commit E ob load) bs rp = Inr rp'"
    "try_for (send_if_loaded E ob load) bs rp = Inr rp'"
    "rp_alive rp'" "st_generation (rp_state rp') = st_generation (rp_state rp) + of_nat (length bs)"
  using assms
proof (induction bs arbitrary: rp thesis)
  case (Cons b bs)
  from Cons.prems(2) have "recorded load b" by simp
  from send_commit_recorded [OF this Cons.prems(3), of E ob] obtain rp1 where
    1: "send_commit E ob load b rp = Inr rp1" "send_if_loaded E ob load b rp = Inr rp1"
      "rp_alive rp1" "st_generation (rp_state rp1) = st_generation (rp_state rp) + 1" by blast
  from Cons.IH [OF _ _ 1(3)] Cons.prems(2) obtain rp2 where
    "try_for (send_commit E ob load) bs rp1 = Inr rp2"
    "try_for (send_if_loaded E ob load) bs rp1 = Inr rp2" "rp_alive rp2"
    "st_generation (rp_state rp2) = st_generation (rp_state rp1) + of_nat (length bs)" by auto
  with 1 show ?case by (intro Cons.prems(1) [of rp2]) (simp_all add: and_then_def)
qed simp

lemma generation_grows: "Suc k < 2 ^ 64 \<Longrightarrow> (of_nat k :: u64) < of_nat (Suc k)"
  by (simp only: word_less_nat_alt unat_of_nat) simp

lemma reorg_test_run:
  assumes "\<forall>b \<in> set blocks. recorded load b" and "length blocks < 2 ^ 63"
    and "load_r os oe ns ne = Some n" and "\<forall>c \<in> set (chains_of n). cn_blocks_and_receipts c \<noteq> []"
  shows "\<exists>r. test_reorg E ob load load_r blocks (os, oe, ns, ne) = Inr r
    \<and> (r = None \<longleftrightarrow> (\<forall>b \<in> set blocks. os \<le> b))"
proof (cases "pre_reorg_blocks blocks os = []")
  case True
  then show ?thesis by (auto simp: test_reorg_def pre_reorg_blocks_def filter_empty_conv not_less)
next
  case False
  let ?pre = "pre_reorg_blocks blocks os" let ?more = "blocks_to_reorg blocks ?pre oe"
  have len: "length ?pre \<le> 5" "length ?more \<le> length blocks"
    by (simp_all add: pre_reorg_blocks_def blocks_to_reorg_def)
  have rec: "\<forall>b \<in> set ?pre. recorded load b" "\<forall>b \<in> set ?more. recorded load b"
    using assms(1) by (auto simp: pre_reorg_blocks_def blocks_to_reorg_def dest: in_set_takeD)
  from send_all_recorded [OF rec(1) replay_start_view(2), of E ob] obtain rp1 where
    1: "try_for (send_commit E ob load) ?pre replay_start = Inr rp1"
      "rp_alive rp1" "st_generation (rp_state rp1) = of_nat (length ?pre)"
    by (auto simp: replay_start_view(5))
  from send_all_recorded [OF rec(2) 1(2), of E ob] obtain rp2 where
    2: "try_for (send_if_loaded E ob load) ?more rp1 = Inr rp2" "rp_alive rp2"
      "st_generation (rp_state rp2) = st_generation (rp_state rp1) + of_nat (length ?more)" by blast
  from replay_send_handled [OF 2(2) assms(4), of E ob] obtain rp3 where
    3: "replay_send E ob n rp2 = Inr rp3" "st_generation (rp_state rp3) = st_generation (rp_state rp2) + 1"
    by blast
  let ?k = "length ?pre + length ?more"
  have "st_generation (rp_state rp2) = of_nat ?k" "st_generation (rp_state rp3) = of_nat (Suc ?k)"
    using 1(3) 2(3) 3(2) by simp_all
  moreover have "Suc ?k < 2 ^ 64" using len assms(2) by simp
  ultimately have "st_generation (rp_state rp2) < st_generation (rp_state rp3)"
    using generation_grows by metis
  moreover have "print_tips n = Inr ()"
    using assms(4) by (cases n) (auto simp: chain_ends)
  moreover have "\<exists>b \<in> set blocks. b < os"
    using False by (auto simp: pre_reorg_blocks_def filter_empty_conv)
  ultimately show ?thesis using False 1(1) 2(1) 3(1) assms(3)
    by (auto simp: test_reorg_def and_then_def Let_def not_le)
qed

lemma skip_test_run:
  assumes "linked load blocks" and "10 \<le> length blocks"
  shows "test_skipped_commits E ob load blocks
    = Inr (Some (True, if 11 < length blocks then Some False else None))"
proof -
  have rec: "recorded load (blocks ! i)" if "i < length blocks" for i
    using assms(1) that by (auto simp: linked_def)
  obtain b0 b1 b2 rest where b: "blocks = b0 # b1 # b2 # rest"
    using assms(2) by (auto simp: Suc_le_length_iff numeral_eq_Suc)
  have "linked load [b0, b1, b2]" using assms(1) by (auto simp: linked_def b)
  from send_run [OF this, of E ob] obtain rp1 where
    1: "try_for (send_commit E ob load) (take 3 blocks) replay_start = Inr rp1" "on_chain load b0 3 b2 rp1"
    by (auto simp: b numeral_eq_Suc)
  have "unat (blocks ! 8) = unat (blocks ! 2) + 6"
    using linked_nth [OF assms(1), of 8] linked_nth [OF assms(1), of 2] assms(2) by simp
  then have "unat b2 + 1 < unat (blocks ! 8)" by (simp add: b)
  from send_gap [OF _ _ this, of load rp1 E ob] rec [of 2] rec [of 8] 1(2) assms(2) obtain rp2 where
    2: "send_commit E ob load (blocks ! 8) rp1 = Inr rp2" "rp_alive rp2" "cs_stale (view (rp_cm rp2))"
    by (auto simp: on_chain_def b)
  have "\<exists>rp3. try_for (send_commit E ob load) (take 2 (drop 9 blocks)) rp2 = Inr rp3
      \<and> \<not> cs_stale (view (rp_cm rp3))" if l: "11 < length blocks"
  proof -
    have d: "take 2 (drop 9 blocks) = [blocks ! 9, blocks ! 10]"
      using l by (simp add: Cons_nth_drop_Suc [symmetric] numeral_eq_Suc)
    have "links load (blocks ! 9) (blocks ! 10)"
      using assms(1) l by (auto simp: linked_def dest: successively_nth [where i = 9])
    from send_recorded [OF rec [of 9] 2(2) disjI2 [OF disjI1 [OF 2(3)]], of E ob] l obtain rp3 where
      3: "send_commit E ob load (blocks ! 9) rp2 = Inr rp3" "rp_alive rp3" "view (rp_cm rp3) = tip_at load (blocks ! 9)"
      by auto
    have "\<exists>a. view (rp_cm rp3) = tip_at load a \<and> links load a (blocks ! 10) \<and> recorded load a"
      using 3(3) \<open>links load (blocks ! 9) (blocks ! 10)\<close> rec [of 9] l by auto
    from send_recorded [OF rec [of 10] 3(2) disjI2 [OF disjI2 [OF this]], of E ob] l obtain rp4 where
      "send_commit E ob load (blocks ! 10) rp3 = Inr rp4" "view (rp_cm rp4) = tip_at load (blocks ! 10)"
      by auto
    with 3 show ?thesis by (simp add: d and_then_def tip_at_def)
  qed
  with 1 2 assms(2) on_chain_state(2) [OF 1(2)] show ?thesis
    by (auto simp: test_skipped_commits_def and_then_def Let_def view_def min_def)
qed

text \<open>A recording with a hole: the first block after it fails the first test.\<close>

lemma hole_panics:
  assumes "recorded load a" and "recorded load b" and "unat a + 1 < unat b"
  shows "test_normal_commits E ob load (a # b # bs) = Inl (ReplayPanic ''Block number mismatch'')"
proof -
  from send_first [OF assms(1), of E ob] obtain rp1 where
    1: "send_commit E ob load a replay_start = Inr rp1" "on_chain load a 1 a rp1" "rp_lines rp1 = []" by blast
  have "lines_ok 0 rp1" using 1(3) by (simp add: lines_ok_def)
  note c = checked_of_send [OF 1(1,2) this]
  have "rp_alive (observe a rp1)" "view (rp_cm (observe a rp1)) = tip_at load a"
    using c(2) by (simp_all add: on_chain_def)
  from assms(2) obtain ch v rs where h: "load b = Some (ChainCommitted ch)" "cn_blocks_and_receipts ch = [(v, rs)]"
    "sh_number (bv_header v) = b" by (rule recordedE)
  have "\<forall>c' \<in> set (chains_of (ChainCommitted ch)). cn_blocks_and_receipts c' \<noteq> []" by (simp add: h)
  from replay_send_handled [OF \<open>rp_alive (observe a rp1)\<close> this, of E ob] obtain rp2 where
    2: "replay_send E ob (ChainCommitted ch) (observe a rp1) = Inr rp2"
      "view (rp_cm rp2) = tip_step (ChainCommitted ch, dummy_flush_replies) (tip_at load a)"
    using \<open>view (rp_cm (observe a rp1)) = tip_at load a\<close> by metis
  have "b \<noteq> a + 1" "\<not> b \<le> a"
    using assms(3) unat_next [of a] by (cases "a + 1 = 0"; auto simp: word_le_nat_alt)+
  moreover from assms(1) have "\<not> is_initial (tip_at load a)"
    by (auto simp: is_initial_def tip_at_def elim!: recordedE)
  ultimately have "cs_block (view (rp_cm rp2)) = a" unfolding 2(2)
    by (simp add: chain_tip_of_def chain_first_def h connects_def tip_at_def info_of_def)
  then have "st_block (rp_state rp2) = a" by (simp add: view_def Let_def st_accessors)
  moreover have "a \<noteq> b" using assms(3) by auto
  ultimately have "checked_commit E ob load b (observe a rp1) = Inl (ReplayPanic ''Block number mismatch'')"
    by (simp add: checked_commit_def send_commit_def h(1) 2(1) and_then_def Let_def)
  then show ?thesis by (simp add: test_normal_commits_def and_then_def c(1))
qed

lemma start_not_ready: "await_ready replay_start = Inl ReplayHangs"
  by (simp add: await_ready_def replay_start_def List.map_filter_simps Let_def)

section \<open>A sample directory\<close>

text \<open>Commits of the blocks 1 to 12 and one reorg, stored under their names.\<close>

definition demo_files :: "string list" where
  "demo_files = map (\<lambda>b. commit_filename b b) [1, 2, 3, 4, 5, 6, 7, 8, 9, 10, 11, 12] @ [reorg_filename 6 7 6 8]"

definition demo_recording :: "string \<Rightarrow> (nat, nat, nat) notification option" where
  "demo_recording name =
    (case commit_block_of name of
       Some b \<Rightarrow> Some (ChainCommitted (demo_chain [(b, ucast b, ucast b - 1)]))
     | None \<Rightarrow> (case reorg_of name of
         Some (os, oe, ns, ne) \<Rightarrow> Some (ChainReorged (demo_chain [(oe, ucast oe, 0)]) (demo_chain [(ne, 99, 0)]))
       | None \<Rightarrow> None))"

definition demo_fs :: "string \<Rightarrow> (string list \<times> (string \<Rightarrow> string option)) option" where
  "demo_fs path = (if path = ''rec'' then Some (demo_files, Some)
     else if path = ''empty'' then Some ([reorg_filename 6 7 6 8], Some) else None)"

lemmas demo_names = commit_block_of_name reorg_of_name other_names

lemma demo_load:
  "load_commit Some demo_recording b = Some (ChainCommitted (demo_chain [(b, ucast b, ucast b - 1)]))"
  "load_reorg Some demo_recording os oe ns ne =
    Some (ChainReorged (demo_chain [(oe, ucast oe, 0)]) (demo_chain [(ne, 99, 0)]))"
  by (simp_all add: load_commit_def load_reorg_def load_notification_def demo_recording_def demo_names)

lemma demo_listing:
  "list_commit_blocks demo_files = [1, 2, 3, 4, 5, 6, 7, 8, 9, 10, 11, 12]"
  "list_reorgs demo_files = [(6, 7, 6, 8)]"
  "list_commit_blocks [reorg_filename 6 7 6 8] = []"
  by (simp_all add: list_commit_blocks_def list_reorgs_def demo_files_def List.map_filter_simps demo_names)

lemma demo_header_at:
  "header_at (load_commit Some demo_recording) b = Some (demo_header b (ucast b) (ucast b - 1))"
  by (simp add: header_at_def demo_load demo_chain_def)

lemma demo_linked: "linked (load_commit Some demo_recording) [1, 2, 3, 4, 5, 6, 7, 8, 9, 10, 11, 12]"
  by (simp add: linked_def recorded_def links_def demo_header_at demo_header_def)

section \<open>Properties\<close>

text \<open>
  C23: the replay program passes on every recording of a linked chain, whatever its blocks do: the
  commits move the state block by block, one generation each, and the ready signal names the
  first of them; the reorg test passes for any reorg that loads and whose chains have blocks; the
  gap of the last test leaves the state stale, and the blocks after it make it fresh again.
\<close>

theorem replay_passes:
  assumes "fs (artifacts_dir args) = Some (names, files)"
    and "linked (load_commit files deserialize) (list_commit_blocks names)"
    and "list_commit_blocks names \<noteq> []" and "length (list_commit_blocks names) < 2 ^ 63"
    and "case list_reorgs names of [] \<Rightarrow> True
      | (os, oe, ns, ne) # _ \<Rightarrow> \<exists>n. load_reorg files deserialize os oe ns ne = Some n
          \<and> (\<forall>c \<in> set (chains_of n). cn_blocks_and_receipts c \<noteq> [])"
  shows "replay_main E ob fs deserialize args = Inr ()
    \<and> (\<exists>rp. test_normal_commits E ob (load_commit files deserialize) (take 10 (list_commit_blocks names))
        = Inr (rp, hd (list_commit_blocks names))
      \<and> st_block (rp_state rp) = last (take 10 (list_commit_blocks names))
      \<and> st_generation (rp_state rp) = of_nat (length (take 10 (list_commit_blocks names)))
      \<and> \<not> ss_stale (st_inner (rp_state rp)))
    \<and> test_skipped_commits E ob (load_commit files deserialize) (list_commit_blocks names)
        = Inr (if length (list_commit_blocks names) < 10 then None
               else Some (True, if 11 < length (list_commit_blocks names) then Some False else None))"
proof -
  let ?load = "load_commit files deserialize" let ?blocks = "list_commit_blocks names"
  obtain b bs where b: "take 10 ?blocks = b # bs" "b = hd ?blocks"
    using assms(3) by (cases ?blocks) auto
  have "linked ?load (take 10 ?blocks)"
    using assms(2) by (auto simp: linked_def successively_conv_nth dest: in_set_takeD)
  from normal_commits_run [OF this [unfolded b(1)], of E ob] obtain rp where
    1: "test_normal_commits E ob ?load (b # bs) = Inr (rp, b)"
      "on_chain ?load b (Suc (length bs)) (last (b # bs)) rp" by blast
  from 1 on_chain_state [OF 1(2)] have normal: "\<exists>rp. test_normal_commits E ob ?load (take 10 ?blocks) = Inr (rp, hd ?blocks)
      \<and> st_block (rp_state rp) = last (take 10 ?blocks)
      \<and> st_generation (rp_state rp) = of_nat (length (take 10 ?blocks)) \<and> \<not> ss_stale (st_inner (rp_state rp))"
    unfolding b(1) b(2) [symmetric] by (intro exI [of _ rp]) (simp_all add: on_chain_def)
  have skip: "test_skipped_commits E ob ?load ?blocks = Inr (if length ?blocks < 10 then None
      else Some (True, if 11 < length ?blocks then Some False else None))"
    using skip_test_run [OF assms(2)] by (simp add: test_skipped_commits_def)
  have rec: "\<forall>b \<in> set ?blocks. recorded ?load b" using assms(2) by (simp add: linked_def)
  have "\<exists>r. test_reorg E ob ?load (load_reorg files deserialize) ?blocks reorg = Inr r"
    if "list_reorgs names = reorg # rest" for reorg rest
    using assms(5) reorg_test_run [OF rec assms(4)] that by (cases reorg) fastforce
  with normal skip assms(1) have "replay_main E ob fs deserialize args = Inr ()"
    by (cases "list_reorgs names") (auto simp: replay_main_def and_then_def Let_def min_def)
  with normal skip show ?thesis by blast
qed

theorem replay_passes_witness:
  "replay_main demo_env2 (\<lambda>_. []) demo_fs demo_recording [''replay'', ''--artifacts'', ''rec''] = Inr ()
   \<and> test_skipped_commits demo_env2 (\<lambda>_. []) (load_commit Some demo_recording) (list_commit_blocks demo_files)
      = Inr (Some (True, Some False))"
proof -
  have "demo_fs (artifacts_dir [''replay'', ''--artifacts'', ''rec'']) = Some (demo_files, Some)"
    by (simp add: artifacts_dir_def demo_fs_def)
  from replay_passes [where fs = demo_fs and deserialize = demo_recording and E = demo_env2
      and ob = "\<lambda>_. []", OF this] demo_linked show ?thesis
    by (simp add: demo_listing demo_load demo_chain_def)
qed

text \<open>
  On a directory without a commit file the program never ends: no notification is sent, so the
  ready signal, which the first test awaits, never fires.
\<close>

theorem empty_recording_hangs:
  assumes "fs (artifacts_dir args) = Some (names, files)" and "list_commit_blocks names = []"
  shows "replay_main E ob fs deserialize args = Inl ReplayHangs"
  using assms by (simp add: replay_main_def test_normal_commits_def and_then_def Let_def start_not_ready)

theorem empty_recording_hangs_witness:
  "replay_main demo_env2 (\<lambda>_. []) demo_fs demo_recording [''replay'', ''--artifacts'', ''empty''] = Inl ReplayHangs"
proof -
  have "demo_fs (artifacts_dir [''replay'', ''--artifacts'', ''empty'']) = Some ([reorg_filename 6 7 6 8], Some)"
    by (simp add: artifacts_dir_def demo_fs_def)
  from empty_recording_hangs [where fs = demo_fs, OF this demo_listing(3)] show ?thesis .
qed

end
