(* ===== verification/Live_Update.thy ===== *)
theory Live_Update
  imports Changeset_Props
begin

text \<open>
  \<open>rex-sim/examples/live_update.rs\<close>, and with it the end of the simulator that its users hold: the
  ready signal and the watch channel of updates (\<open>rex-sim/src/lib.rs\<close>).  The changeset manager's
  effects come in the order of its trace; the program waits for the ready signal and then logs
  updates until the channel closes.  The two run side by side, one atomic action at a time.

  A watch channel holds the last value sent and how often it was sent to; \<open>changed\<close> waits for a
  send the receiver has not seen, marks the newest as seen, and fails once there is none and the
  sender is gone; \<open>borrow\<close> reads the value, whatever it is by then, and marks nothing.
\<close>

section \<open>The program\<close>

datatype live_phase = AwaitReady | AwaitChange | AtBorrow | LiveEnded | LivePanicked

datatype live_line = ReadyLine u64 | UpdateLine u64 u64 | ClosedLine

record ('c, 'w, 'l) live =
  lv_todo :: "('c, 'w, 'l) effect list"
  lv_value :: state_update
  lv_version :: nat
  lv_closed :: bool
  lv_ready :: "u64 option"
  lv_phase :: live_phase
  lv_seen :: nat
  lv_log :: "live_line list"

text \<open>\<open>watch::channel(StateUpdate::default())\<close>: the first value counts as seen.\<close>

definition live_start :: "('c, 'w, 'l) effect list \<Rightarrow> ('c, 'w, 'l) live" where
  "live_start effects = \<lparr>lv_todo = effects,
     lv_value = \<lparr>su_block = 0, su_block_hash = 0, su_generation = 0\<rparr>, lv_version = 0,
     lv_closed = False, lv_ready = None, lv_phase = AwaitReady, lv_seen = 0, lv_log = []\<rparr>"

text \<open>What the changeset manager's effects do to the two channels.\<close>

fun produce :: "('c, 'w, 'l) effect \<Rightarrow> ('c, 'w, 'l) live \<Rightarrow> ('c, 'w, 'l) live" where
  "produce (EfUpdate u) s = s\<lparr>lv_value := u, lv_version := Suc (lv_version s)\<rparr>"
| "produce (EfReady b) s = s\<lparr>lv_ready := Some b\<rparr>"
| "produce _ s = s"

datatype live_action = Produce | CloseSender | TakeReady | ReadyLost | TakeChange | LogUpdate | SeeClosed

text \<open>\<open>None\<close>: the action is not possible now.\<close>

fun live_next :: "live_action \<Rightarrow> ('c, 'w, 'l) live \<Rightarrow> ('c, 'w, 'l) live option" where
  "live_next Produce s =
    (case lv_todo s of e # es \<Rightarrow> Some (produce e (s\<lparr>lv_todo := es\<rparr>)) | [] \<Rightarrow> None)"
| "live_next CloseSender s =
    (if lv_todo s = [] \<and> \<not> lv_closed s then Some (s\<lparr>lv_closed := True\<rparr>) else None)"
| "live_next TakeReady s =
    (case (lv_phase s, lv_ready s) of
       (AwaitReady, Some b) \<Rightarrow> Some (s\<lparr>lv_phase := AwaitChange, lv_log := lv_log s @ [ReadyLine b]\<rparr>)
     | _ \<Rightarrow> None)"
| "live_next ReadyLost s =
    (if lv_phase s = AwaitReady \<and> lv_ready s = None \<and> lv_closed s
     then Some (s\<lparr>lv_phase := LivePanicked\<rparr>) else None)"
| "live_next TakeChange s =
    (if lv_phase s = AwaitChange \<and> lv_seen s < lv_version s
     then Some (s\<lparr>lv_phase := AtBorrow, lv_seen := lv_version s\<rparr>) else None)"
| "live_next LogUpdate s =
    (if lv_phase s = AtBorrow
     then Some (s\<lparr>lv_phase := AwaitChange,
            lv_log := lv_log s @ [UpdateLine (su_block (lv_value s)) (su_generation (lv_value s))]\<rparr>)
     else None)"
| "live_next SeeClosed s =
    (if lv_phase s = AwaitChange \<and> \<not> lv_seen s < lv_version s \<and> lv_closed s
     then Some (s\<lparr>lv_phase := LiveEnded, lv_log := lv_log s @ [ClosedLine]\<rparr>) else None)"

abbreviation live_run :: "live_action list \<Rightarrow> ('c, 'w, 'l) live \<Rightarrow> ('c, 'w, 'l) live option" where
  "live_run \<equiv> run_all live_next"

text \<open>Its command line: \<open>args.get(1)\<close> and \<open>args.get(2)\<close>.\<close>

definition live_args :: "string list \<Rightarrow> string \<times> string" where
  "live_args args =
    (if 1 < length args then args ! 1 else ''http://127.0.0.1:10000'',
     if 2 < length args then args ! 2 else ''http://127.0.0.1:8545'')"

section \<open>Facts\<close>

definition updates_of :: "('c, 'w, 'l) effect list \<Rightarrow> state_update list" where
  "updates_of es = List.map_filter (\<lambda>e. case e of EfUpdate u \<Rightarrow> Some u | _ \<Rightarrow> None) es"

definition line_of :: "state_update \<Rightarrow> live_line" where
  "line_of u = UpdateLine (su_block u) (su_generation u)"

fun is_update_line :: "live_line \<Rightarrow> bool" where
  "is_update_line (UpdateLine _ _) = True"
| "is_update_line _ = False"

lemma updates_of_simps [simp]:
  "updates_of [] = []"
  "updates_of (e # es) = (case e of EfUpdate u \<Rightarrow> u # updates_of es | _ \<Rightarrow> updates_of es)"
  by (auto simp: updates_of_def List.map_filter_simps split: effect.split)

lemma updates_of_append [simp]: "updates_of (es @ fs) = updates_of es @ updates_of fs"
  by (simp add: updates_of_def List.map_filter_def)

text \<open>
  The log as versions: \<open>vs\<close> lists, for each update line, which send it shows.  A version is
  shown at most twice: a second time only if it was not seen when it was shown first.
\<close>

definition live_ok :: "state_update list \<Rightarrow> nat list \<Rightarrow> ('c, 'w, 'l) live \<Rightarrow> bool" where
  "live_ok us vs s \<longleftrightarrow>
    updates_of (lv_todo s) = drop (lv_version s) us
    \<and> lv_version s \<le> length us \<and> lv_seen s \<le> lv_version s
    \<and> (0 < lv_version s \<longrightarrow> lv_value s = us ! (lv_version s - 1))
    \<and> filter is_update_line (lv_log s) = map (\<lambda>v. line_of (us ! (v - 1))) vs
    \<and> sorted vs \<and> (\<forall>v \<in> set vs. 0 < v \<and> v \<le> lv_version s)
    \<and> (\<forall>v. count_list vs v \<le> 2) \<and> (\<forall>v > lv_seen s. count_list vs v \<le> 1)
    \<and> (lv_phase s = AtBorrow \<longrightarrow>
         0 < lv_seen s \<and> (\<forall>v \<in> set vs. v \<le> lv_seen s) \<and> count_list vs (lv_seen s) \<le> 1)
    \<and> (lv_phase s \<in> {AwaitChange, LiveEnded} \<and> 0 < lv_seen s \<longrightarrow> vs \<noteq> [] \<and> lv_seen s \<le> last vs)
    \<and> (lv_phase s = AwaitReady \<longrightarrow> lv_seen s = 0)
    \<and> (lv_phase s = LiveEnded \<longrightarrow> lv_todo s = [] \<and> lv_seen s = lv_version s)
    \<and> (lv_closed s \<longrightarrow> lv_todo s = [])"

lemma live_start_ok: "live_ok (updates_of es) [] (live_start es)"
  by (simp add: live_ok_def live_start_def)

lemma produce_fields [simp]:
  "lv_todo (produce e s) = lv_todo s" "lv_closed (produce e s) = lv_closed s"
  "lv_phase (produce e s) = lv_phase s" "lv_seen (produce e s) = lv_seen s" "lv_log (produce e s) = lv_log s"
  "lv_ready (produce e s) = (case e of EfReady b \<Rightarrow> Some b | _ \<Rightarrow> lv_ready s)"
  by (cases e; simp)+

lemma live_ok_same:
  assumes "live_ok us vs s" and "updates_of (lv_todo s') = updates_of (lv_todo s)"
    and "lv_todo s = [] \<Longrightarrow> lv_todo s' = []" and "lv_value s' = lv_value s" and "lv_version s' = lv_version s"
    and "lv_closed s' = lv_closed s" and "lv_phase s' = lv_phase s" and "lv_seen s' = lv_seen s"
    and "lv_log s' = lv_log s"
  shows "live_ok us vs s'"
  using assms(1,3) unfolding live_ok_def assms(2,4-9) by blast

lemma live_ok_produce:
  assumes "live_ok us vs s" and "lv_todo s = e # es"
  shows "live_ok us vs (produce e (s\<lparr>lv_todo := es\<rparr>))"
proof (cases e)
  case (EfUpdate u)
  from assms EfUpdate have us: "drop (lv_version s) us = u # updates_of es" by (simp add: live_ok_def)
  then have "us ! lv_version s = u" "drop (Suc (lv_version s)) us = updates_of es"
    by (simp_all add: nth_via_drop drop_Suc flip: tl_drop)
  moreover from us have "lv_version s < length us" by (metis drop_all linorder_not_le list.distinct(1))
  ultimately show ?thesis using assms EfUpdate
    by (auto simp: live_ok_def)
qed (rule live_ok_same [OF assms(1)]; simp add: assms(2))+

lemma live_ok_log:
  assumes "live_ok us vs s" and "lv_phase s = AtBorrow"
  shows "live_ok us (vs @ [lv_version s]) (s\<lparr>lv_phase := AwaitChange,
    lv_log := lv_log s @ [UpdateLine (su_block (lv_value s)) (su_generation (lv_value s))]\<rparr>)"
proof -
  have "\<forall>v \<in> set vs. v \<le> lv_seen s" and "lv_seen s \<le> lv_version s"
    using assms by (simp_all add: live_ok_def)
  moreover have "count_list vs (lv_version s) \<le> 1"
    using assms le_less [of "lv_seen s" "lv_version s"] by (auto simp: live_ok_def)
  moreover have "count_list vs v = 0" if "lv_seen s < v" for v
    using that \<open>\<forall>v \<in> set vs. v \<le> lv_seen s\<close> by (auto simp: count_list_0_iff)
  ultimately show ?thesis using assms
    by (auto simp: live_ok_def line_of_def sorted_append)
qed

lemma live_ok_step:
  assumes "live_ok us vs s" and "live_next a s = Some s'"
  shows "\<exists>vs'. live_ok us vs' s'"
proof (cases a)
  case Produce
  with assms live_ok_produce [OF assms(1)] show ?thesis by (auto split: list.splits)
next
  case LogUpdate
  with assms live_ok_log [OF assms(1)] show ?thesis by (auto split: if_splits)
next
  case TakeReady
  with assms(2) obtain b where s': "s' = s\<lparr>lv_phase := AwaitChange, lv_log := lv_log s @ [ReadyLine b]\<rparr>"
    "lv_phase s = AwaitReady" by (auto split: live_phase.splits option.splits)
  with assms(1) have "live_ok us vs s'" by (simp add: live_ok_def)
  then show ?thesis ..
next
  case CloseSender
  with assms(2) have s': "s' = s\<lparr>lv_closed := True\<rparr>" "lv_todo s = []" by (auto split: if_splits)
  with assms(1) have "live_ok us vs s'" by (simp add: live_ok_def)
  then show ?thesis ..
next
  case ReadyLost
  with assms(2) have s': "s' = s\<lparr>lv_phase := LivePanicked\<rparr>" by (auto split: if_splits)
  with assms(1) have "live_ok us vs s'" by (simp add: live_ok_def)
  then show ?thesis ..
next
  case TakeChange
  with assms(2) have s': "s' = s\<lparr>lv_phase := AtBorrow, lv_seen := lv_version s\<rparr>" "lv_seen s < lv_version s"
    by (auto split: if_splits)
  with assms(1) have "count_list vs (lv_version s) \<le> 1" "\<forall>v > lv_version s. count_list vs v \<le> 1"
    by (simp_all add: live_ok_def)
  with assms(1) s' have "live_ok us vs s'" by (simp add: live_ok_def)
  then show ?thesis ..
next
  case SeeClosed
  with assms(2) have s': "s' = s\<lparr>lv_phase := LiveEnded, lv_log := lv_log s @ [ClosedLine]\<rparr>"
    "lv_phase s = AwaitChange" "\<not> lv_seen s < lv_version s" "lv_closed s"
    by (auto split: if_splits)
  from assms(1) have "updates_of (lv_todo s) = drop (lv_version s) us" by (simp add: live_ok_def)
  moreover from assms(1) s'(4) have "lv_todo s = []" by (simp add: live_ok_def)
  ultimately have "length us \<le> lv_version s" by (metis drop_eq_Nil updates_of_simps(1))
  moreover from assms(1) have "lv_version s \<le> length us" by (simp add: live_ok_def)
  ultimately have len: "length us = lv_version s" by simp
  from assms(1) s' have "lv_seen s = lv_version s" "0 < lv_version s \<longrightarrow> lv_version s \<le> last vs"
    by (auto simp: live_ok_def)
  with assms(1) s' len have "live_ok us vs s'" by (simp add: live_ok_def)
  then show ?thesis ..
qed

lemma live_ok_run: "live_run as s = Some s' \<Longrightarrow> live_ok us vs s \<Longrightarrow> \<exists>vs'. live_ok us vs' s'"
proof (induction as arbitrary: s vs)
  case (Cons a as)
  then show ?case using live_ok_step by (fastforce split: option.splits)
qed auto

lemmas live_reach = live_ok_run [OF _ live_start_ok]

text \<open>The ready signal: taken from the effects, before anything is logged.\<close>

definition ready_known :: "('c, 'w, 'l) effect list \<Rightarrow> ('c, 'w, 'l) live \<Rightarrow> bool" where
  "ready_known es s \<longleftrightarrow>
    (lv_ready s = None \<and> lv_todo s = [] \<longrightarrow> filter is_ready_effect es = [])
    \<and> (lv_ready s = None \<longrightarrow> filter is_ready_effect (lv_todo s) = filter is_ready_effect es)
    \<and> (lv_closed s \<longrightarrow> lv_todo s = [])
    \<and> (lv_phase s = LivePanicked \<longrightarrow> filter is_ready_effect es = [])"

lemma ready_known_start: "ready_known es (live_start es)"
  by (simp add: ready_known_def live_start_def)

interpretation ready_wait: machine_invariant live_next "ready_known es" for es
proof
  fix a and s s' :: "('a, 'b, 'c) live"
  assume n: "live_next a s = Some s'" and k: "ready_known es s"
  show "ready_known es s'"
  proof (cases a)
    case Produce
    with n obtain e fs where "lv_todo s = e # fs" "s' = produce e (s\<lparr>lv_todo := fs\<rparr>)"
      by (auto split: list.splits)
    with k show ?thesis by (cases e) (auto simp: ready_known_def)
  next
    case TakeReady
    with n k show ?thesis by (auto simp: ready_known_def split: live_phase.splits option.splits)
  qed (use n k in \<open>auto simp: ready_known_def split: if_splits\<close>)
qed

text \<open>Every action brings the end nearer.\<close>

fun live_weight :: "live_phase \<Rightarrow> nat" where
  "live_weight AwaitReady = 2"
| "live_weight AwaitChange = 1"
| "live_weight AtBorrow = 2"
| "live_weight LiveEnded = 0"
| "live_weight LivePanicked = 0"

definition live_left :: "('c, 'w, 'l) live \<Rightarrow> nat" where
  "live_left s = 3 * length (lv_todo s) + (if lv_closed s then 0 else 1) + live_weight (lv_phase s)
    + (if lv_seen s < lv_version s then 2 else 0)"

lemma live_left_step:
  assumes "live_next a s = Some s'" and "live_ok us vs s"
  shows "live_left s' < live_left s"
proof (cases a)
  case Produce
  with assms(1) obtain e es where "lv_todo s = e # es" "s' = produce e (s\<lparr>lv_todo := es\<rparr>)"
    by (auto split: list.splits)
  then show ?thesis by (cases e) (simp_all add: live_left_def)
next
  case TakeReady
  with assms show ?thesis by (auto simp: live_left_def split: live_phase.splits option.splits)
next
  case LogUpdate
  with assms show ?thesis by (auto simp: live_left_def split: if_splits)
qed (use assms in \<open>auto simp: live_left_def split: if_splits\<close>)

lemma live_left_run:
  "live_run as s = Some s' \<Longrightarrow> live_ok us vs s \<Longrightarrow> live_left s' + length as \<le> live_left s"
proof (induction as arbitrary: s vs)
  case (Cons a as)
  from Cons.prems(1) obtain s1 where 1: "live_next a s = Some s1" "live_run as s1 = Some s'"
    by (auto split: option.splits)
  from live_ok_step [OF Cons.prems(2) 1(1)] obtain vs1 where "live_ok us vs1 s1" by blast
  from Cons.IH [OF 1(2) this] live_left_step [OF 1(1) Cons.prems(2)] show ?case by simp
qed simp

text \<open>Nothing can happen any more only when the program has ended or panicked.\<close>

lemma live_stuck:
  assumes "\<forall>a. live_next a s = None"
  shows "lv_phase s = LiveEnded \<or> lv_phase s = LivePanicked"
proof -
  from assms [THEN spec, of Produce] assms [THEN spec, of CloseSender] have "lv_closed s"
    by (auto split: list.splits if_splits)
  with assms [THEN spec, of TakeReady] assms [THEN spec, of ReadyLost] assms [THEN spec, of TakeChange]
    assms [THEN spec, of LogUpdate] assms [THEN spec, of SeeClosed]
  show ?thesis by (cases "lv_phase s") (auto split: option.splits if_splits)
qed

section \<open>What the log shows\<close>

text \<open>
  The log of any run, in terms of the sends: \<open>vs\<close> lists which of them each update line shows.
\<close>

lemma live_log_versions:
  assumes "live_run as (live_start es) = Some s"
  obtains vs where "filter is_update_line (lv_log s) = map (\<lambda>v. line_of (updates_of es ! (v - 1))) vs"
    "sorted vs" "\<forall>v \<in> set vs. 0 < v \<and> v \<le> length (updates_of es)" "\<forall>v. count_list vs v \<le> 2"
    "lv_phase s = LiveEnded \<Longrightarrow> updates_of es \<noteq> [] \<Longrightarrow> vs \<noteq> [] \<and> last vs = length (updates_of es)"
proof -
  from live_reach [OF assms] obtain vs where ok: "live_ok (updates_of es) vs s" by blast
  have le: "\<forall>v \<in> set vs. 0 < v \<and> v \<le> length (updates_of es)"
    using ok by (fastforce simp: live_ok_def)
  have "vs \<noteq> [] \<and> last vs = length (updates_of es)" if "lv_phase s = LiveEnded" "updates_of es \<noteq> []"
  proof -
    from ok that(1) have "drop (lv_version s) (updates_of es) = []" "lv_seen s = lv_version s"
      "0 < lv_seen s \<longrightarrow> vs \<noteq> [] \<and> lv_seen s \<le> last vs" by (auto simp: live_ok_def)
    with that(2) le show ?thesis by (metis drop_eq_Nil last_in_set le_antisym le_trans length_greater_0_conv
          less_le_trans)
  qed
  with ok le show ?thesis by (intro that [of vs]) (simp_all add: live_ok_def)
qed

text \<open>The updates a changeset manager sends carry the successive generations.\<close>

lemma told_updates:
  "updates_of (told n s cm) = (if cm_update_sender cm \<and> (\<not> ss_stale s \<or> is_revert n)
     then [\<lparr>su_block = ss_block s, su_block_hash = ss_block_hash s,
            su_generation = st_generation (cm_state cm) + 1\<rparr>] else [])"
  by (simp add: told_def)

definition numbered :: "('c, 'w, 'l) changeset_manager \<Rightarrow> nat \<Rightarrow> bool" where
  "numbered cm n \<longleftrightarrow> st_generation (cm_state cm) = of_nat n
    \<and> sorted_wrt (<) (map (unat \<circ> su_generation) (updates_of (cm_trace cm)))
    \<and> (\<forall>u \<in> set (updates_of (cm_trace cm)). unat (su_generation u) \<le> n)"

lemma numbered_step:
  assumes "handle_notification E ob (x, fr) cm = Some cm'" and "numbered cm n" and "Suc n < 2 ^ 64"
  shows "numbered cm' (Suc n)"
  using assms(1)
proof (rule handle_next)
  fix s
  assume "cm' = cm\<lparr>cm_state := swap s (cm_state cm),
        cm_ready_signal := cm_ready_signal cm \<and> ss_stale s,
        cm_trace := cm_trace cm @ [EfFlush, EfSwap s] @ told x s cm\<rparr>"
  moreover have "unat (of_nat n + 1 :: u64) = Suc n"
  proof -
    have "unat (of_nat (Suc n) :: u64) = Suc n" using assms(3) by (simp only: unat_of_nat) simp
    then show ?thesis by (simp only: of_nat_Suc add.commute [of "1 :: u64"])
  qed
  ultimately show ?thesis using assms(2)
    by (fastforce simp: numbered_def told_updates sorted_wrt_append)
qed

lemma numbered_run:
  "run_changeset_manager E ob ns cm = Some cm' \<Longrightarrow> numbered cm n \<Longrightarrow> n + length ns < 2 ^ 64 \<Longrightarrow>
    numbered cm' (n + length ns)"
proof (induction ns arbitrary: cm n)
  case (Cons y ns)
  obtain x fr where y: "y = (x, fr)" by (cases y)
  from Cons.prems(1) obtain cm1 where 1: "handle_notification E ob (x, fr) cm = Some cm1"
    "run_changeset_manager E ob ns cm1 = Some cm'" by (auto simp: run_def y split: option.splits)
  from Cons.IH [OF 1(2) numbered_step [OF 1(1) Cons.prems(2)]] Cons.prems(3) show ?case by simp
qed (simp add: run_def)

text \<open>The versions read as updates, when these are told apart by their generations.\<close>

lemma count_list_map_inj:
  "inj_on f (set xs) \<Longrightarrow> x \<in> set xs \<Longrightarrow> count_list (map f xs) (f x) = count_list xs x"
proof (induction xs)
  case (Cons y ys)
  show ?case
  proof (cases "x \<in> set ys")
    case True
    with Cons show ?thesis by (auto simp: inj_on_def)
  next
    case False
    with Cons.prems have "x = y" "f x \<notin> f ` set ys" by (auto simp: inj_on_def)
    with False show ?thesis by (simp add: count_list_0_iff)
  qed
qed simp

lemma shown_updates:
  assumes "sorted_wrt (<) (map (unat \<circ> su_generation) us)"
    and "ls = map (\<lambda>v. line_of (us ! (v - 1))) vs"
    and "sorted vs" and "\<forall>v \<in> set vs. 0 < v \<and> v \<le> length us" and "\<forall>v. count_list vs v \<le> 2"
    and "P \<Longrightarrow> us \<noteq> [] \<Longrightarrow> vs \<noteq> [] \<and> last vs = length us"
  shows "\<exists>ws. ls = map line_of ws \<and> set ws \<subseteq> set us \<and> (\<forall>u. count_list ws u \<le> 2)
    \<and> sorted (map (unat \<circ> su_generation) ws) \<and> (P \<and> us \<noteq> [] \<longrightarrow> ws \<noteq> [] \<and> last ws = last us)"
proof (intro exI conjI)
  let ?f = "\<lambda>v. us ! (v - 1)" let ?g = "unat \<circ> su_generation"
  have mono: "?g (?f v) < ?g (?f w)" if "v \<in> set vs" "w \<in> set vs" "v < w" for v w
  proof -
    have "v - 1 < w - 1" "w - 1 < length us" using assms(4) that by (auto simp: Suc_le_eq)
    then show ?thesis using sorted_wrt_nth_less [OF assms(1), of "v - 1" "w - 1"] by simp
  qed
  have inj: "inj_on ?f (set vs)"
  proof (rule linorder_inj_onI')
    fix v w assume "v \<in> set vs" "w \<in> set vs" "v < w"
    from mono [OF this] show "?f v \<noteq> ?f w" by auto
  qed
  show "ls = map line_of (map ?f vs)" using assms(2) by simp
  show "set (map ?f vs) \<subseteq> set us" using assms(4) by (auto intro!: nth_mem)
  show "\<forall>u. count_list (map ?f vs) u \<le> 2"
  proof
    fix u
    show "count_list (map ?f vs) u \<le> 2"
    proof (cases "u \<in> ?f ` set vs")
      case True
      with count_list_map_inj [OF inj] assms(5) show ?thesis by auto
    next
      case False
      then show ?thesis by (simp add: count_list_0_iff)
    qed
  qed
  have "sorted_wrt (\<lambda>v w. ?g (?f v) \<le> ?g (?f w)) vs"
    by (rule sorted_wrt_mono_rel [OF _ assms(3)]) (metis mono le_less order_refl)
  then show "sorted (map ?g (map ?f vs))" by (simp add: sorted_wrt_map comp_def)
  show "P \<and> us \<noteq> [] \<longrightarrow> map ?f vs \<noteq> [] \<and> last (map ?f vs) = last us"
    using assms(6) by (auto simp: last_map last_conv_nth)
qed

section \<open>Properties\<close>

text \<open>
  C24: whatever the interleaving of the changeset manager and the program, the program ends: no run
  takes more than three actions per effect and three more, and a run that cannot go on has
  ended, or has panicked because no ready signal was ever sent.  When it has ended it has logged
  updates with generations that never go back, none more than twice, and the last one sent.
\<close>

theorem live_log_complete:
  assumes "run_changeset_manager E ob ns cm = Some cm'" and "cm_trace cm = []"
    and "st_generation (cm_state cm) = 0" and "length ns < 2 ^ 64"
    and "live_run as (live_start (cm_trace cm')) = Some s"
  shows "length as \<le> 3 * length (cm_trace cm') + 3
    \<and> ((\<forall>a. live_next a s = None) \<longrightarrow>
        lv_phase s = LiveEnded \<or> lv_phase s = LivePanicked \<and> filter is_ready_effect (cm_trace cm') = [])
    \<and> (\<exists>us. filter is_update_line (lv_log s) = map line_of us
        \<and> set us \<subseteq> set (updates_of (cm_trace cm')) \<and> (\<forall>u. count_list us u \<le> 2)
        \<and> sorted (map (unat \<circ> su_generation) us)
        \<and> (lv_phase s = LiveEnded \<and> updates_of (cm_trace cm') \<noteq> [] \<longrightarrow>
             us \<noteq> [] \<and> last us = last (updates_of (cm_trace cm'))))"
proof (intro conjI impI)
  let ?us = "updates_of (cm_trace cm')"
  show "length as \<le> 3 * length (cm_trace cm') + 3"
    using live_left_run [OF assms(5) live_start_ok] by (simp add: live_left_def live_start_def)
  have "ready_known (cm_trace cm') s"
    using ready_wait.run_keeps [OF assms(5) ready_known_start] .
  then show "lv_phase s = LiveEnded \<or> lv_phase s = LivePanicked \<and> filter is_ready_effect (cm_trace cm') = []"
    if "\<forall>a. live_next a s = None"
    using live_stuck [OF that] by (auto simp: ready_known_def)
  have "numbered cm 0" using assms(2,3) by (simp add: numbered_def)
  from numbered_run [OF assms(1) this] assms(4) have sorted: "sorted_wrt (<) (map (unat \<circ> su_generation) ?us)"
    by (simp add: numbered_def)
  from live_log_versions [OF assms(5)] obtain vs where
    l: "filter is_update_line (lv_log s) = map (\<lambda>v. line_of (?us ! (v - 1))) vs"
    and v: "sorted vs" "\<forall>v \<in> set vs. 0 < v \<and> v \<le> length ?us" "\<forall>v. count_list vs v \<le> 2"
    and e: "lv_phase s = LiveEnded \<Longrightarrow> ?us \<noteq> [] \<Longrightarrow> vs \<noteq> [] \<and> last vs = length ?us" by blast
  show "\<exists>us. filter is_update_line (lv_log s) = map line_of us \<and> set us \<subseteq> set ?us \<and> (\<forall>u. count_list us u \<le> 2)
      \<and> sorted (map (unat \<circ> su_generation) us)
      \<and> (lv_phase s = LiveEnded \<and> ?us \<noteq> [] \<longrightarrow> us \<noteq> [] \<and> last us = last ?us)"
    by (rule shown_updates [OF sorted l v e])
qed

text \<open>A commit, a second one, and the program in between: the last line is there twice.\<close>

definition demo_live_notes :: "((nat, nat, nat) notification \<times> nat flush_replies) list" where
  "demo_live_notes = [(ChainCommitted (demo_chain [(100, 7, 6)]), no_caches),
     (ChainCommitted (demo_chain [(101, 8, 7)]), no_caches)]"

definition demo_live_cm :: "(nat, nat, nat) changeset_manager" where
  "demo_live_cm = (demo_cm snapshot_default)\<lparr>cm_log_sink := False\<rparr>"

lemma demo_live_run:
  "\<exists>cm' s1 s2. run_changeset_manager demo_env2 (\<lambda>_. []) demo_live_notes demo_live_cm = Some cm'
     \<and> cm_trace cm' = [EfFlush, EfSwap s1, EfUpdate \<lparr>su_block = 100, su_block_hash = 7, su_generation = 1\<rparr>,
         EfReady 100, EfFlush, EfSwap s2, EfUpdate \<lparr>su_block = 101, su_block_hash = 8, su_generation = 2\<rparr>]"
proof -
  let ?n1 = "ChainCommitted (demo_chain [(100, 7, 6)])" let ?n2 = "ChainCommitted (demo_chain [(101, 8, 7)])"
  obtain cm1 where 1: "handle_notification demo_env2 (\<lambda>_. []) (?n1, no_caches) demo_live_cm = Some cm1"
    using handle_None [of demo_env2 "\<lambda>_. []" ?n1 no_caches demo_live_cm] by (auto simp: demo_chain_def)
  obtain cm2 where 2: "handle_notification demo_env2 (\<lambda>_. []) (?n2, no_caches) cm1 = Some cm2"
    using handle_None [of demo_env2 "\<lambda>_. []" ?n2 no_caches cm1] by (auto simp: demo_chain_def)
  have v0: "is_initial (view demo_live_cm)"
    by (simp add: demo_live_cm_def demo_cm_def view_def static_state_new_def snapshot_default_def is_initial_def)
  from tip.step_refines [OF 1] v0 have v1: "view cm1 = \<lparr>cs_block = 100, cs_block_hash = 7, cs_stale = False\<rparr>"
    by (simp add: demo_chain_def demo_header_def chain_tip_of_def chain_first_def)
  with tip.step_refines [OF 2] have v2: "view cm2 = \<lparr>cs_block = 101, cs_block_hash = 8, cs_stale = False\<rparr>"
    by (simp add: demo_chain_def demo_header_def chain_tip_of_def chain_first_def connects_def info_of_def)
  from 1 obtain s1 where s1: "cm1 = demo_live_cm\<lparr>cm_state := swap s1 (cm_state demo_live_cm),
        cm_ready_signal := cm_ready_signal demo_live_cm \<and> ss_stale s1,
        cm_trace := cm_trace demo_live_cm @ [EfFlush, EfSwap s1] @ told ?n1 s1 demo_live_cm\<rparr>" by (rule handle_next)
  from 2 obtain s2 where s2: "cm2 = cm1\<lparr>cm_state := swap s2 (cm_state cm1),
        cm_ready_signal := cm_ready_signal cm1 \<and> ss_stale s2,
        cm_trace := cm_trace cm1 @ [EfFlush, EfSwap s2] @ told ?n2 s2 cm1\<rparr>" by (rule handle_next)
  from v1 s1 have f1: "ss_block s1 = 100" "ss_block_hash s1 = 7" "\<not> ss_stale s1" by (simp_all add: view_def)
  from v2 s2 have f2: "ss_block s2 = 101" "ss_block_hash s2 = 8" "\<not> ss_stale s2" by (simp_all add: view_def)
  have "run_changeset_manager demo_env2 (\<lambda>_. []) demo_live_notes demo_live_cm = Some cm2"
    using 1 2 by (simp add: run_def demo_live_notes_def)
  with s1 s2 f1 f2 show ?thesis
    by (intro exI [of _ cm2] exI [of _ s1] exI [of _ s2])
      (simp add: told_def demo_live_cm_def demo_cm_def static_state_new_def)
qed

definition demo_live_actions :: "live_action list" where
  "demo_live_actions = [Produce, Produce, Produce, Produce, TakeReady, TakeChange, Produce, Produce, Produce,
     LogUpdate, TakeChange, LogUpdate, CloseSender, SeeClosed]"

lemma demo_live_log:
  assumes "es = [EfFlush, EfSwap s1, EfUpdate \<lparr>su_block = 100, su_block_hash = 7, su_generation = 1\<rparr>,
         EfReady 100, EfFlush, EfSwap s2, EfUpdate \<lparr>su_block = 101, su_block_hash = 8, su_generation = 2\<rparr>]"
  shows "\<exists>s. live_run demo_live_actions (live_start es) = Some s \<and> lv_phase s = LiveEnded
    \<and> lv_log s = [ReadyLine 100, UpdateLine 101 2, UpdateLine 101 2, ClosedLine]"
  by (simp add: assms demo_live_actions_def live_start_def)

theorem live_log_complete_witness:
  "\<exists>s :: (nat, nat, nat) live. lv_phase s = LiveEnded
     \<and> lv_log s = [ReadyLine 100, UpdateLine 101 2, UpdateLine 101 2, ClosedLine]
     \<and> (\<exists>us. filter is_update_line (lv_log s) = map line_of us \<and> (\<forall>u. count_list us u \<le> 2))"
proof -
  from demo_live_run obtain cm' s1 s2 where
    r: "run_changeset_manager demo_env2 (\<lambda>_. []) demo_live_notes demo_live_cm = Some cm'"
    and t: "cm_trace cm' = [EfFlush, EfSwap s1, EfUpdate \<lparr>su_block = 100, su_block_hash = 7, su_generation = 1\<rparr>,
         EfReady 100, EfFlush, EfSwap s2, EfUpdate \<lparr>su_block = 101, su_block_hash = 8, su_generation = 2\<rparr>]"
    by blast
  from demo_live_log [OF t] obtain s where s: "live_run demo_live_actions (live_start (cm_trace cm')) = Some s"
    "lv_phase s = LiveEnded" "lv_log s = [ReadyLine 100, UpdateLine 101 2, UpdateLine 101 2, ClosedLine]" by blast
  have "cm_trace demo_live_cm = []" "st_generation (cm_state demo_live_cm) = 0"
    by (simp_all add: demo_live_cm_def demo_cm_def static_state_new_def)
  from live_log_complete [OF r this _ s(1)]
  have "\<exists>us. filter is_update_line (lv_log s) = map line_of us \<and> (\<forall>u. count_list us u \<le> 2)"
    unfolding demo_live_notes_def by fastforce
  with s(2,3) show ?thesis by blast
qed


end
