(* ===== verification/Rex_Cons.thy ===== *)
theory Rex_Cons
  imports Prelude "HOL-Library.Sublist"
begin

text \<open>
  \<open>rex-cons/src/lib.rs\<close> and \<open>reth-rex/src/main.rs\<close>: how a notification gets from the node to
  the simulator.  On the server, a broadcast channel of 32 and one forwarding task per client;
  on the client, a stream that reconnects with a doubling back-off.  The outcomes of the
  connection attempts and of the stream's \<open>message()\<close> calls are inputs, consumed in order;
  when they run out, the code is still waiting.  Durations are whole seconds.
\<close>

section \<open>The client\<close>

definition INITIAL_BACKOFF :: nat where
  "INITIAL_BACKOFF = 1"

definition MAX_BACKOFF :: nat where
  "MAX_BACKOFF = 30"

text \<open>\<open>ns_slept\<close> records the \<open>sleep\<close> calls.\<close>

record notification_stream =
  ns_connected :: bool
  ns_backoff :: nat
  ns_slept :: "nat list"

definition notification_stream_new :: notification_stream where
  "notification_stream_new = \<lparr>ns_connected = False, ns_backoff = INITIAL_BACKOFF, ns_slept = []\<rparr>"

text \<open>The outcomes of \<open>try_connect\<close> come as a list of booleans.\<close>

fun connect :: "bool list \<Rightarrow> notification_stream \<Rightarrow> notification_stream \<times> bool list" where
  "connect [] st = (st, [])"
| "connect (True # as) st = (st\<lparr>ns_connected := True, ns_backoff := INITIAL_BACKOFF\<rparr>, as)"
| "connect (False # as) st = connect as
     (st\<lparr>ns_slept := ns_slept st @ [ns_backoff st], ns_backoff := min (ns_backoff st * 2) MAX_BACKOFF\<rparr>)"

datatype message_result = MsgData bytes | MsgClosed | MsgError

text \<open>
  One call of \<open>next\<close>: the notification, if one came, and what is left of the inputs.  Each
  turn of its loop consumes one message.
\<close>

fun next_notification ::
  "(bytes \<Rightarrow> 'n option) \<Rightarrow> message_result list \<Rightarrow> bool list \<Rightarrow> notification_stream
    \<Rightarrow> 'n option \<times> notification_stream \<times> bool list \<times> message_result list" where
  "next_notification deserialize [] as st =
     (let (st, as) = (if ns_connected st then (st, as) else connect as st) in (None, st, as, []))"
| "next_notification deserialize (m # ms) as st =
     (let (st, as) = (if ns_connected st then (st, as) else connect as st)
      in if \<not> ns_connected st then (None, st, as, m # ms)
         else case m of
           MsgData data \<Rightarrow>
             (case deserialize data of
                Some n \<Rightarrow> (Some n, st\<lparr>ns_backoff := INITIAL_BACKOFF\<rparr>, as, ms)
              | None \<Rightarrow> next_notification deserialize ms as st)
         | MsgClosed \<Rightarrow> next_notification deserialize ms as (st\<lparr>ns_connected := False\<rparr>)
         | MsgError \<Rightarrow> next_notification deserialize ms as (st\<lparr>ns_connected := False\<rparr>))"

lemma next_consumes:
  "next_notification d ms as st = (Some n, st', as', ms') \<Longrightarrow> length ms' < length ms"
  by (induction d ms as st rule: next_notification.induct)
    (fastforce simp: Let_def split: prod.splits if_splits message_result.splits option.splits)+

text \<open>The loop of \<open>subscribe\<close>: what is sent to the receiver, which stays open.\<close>

function subscribe ::
  "(bytes \<Rightarrow> 'n option) \<Rightarrow> message_result list \<Rightarrow> bool list \<Rightarrow> notification_stream \<Rightarrow> 'n list" where
  "subscribe d ms as st =
    (case next_notification d ms as st of
       (None, _) \<Rightarrow> []
     | (Some n, st', as', ms') \<Rightarrow> n # subscribe d ms' as' st')"
  by auto
termination
  by (relation "measure (\<lambda>(d, ms, as, st). length ms)") (auto dest: next_consumes [OF sym])

declare subscribe.simps [simp del]

section \<open>The server\<close>

text \<open>
  The broadcast channel is the log of all notifications sent; a receiver is a position in it,
  and has lagged when the position is more than the capacity behind.
\<close>

definition BROADCAST_DEPTH :: nat where
  "BROADCAST_DEPTH = 32"

datatype 'n bc_recv = BcOk 'n | BcLagged | BcEmpty

definition bc_recv :: "'n list \<Rightarrow> nat \<Rightarrow> 'n bc_recv" where
  "bc_recv log pos =
    (if length log \<le> pos then BcEmpty
     else if pos + BROADCAST_DEPTH < length log then BcLagged
     else BcOk (log ! pos))"

text \<open>
  The forwarding task of one client: turn by turn, the log it sees and whether the send to the
  client succeeds.  It ends at the first error of either; an empty log means it waits.
\<close>

fun forward ::
  "('n \<Rightarrow> bytes) \<Rightarrow> nat \<Rightarrow> ('n list \<times> bool) list \<Rightarrow> bytes list" where
  "forward serialize pos [] = []"
| "forward serialize pos ((log, client) # turns) =
     (case bc_recv log pos of
        BcOk n \<Rightarrow> (if client then serialize n # forward serialize (Suc pos) turns else [])
      | BcLagged \<Rightarrow> []
      | BcEmpty \<Rightarrow> forward serialize pos turns)"

text \<open>What the node's canonical stream gives, and what is broadcast for it.\<close>

datatype 'c canon_notification = CanonCommit 'c | CanonReorg 'c 'c

datatype 'c exex_notification = ExCommitted 'c | ExReorged 'c 'c | ExReverted 'c

fun of_canon :: "'c canon_notification \<Rightarrow> 'c exex_notification" where
  "of_canon (CanonCommit new) = ExCommitted new"
| "of_canon (CanonReorg old new) = ExReorged old new"

datatype ('c, 'h) exex_event =
    FromCanon "'c canon_notification"
  | CanonEnded
  | FromExEx "('h \<times> bool) option"
  | ExExEnded

text \<open>
  The \<open>select!\<close> loop of \<open>remote_exex\<close>: the broadcast log and the heights reported; a failed
  report ends it, as does the end of the extension's own stream.
\<close>

fun remote_exex ::
  "('c, 'h) exex_event list \<Rightarrow> 'c exex_notification list \<times> 'h list
    \<Rightarrow> 'c exex_notification list \<times> 'h list" where
  "remote_exex [] s = s"
| "remote_exex (FromCanon c # es) (log, hs) = remote_exex es (log @ [of_canon c], hs)"
| "remote_exex (CanonEnded # es) s = remote_exex es s"
| "remote_exex (FromExEx (Some (h, ok)) # es) (log, hs) =
     (if ok then remote_exex es (log, hs @ [h]) else (log, hs))"
| "remote_exex (FromExEx None # es) s = remote_exex es s"
| "remote_exex (ExExEnded # es) s = s"

section \<open>Facts\<close>

definition backoff_ok :: "notification_stream \<Rightarrow> bool" where
  "backoff_ok st \<longleftrightarrow> 1 \<le> ns_backoff st \<and> ns_backoff st \<le> MAX_BACKOFF
    \<and> (\<forall>t \<in> set (ns_slept st). 1 \<le> t \<and> t \<le> MAX_BACKOFF)"

lemma backoff_consts: "INITIAL_BACKOFF = 1" "MAX_BACKOFF = 30"
  by (simp_all add: INITIAL_BACKOFF_def MAX_BACKOFF_def)

lemma connect_ok: "backoff_ok st \<Longrightarrow> backoff_ok (fst (connect as st))"
proof (induction as st rule: connect.induct)
  case (3 as st)
  have "backoff_ok (st\<lparr>ns_slept := ns_slept st @ [ns_backoff st],
      ns_backoff := min (ns_backoff st * 2) MAX_BACKOFF\<rparr>)"
    using 3(2) by (simp add: backoff_ok_def backoff_consts ball_Un)
  from 3(1) [OF this] show ?case by simp
qed (simp_all add: backoff_ok_def backoff_consts)

lemma doubling: "min (2 ^ i * min (b * 2) m) m = min (2 ^ Suc i * b) (m :: nat)"
proof (cases "b * 2 \<le> m")
  case True
  then show ?thesis by (simp add: mult.commute mult.left_commute)
next
  case False
  have "1 * m \<le> 2 ^ i * m" and "1 * (b * 2) \<le> 2 ^ i * (b * 2)"
    by (rule mult_le_mono1, simp)+
  moreover have "2 ^ Suc i * b = 2 ^ i * (b * 2)" by simp
  ultimately show ?thesis using False by (simp only: min_absorb2 nat_le_linear)
qed

lemma connect_failures:
  "connect (replicate k False @ True # as) st =
    (st\<lparr>ns_connected := True, ns_backoff := INITIAL_BACKOFF,
        ns_slept := ns_slept st @ map (\<lambda>i. min (2 ^ i * ns_backoff st) MAX_BACKOFF) [0..<k]\<rparr>, as)"
  if "ns_backoff st \<le> MAX_BACKOFF"
  using that
proof (induction k arbitrary: st)
  case 0
  then show ?case by simp
next
  case (Suc k)
  let ?st = "st\<lparr>ns_slept := ns_slept st @ [ns_backoff st], ns_backoff := min (ns_backoff st * 2) MAX_BACKOFF\<rparr>"
  have "map f [0..<Suc k] = f 0 # map (\<lambda>i. f (Suc i)) [0..<k]" for f :: "nat \<Rightarrow> nat"
    by (simp add: upt_rec [of 0 "Suc k"] map_Suc_upt [symmetric] comp_def del: upt_Suc)
  then show ?case
    using Suc.IH [of ?st] Suc.prems by (simp add: doubling del: upt_Suc power_Suc)
qed

lemma connected_True: "connect as st = (st', as') \<Longrightarrow> True \<in> set as \<Longrightarrow> ns_connected st'"
  by (induction as st rule: connect.induct) auto

lemma connect_uses_one:
  "True \<in> set as \<Longrightarrow> \<exists>st' as'. connect as st = (st', as') \<and> ns_connected st'
    \<and> Suc (count_list as' True) = count_list as True"
  by (induction as st rule: connect.induct) auto

text \<open>The notifications among the messages, in order.\<close>

definition decoded :: "(bytes \<Rightarrow> 'n option) \<Rightarrow> message_result list \<Rightarrow> 'n list" where
  "decoded d ms = List.map_filter (\<lambda>m. case m of MsgData x \<Rightarrow> d x | _ \<Rightarrow> None) ms"

fun breaks :: "message_result list \<Rightarrow> nat" where
  "breaks [] = 0"
| "breaks (MsgData _ # ms) = breaks ms"
| "breaks (_ # ms) = Suc (breaks ms)"

text \<open>Every break is followed, sooner or later, by an attempt that succeeds.\<close>

definition enough :: "message_result list \<Rightarrow> bool list \<Rightarrow> notification_stream \<Rightarrow> bool" where
  "enough ms as st \<longleftrightarrow> breaks ms + (if ns_connected st then 0 else 1) \<le> count_list as True"

lemma decoded_simps [simp]:
  "decoded d [] = []"
  "decoded d (MsgData x # ms) = (case d x of None \<Rightarrow> decoded d ms | Some n \<Rightarrow> n # decoded d ms)"
  "decoded d (MsgClosed # ms) = decoded d ms" "decoded d (MsgError # ms) = decoded d ms"
  by (simp_all add: decoded_def map_filter_simps split: option.split)

lemma enough_connect:
  assumes "enough ms as st" and "(if ns_connected st then (st, as) else connect as st) = (st', as')"
  shows "ns_connected st' \<and> breaks ms \<le> count_list as' True"
proof (cases "ns_connected st")
  case True
  with assms show ?thesis by (auto simp: enough_def)
next
  case False
  with assms(1) have "count_list as True \<noteq> 0" by (auto simp: enough_def)
  then have "True \<in> set as" by (simp add: count_list_0_iff)
  from connect_uses_one [OF this, of st] False assms show ?thesis by (auto simp: enough_def)
qed

lemma next_decodes:
  "enough ms as st \<Longrightarrow> next_notification d ms as st = (r, st', as', ms') \<Longrightarrow>
    (case r of
       None \<Rightarrow> decoded d ms = []
     | Some n \<Rightarrow> decoded d ms = n # decoded d ms' \<and> enough ms' as' st')"
proof (induction d ms as st rule: next_notification.induct)
  case (1 d as st)
  then show ?case by (auto simp: Let_def split: prod.splits)
next
  case (2 d m ms as st)
  obtain st1 as1 where c: "(if ns_connected st then (st, as) else connect as st) = (st1, as1)"
    by fastforce
  from enough_connect [OF 2(4) c] have e: "ns_connected st1" "breaks (m # ms) \<le> count_list as1 True"
    by simp_all
  show ?case
  proof (cases m)
    case (MsgData x)
    show ?thesis
    proof (cases "d x")
      case None
      with 2(1) [OF c [symmetric] refl _ MsgData None] 2(5) MsgData e c show ?thesis
        by (cases r) (auto simp: Let_def enough_def)
    next
      case (Some n)
      with 2(5) MsgData e c have "r = Some n" "st' = st1\<lparr>ns_backoff := INITIAL_BACKOFF\<rparr>"
        "as' = as1" "ms' = ms"
        by (simp_all add: Let_def)
      with MsgData Some e show ?thesis by (simp add: enough_def)
    qed
  next
    case MsgClosed
    with 2(2) [OF c [symmetric] refl _ MsgClosed] 2(5) e c show ?thesis
      by (cases r) (auto simp: Let_def enough_def)
  next
    case MsgError
    with 2(3) [OF c [symmetric] refl _ MsgError] 2(5) e c show ?thesis
      by (cases r) (auto simp: Let_def enough_def)
  qed
qed

lemma subscribe_decoded: "enough ms as st \<Longrightarrow> subscribe d ms as st = decoded d ms"
proof (induction d ms as st rule: subscribe.induct)
  case (1 d ms as st)
  obtain r st' as' ms' where n: "next_notification d ms as st = (r, st', as', ms')"
    by (metis prod_cases4)
  with next_decodes [OF 1(2) n] 1(1) show ?case
    by (cases r) (simp_all add: subscribe.simps [of d ms as st])
qed

section \<open>Properties\<close>

text \<open>
  The back-off: after \<open>k\<close> failed attempts in a row a fresh stream has slept 1, 2, 4, 8,
  16, 30, 30, ... seconds, connects at the first success and starts from 1 again.
\<close>

theorem backoff_schedule:
  "connect (replicate k False @ True # as) notification_stream_new =
    (\<lparr>ns_connected = True, ns_backoff = 1, ns_slept = map (\<lambda>i. min (2 ^ i) 30) [0..<k]\<rparr>, as)"
  using connect_failures [of notification_stream_new k as]
  by (simp add: notification_stream_new_def backoff_consts)

text \<open>
  C35: whatever happens, as long as every break of the stream is eventually followed by a
  successful attempt, the subscriber gets exactly the notifications that decode, in the order
  they were received, each once; undecodable messages are dropped without reconnecting.
\<close>

theorem subscribe_delivers_decodable:
  assumes "enough ms as st"
  shows "subscribe d ms as st = decoded d ms"
  using assms by (rule subscribe_decoded)

theorem subscribe_delivers_decodable_witness:
  "subscribe (\<lambda>bs. if bs = [] then None else Some (hd bs))
     [MsgData [1], MsgData [], MsgClosed, MsgData [2], MsgError, MsgData [3]]
     [False, True, True, False, True] notification_stream_new = [1, 2, 3]"
  by (subst subscribe_delivers_decodable)
    (simp_all add: enough_def notification_stream_new_def)

text \<open>
  A server that accepts the connection and closes it at once is retried without any
  delay: the back-off is reset by connecting, so no number of such rounds ever sleeps.
\<close>

theorem flapping_server_never_sleeps:
  "next_notification d (replicate k MsgClosed) (replicate k True) notification_stream_new =
    (None, notification_stream_new, [], [])"
  by (induction k) (simp_all add: notification_stream_new_def Let_def backoff_consts)

text \<open>
  Within one subscription the server forwards a contiguous piece of the broadcast log,
  in order, starting where the client subscribed: when the client is too slow the stream ends
  and never skips.
\<close>

theorem forward_contiguous:
  assumes "\<forall>(log, _) \<in> set turns. prefix log L"
  shows "\<exists>k. forward ser pos turns = map ser (take k (drop pos L))"
  using assms
proof (induction ser pos turns rule: forward.induct)
  case (1 ser pos)
  then show ?case by (intro exI [of _ 0]) simp
next
  case (2 ser pos log client turns)
  show ?case
  proof (cases "bc_recv log pos")
    case (BcOk n)
    then have pos: "pos < length log" and n: "n = log ! pos"
      by (auto simp: bc_recv_def split: if_splits)
    from 2(3) have "prefix log L" by simp
    with pos n have L: "pos < length L" "n = L ! pos"
      by (auto simp: prefix_def nth_append)
    show ?thesis
    proof (cases client)
      case True
      with 2(1) [OF BcOk True] 2(3) obtain k where
        "forward ser (Suc pos) turns = map ser (take k (drop (Suc pos) L))" by auto
      with True BcOk L show ?thesis
        by (intro exI [of _ "Suc k"]) (simp add: Cons_nth_drop_Suc [symmetric])
    next
      case False
      with BcOk show ?thesis by (intro exI [of _ 0]) simp
    qed
  next
    case BcLagged
    then show ?thesis by (intro exI [of _ 0]) simp
  next
    case BcEmpty
    with 2(2) [OF BcEmpty] 2(3) show ?thesis by auto
  qed
qed

theorem forward_contiguous_witness:
  "\<exists>k. forward (\<lambda>n. [n]) 1 [([5, 6], True), ([5, 6, 7], True)] = map (\<lambda>n. [n]) (take k (drop 1 [5, 6, 7]))"
  by (rule forward_contiguous) (auto simp: prefix_def)

text \<open>
  The server broadcasts one notification per canonical update, in order, and never a
  revert; the execution extension's own notifications only report heights.
\<close>

lemma remote_exex_broadcasts_canon:
  "\<exists>canon. fst (remote_exex es (log, hs)) = log @ map of_canon canon
    \<and> set canon \<subseteq> {c. FromCanon c \<in> set es}"
proof (induction es "(log, hs)" arbitrary: log hs rule: remote_exex.induct)
  case (2 c es log hs)
  then obtain cs where "fst (remote_exex es (log @ [of_canon c], hs)) = (log @ [of_canon c]) @ map of_canon cs"
    "set cs \<subseteq> {c. FromCanon c \<in> set es}" by blast
  then show ?case by (intro exI [of _ "c # cs"]) auto
qed (auto intro: exI [of _ "[]"])

end
