(* ===== verification/Pipeline.thy ===== *)
theory Pipeline
  imports Rex_Cons
begin

text \<open>
  The server (\<open>reth-rex/src/main.rs\<close>) and the client (\<open>rex-cons/src/lib.rs\<close>) together: what the
  subscriber hands on, over any number of sessions that break and reconnect, against what the node's
  canonical stream gave.

  A session is one subscription: the log it starts behind, the turns of its forwarding task up to the
  break, how many of its messages got through, and how it ended.
\<close>

section \<open>Sessions\<close>

text \<open>\<open>ExExService::subscribe\<close>: a new receiver starts at the end of the log.\<close>

definition exex_subscribe :: "('n \<Rightarrow> bytes) \<Rightarrow> 'n list \<Rightarrow> ('n list \<times> bool) list \<Rightarrow> bytes list" where
  "exex_subscribe serialize log turns = forward serialize (length log) turns"

record 'n session =
  se_log :: "'n list"
  se_turns :: "('n list \<times> bool) list"
  se_received :: nat
  se_failed :: bool

definition session_messages :: "('n \<Rightarrow> bytes) \<Rightarrow> 'n session \<Rightarrow> message_result list" where
  "session_messages serialize s =
    map MsgData (take (se_received s) (exex_subscribe serialize (se_log s) (se_turns s)))
    @ [if se_failed s then MsgError else MsgClosed]"

text \<open>The log a session has seen when it breaks.\<close>

definition seen :: "'n session \<Rightarrow> nat" where
  "seen s = fold max (map (\<lambda>(log, _). length log) (se_turns s)) (length (se_log s))"

text \<open>
  \<open>L\<close> is the log in the end; a session subscribes no earlier than the one before it has broken.
\<close>

fun in_order :: "'n list \<Rightarrow> nat \<Rightarrow> 'n session list \<Rightarrow> bool" where
  "in_order L m [] = True"
| "in_order L m (s # ss) =
    (m \<le> length (se_log s) \<and> list_all (\<lambda>(log, _). prefix log L) (se_turns s) \<and> in_order L (seen s) ss)"

section \<open>Facts\<close>

lemma fold_max_ge: "(b :: nat) \<le> fold max xs b" "x \<in> set xs \<Longrightarrow> x \<le> fold max xs b"
proof (induction xs arbitrary: b)
  case (Cons y xs)
  { case 1 show ?case using Cons.IH(1) [of "max y b"] by simp }
  { case 2 then show ?case using Cons.IH(1) [of "max y b"] Cons.IH(2) [of "max y b"] by auto }
qed simp_all

lemma seen_ge: "length (se_log s) \<le> seen s" "(log, c) \<in> set (se_turns s) \<Longrightarrow> length log \<le> seen s"
  using fold_max_ge by (force simp: seen_def)+

text \<open>A forwarding task only sends what it has seen.\<close>

lemma forward_piece:
  assumes "list_all (\<lambda>(log, _). prefix log L \<and> length log \<le> b) turns"
  shows "\<exists>k. forward serialize pos turns = map serialize (take k (drop pos L)) \<and> (k = 0 \<or> pos + k \<le> b)"
  using assms
proof (induction serialize pos turns rule: forward.induct)
  case (1 serialize pos)
  then show ?case by (intro exI [of _ 0]) simp
next
  case (2 serialize pos log client turns)
  from 2(3) have log: "prefix log L" "length log \<le> b"
    and rest: "list_all (\<lambda>(log, _). prefix log L \<and> length log \<le> b) turns" by simp_all
  show ?case
  proof (cases "\<exists>n. bc_recv log pos = BcOk n \<and> client")
    case True
    then obtain n where ok: "bc_recv log pos = BcOk n" and client by blast
    then have pos: "pos < length log" and n: "n = log ! pos" by (auto simp: bc_recv_def split: if_splits)
    with log have L: "pos < length L" "n = L ! pos" by (auto simp: prefix_def nth_append)
    from 2(1) [OF ok \<open>client\<close> rest] obtain k where
      "forward serialize (Suc pos) turns = map serialize (take k (drop (Suc pos) L))" "k = 0 \<or> Suc pos + k \<le> b"
      by blast
    with ok \<open>client\<close> L pos log(2) show ?thesis
      by (intro exI [of _ "Suc k"]) (auto simp: Cons_nth_drop_Suc [symmetric])
  next
    case False
    then show ?thesis
    proof (cases "bc_recv log pos")
      case BcEmpty
      with 2(2) [OF BcEmpty rest] show ?thesis by simp
    qed (intro exI [of _ 0]; simp)+
  qed
qed

lemma next_head:
  "next_notification d ms as st = (Some n, st', as', ms') \<Longrightarrow> decoded d ms = n # decoded d ms'"
  by (induction d ms as st rule: next_notification.induct)
    (auto simp: Let_def split: prod.splits if_splits message_result.splits option.splits)

text \<open>Whatever the outcomes, the subscriber gets a prefix of what decodes.\<close>

lemma subscribe_prefix: "prefix (subscribe d ms as st) (decoded d ms)"
proof (induction d ms as st rule: subscribe.induct)
  case (1 d ms as st)
  obtain r st' as' ms' where n: "next_notification d ms as st = (r, st', as', ms')" by (metis prod_cases4)
  show ?case
  proof (cases r)
    case None
    with n show ?thesis by (simp add: subscribe.simps [of d ms as st])
  next
    case (Some x)
    with 1 [OF n [symmetric] Some refl refl] next_head [OF n [unfolded Some]] n show ?thesis
      by (simp add: subscribe.simps [of d ms as st])
  qed
qed

lemma decoded_append: "decoded d (xs @ ys) = decoded d xs @ decoded d ys"
  by (induction xs rule: breaks.induct) (simp_all split: option.split)

lemma decoded_data: "\<forall>n. d (ser n) = Some n \<Longrightarrow> decoded d (map MsgData (map ser ns)) = ns"
  by (induction ns) simp_all

lemma subseq_drop: "m \<le> n \<Longrightarrow> subseq (drop n xs) (drop m xs)"
  by (metis drop_drop le_add_diff_inverse2 suffix_drop suffix_imp_subseq)

lemma sessions_subseq:
  assumes "\<forall>n. d (ser n) = Some n" and "in_order L m ss"
  shows "subseq (decoded d (concat (map (session_messages ser) ss))) (drop m L)"
  using assms(2)
proof (induction ss arbitrary: m)
  case Nil
  then show ?case by simp
next
  case (Cons s ss)
  let ?pos = "length (se_log s)" and ?got = "take (se_received s) (exex_subscribe ser (se_log s) (se_turns s))"
  from Cons.prems have m: "m \<le> ?pos" and rest: "in_order L (seen s) ss"
    and turns: "list_all (\<lambda>(log, _). prefix log L \<and> length log \<le> seen s) (se_turns s)"
    by (auto simp: list_all_iff dest: seen_ge(2))
  from forward_piece [OF turns, of ser ?pos] obtain k where
    k: "exex_subscribe ser (se_log s) (se_turns s) = map ser (take k (drop ?pos L))" "k = 0 \<or> ?pos + k \<le> seen s"
    by (auto simp: exex_subscribe_def)
  let ?j = "min (se_received s) k"
  have got: "?got = map ser (take ?j (drop ?pos L))" by (simp add: k(1) take_map)
  have "?pos + ?j \<le> seen s" using k(2) seen_ge(1) [of s] by auto
  then have "subseq (drop (seen s) L) (drop (?pos + ?j) L)" by (rule subseq_drop)
  with Cons.IH [OF rest] have "subseq (decoded d (concat (map (session_messages ser) ss))) (drop (?pos + ?j) L)"
    by (rule subseq_order.order_trans)
  then have "subseq (take ?j (drop ?pos L) @ decoded d (concat (map (session_messages ser) ss)))
      (take ?j (drop ?pos L) @ drop (?pos + ?j) L)"
    by (rule list_emb_append_mono [OF subseq_order.order_refl])
  also have "take ?j (drop ?pos L) @ drop (?pos + ?j) L = drop ?pos L"
    by (metis append_take_drop_id drop_drop add.commute)
  finally have "subseq (take ?j (drop ?pos L) @ decoded d (concat (map (session_messages ser) ss))) (drop m L)"
    using subseq_drop [OF m] by (rule subseq_order.order_trans)
  moreover have "decoded d (session_messages ser s) = take ?j (drop ?pos L)"
    unfolding session_messages_def decoded_append got decoded_data [OF assms(1)] by simp
  ultimately show ?case by (simp add: decoded_append)
qed

section \<open>Property\<close>

text \<open>
  C36: end to end, whatever breaks and however long reconnecting takes, the simulator is handed
  a subsequence of what the server broadcast, so nothing twice, nothing out of order and nothing made
  up: every notification stands for one update of the node's canonical stream and is never a revert.
\<close>

theorem delivered_in_canonical_order:
  assumes "\<forall>n. deserialize (serialize n) = Some n"
    and "in_order (fst (remote_exex es ([], hs))) 0 sessions"
  shows "let out = subscribe deserialize (concat (map (session_messages serialize) sessions)) attempts
                     notification_stream_new
    in subseq out (fst (remote_exex es ([], hs)))
     \<and> (\<forall>n \<in> set out. (\<exists>c. FromCanon c \<in> set es \<and> n = of_canon c) \<and> (\<forall>old. n \<noteq> ExReverted old))"
proof -
  let ?L = "fst (remote_exex es ([], hs))"
  let ?ms = "concat (map (session_messages serialize) sessions)"
  let ?out = "subscribe deserialize ?ms attempts notification_stream_new"
  have "subseq ?out (decoded deserialize ?ms)" by (rule prefix_imp_subseq [OF subscribe_prefix])
  also have "subseq (decoded deserialize ?ms) ?L" using sessions_subseq [OF assms] by simp
  finally have sub: "subseq ?out ?L" .
  have canon: "\<exists>c. FromCanon c \<in> set es \<and> n = of_canon c" if "n \<in> set ?out" for n
  proof -
    have "n \<in> set ?L" using list_emb_set [OF sub that] by auto
    with remote_exex_broadcasts_canon [of es "[]" hs] show ?thesis by fastforce
  qed
  moreover have "n \<noteq> ExReverted old" if n: "n \<in> set ?out" for n old
  proof -
    from canon [OF n] obtain c where "n = of_canon c" by blast
    then show ?thesis by (cases c) simp_all
  qed
  ultimately show ?thesis using sub unfolding Let_def by blast
qed

text \<open>
  Three commits are broadcast; the first session gets one, misses the second, and the next session
  starts after it.
\<close>

fun demo_encode :: "nat exex_notification \<Rightarrow> bytes" where
  "demo_encode (ExCommitted n) = 0 # replicate n 0"
| "demo_encode (ExReorged old new) = 1 # replicate old 0 @ 1 # replicate new 0"
| "demo_encode (ExReverted old) = 2 # replicate old 0"

definition demo_decode :: "bytes \<Rightarrow> nat exex_notification option" where
  "demo_decode bs =
    (case bs of [] \<Rightarrow> None
     | t # rest \<Rightarrow>
         (if t = 0 then Some (ExCommitted (length rest))
          else if t = 2 then Some (ExReverted (length rest))
          else (let old = length (takeWhile (\<lambda>b. b = 0) rest) in Some (ExReorged old (length rest - old - 1)))))"

lemma takeWhile_zeros: "takeWhile (\<lambda>b. b = 0) (replicate n 0 @ 1 # xs) = (replicate n 0 :: bytes)"
  by (induction n) simp_all

lemma demo_roundtrip: "demo_decode (demo_encode n) = Some n"
  by (cases n) (simp_all add: demo_decode_def takeWhile_zeros Let_def)

definition demo_sessions :: "nat exex_notification session list" where
  "demo_sessions =
    [\<lparr>se_log = [], se_turns = [([ExCommitted 7], True)], se_received = 1, se_failed = True\<rparr>,
     \<lparr>se_log = [ExCommitted 7, ExCommitted 8],
       se_turns = [([ExCommitted 7, ExCommitted 8, ExCommitted 9], True)], se_received = 5, se_failed = False\<rparr>]"

theorem delivered_in_canonical_order_witness:
  "let out = subscribe demo_decode (concat (map (session_messages demo_encode) demo_sessions))
      [False, True, True, True] notification_stream_new
   in out = [ExCommitted 7, ExCommitted 9] \<and> subseq out [ExCommitted 7, ExCommitted 8, ExCommitted 9]"
proof -
  let ?es = "[FromCanon (CanonCommit 7), FromExEx (Some (7 :: nat, True)), FromCanon (CanonCommit 8), FromCanon (CanonCommit 9)]"
  let ?out = "subscribe demo_decode (concat (map (session_messages demo_encode) demo_sessions))
    [False, True, True, True] notification_stream_new"
  have L: "fst (remote_exex ?es ([], [])) = [ExCommitted 7, ExCommitted 8, ExCommitted 9]" by simp
  have "in_order (fst (remote_exex ?es ([], []))) 0 demo_sessions"
    by (simp add: demo_sessions_def seen_def)
  from delivered_in_canonical_order [OF allI [OF demo_roundtrip] this, of "[False, True, True, True]"]
  have "subseq ?out [ExCommitted 7, ExCommitted 8, ExCommitted 9]" unfolding L Let_def by blast
  moreover have "?out = [ExCommitted 7, ExCommitted 9]"
    by (simp add: subscribe_decoded enough_def demo_sessions_def session_messages_def exex_subscribe_def
        bc_recv_def BROADCAST_DEPTH_def notification_stream_new_def demo_decode_def)
  ultimately show ?thesis by (simp add: Let_def)
qed

end
