(* ===== verification/Provider_Ext.thy ===== *)
theory Provider_Ext
  imports Prelude
begin

text \<open>
  \<open>provider-ext/src/lib.rs\<close>: contract calls and the two caches in front of them.  The provider,
  the ABI codec and the \<open>fetch\<close> closures are arguments.  Each cache operation returns the keys
  it fetched as well, in order.  This theory is one caller on its own; \<open>Provider_Pool\<close> runs many.
\<close>

datatype ('t, 'd) call_error = Transport 't | Decode 'd

definition call_raw ::
  "(address \<Rightarrow> bytes \<Rightarrow> 't + bytes) \<Rightarrow> address \<Rightarrow> bytes \<Rightarrow> ('t, 'd) call_error + bytes" where
  "call_raw provider_call to_addr input =
    (case provider_call to_addr input of Inl e \<Rightarrow> Inl (Transport e) | Inr result \<Rightarrow> Inr result)"

definition call_sol ::
  "(address \<Rightarrow> bytes \<Rightarrow> 't + bytes) \<Rightarrow> ('call \<Rightarrow> bytes) \<Rightarrow> (bytes \<Rightarrow> 'd + 'ret) \<Rightarrow> address \<Rightarrow> 'call
    \<Rightarrow> ('t, 'd) call_error + 'ret" where
  "call_sol provider_call abi_encode abi_decode_returns to_addr call =
    (case provider_call to_addr (abi_encode call) of
       Inl e \<Rightarrow> Inl (Transport e)
     | Inr result \<Rightarrow>
         (case abi_decode_returns result of Inl e \<Rightarrow> Inl (Decode e) | Inr decoded \<Rightarrow> Inr decoded))"

definition cached_fetch ::
  "('k \<Rightarrow> 'e + 'v) \<Rightarrow> 'k \<Rightarrow> ('k, 'v) fmap \<Rightarrow> ('k, 'v) fmap \<times> 'k list \<times> ('e + 'v)" where
  "cached_fetch fetch key cache =
    (case fmlookup cache key of
       Some v \<Rightarrow> (cache, [], Inr v)
     | None \<Rightarrow>
         (case fetch key of
            Inl e \<Rightarrow> (cache, [key], Inl e)
          | Inr v \<Rightarrow> (fmupd key v cache, [key], Inr v)))"

fun discover_loop ::
  "('k \<Rightarrow> 'e + 'v) \<Rightarrow> 'k list \<Rightarrow> ('k, 'v) fmap \<Rightarrow> 'k list \<Rightarrow> 'v list
    \<Rightarrow> ('k, 'v) fmap \<times> 'k list \<times> ('e + 'v list)" where
  "discover_loop fetch [] cache fetched out = (cache, fetched, Inr out)"
| "discover_loop fetch (key # keys) cache fetched out =
     (if fmlookup cache key \<noteq> None then discover_loop fetch keys cache fetched out
      else case fetch key of
        Inl e \<Rightarrow> (cache, fetched @ [key], Inl e)
      | Inr v \<Rightarrow> discover_loop fetch keys (fmupd key v cache) (fetched @ [key]) (out @ [v]))"

definition cached_discover ::
  "('k \<Rightarrow> 'e + 'v) \<Rightarrow> 'k list \<Rightarrow> ('k, 'v) fmap \<Rightarrow> ('k, 'v) fmap \<times> 'k list \<times> ('e + 'v list)" where
  "cached_discover fetch keys cache = discover_loop fetch keys cache [] []"

section \<open>Facts\<close>

lemma cached_fetch_twice:
  "cached_fetch fetch key cache = (cache', ks, Inr v) \<Longrightarrow>
    cached_fetch fetch' key cache' = (cache', [], Inr v)"
  by (auto simp: cached_fetch_def split: option.splits sum.splits)

text \<open>The keys to look up: those not cached, each at its first occurrence.\<close>

fun fresh_keys :: "'k set \<Rightarrow> 'k list \<Rightarrow> 'k list" where
  "fresh_keys seen [] = []"
| "fresh_keys seen (k # ks) = (if k \<in> seen then fresh_keys seen ks else k # fresh_keys (insert k seen) ks)"

lemma fresh_keys_distinct: "distinct (fresh_keys seen ks) \<and> set (fresh_keys seen ks) = set ks - seen"
  by (induction seen ks rule: fresh_keys.induct) auto

lemma discover_ok:
  "\<forall>k \<in> set keys. fmlookup cache k = None \<longrightarrow> fetch k = Inr (f k) \<Longrightarrow>
    discover_loop fetch keys cache fetched out =
      (fold (\<lambda>k m. fmupd k (f k) m) (fresh_keys (fset (fmdom cache)) keys) cache,
       fetched @ fresh_keys (fset (fmdom cache)) keys,
       Inr (out @ map f (fresh_keys (fset (fmdom cache)) keys)))"
proof (induction fetch keys cache fetched out rule: discover_loop.induct)
  case (1 fetch cache fetched out)
  then show ?case by simp
next
  case (2 fetch key keys cache fetched out)
  show ?case
  proof (cases "fmlookup cache key")
    case (Some v)
    then have "key \<in> fset (fmdom cache)" by (rule fmdomI)
    with 2(1) 2(3) Some show ?thesis by simp
  next
    case None
    then have "key \<notin> fset (fmdom cache)" by (simp add: fmdom_notI)
    with 2(2) [of "f key"] 2(3) None show ?thesis by simp
  qed
qed

lemma discover_covers:
  "discover_loop fetch keys cache fetched out = (cache', fetched', Inr out') \<Longrightarrow>
    (\<forall>k \<in> set keys. fmlookup cache' k \<noteq> None)
    \<and> (\<forall>k v. fmlookup cache k = Some v \<longrightarrow> fmlookup cache' k = Some v)"
proof (induction fetch keys cache fetched out rule: discover_loop.induct)
  case (1 fetch cache fetched out)
  then show ?case by simp
next
  case (2 fetch key keys cache fetched out)
  show ?case
  proof (cases "fmlookup cache key")
    case (Some v)
    with 2(1) 2(3) show ?thesis by (auto simp del: fmlookup_dom_iff)
  next
    case None
    with 2(3) obtain v where v: "fetch key = Inr v" by (cases "fetch key") auto
    have "(\<forall>k \<in> set keys. fmlookup cache' k \<noteq> None)
        \<and> (\<forall>k w. fmlookup (fmupd key v cache) k = Some w \<longrightarrow> fmlookup cache' k = Some w)"
      using 2(2) [OF _ v] 2(3) None v by simp
    with None show ?thesis by (metis fmupd_lookup option.distinct(1) set_ConsD)
  qed
qed

lemma discover_nothing:
  "\<forall>k \<in> set keys. fmlookup cache k \<noteq> None \<Longrightarrow>
    discover_loop fetch keys cache fetched out = (cache, fetched, Inr out)"
  by (induction fetch keys cache fetched out rule: discover_loop.induct) auto

section \<open>Properties\<close>

text \<open>
  Discovery fetches each key that is not cached exactly once, in the order of first
  occurrence, returns exactly the values fetched, and caches them; if every fetch it needs
  succeeds, it succeeds.
\<close>

theorem discover_fetches_each_once:
  assumes "\<forall>k \<in> set keys. fmlookup cache k = None \<longrightarrow> fetch k = Inr (f k)"
  shows "\<exists>new. distinct new \<and> set new = set keys - fset (fmdom cache)
    \<and> cached_discover fetch keys cache =
        (fold (\<lambda>k m. fmupd k (f k) m) new cache, new, Inr (map f new))"
  using discover_ok [OF assms, of "[]" "[]"] fresh_keys_distinct [of "fset (fmdom cache)" keys]
  by (auto simp: cached_discover_def)

theorem discover_fetches_each_once_witness:
  "\<exists>new. distinct new \<and> set new = {1, 3 :: nat}
     \<and> snd (cached_discover (\<lambda>k. Inr (k * 10) :: unit + nat) [3, 2, 1, 3] (fmap_of_list [(2, 20)]))
       = (new, Inr (map (\<lambda>k. k * 10) new))"
proof -
  have "\<forall>k \<in> set [3, 2, 1, 3 :: nat]. fmlookup (fmap_of_list [(2, 20 :: nat)]) k = None \<longrightarrow>
      (Inr (k * 10) :: unit + nat) = Inr (k * 10)" by simp
  from discover_fetches_each_once [OF this] show ?thesis by auto
qed

text \<open>
  Discovery is idempotent: after a successful one, a second over the same keys fetches
  nothing, whatever the fetcher would answer now, and returns nothing new.
\<close>

lemma discover_idempotent:
  assumes "cached_discover fetch keys cache = (cache', fetched, Inr out)"
  shows "cached_discover fetch' keys cache' = (cache', [], Inr [])"
  using discover_covers [OF assms [unfolded cached_discover_def]]
  by (simp add: cached_discover_def discover_nothing)

end
