(* ===== verification/Provider_Pool.thy ===== *)
theory Provider_Pool
  imports Provider_Ext
begin

text \<open>
  \<open>provider-ext/src/lib.rs\<close>, several callers of \<open>cached_fetch\<close> and \<open>cached_discover\<close> on one
  cache.  The lock is taken for one read or one write at a time and never across a fetch, so
  each caller is a program whose atomic steps are a read, the fetch's answer and a write, and
  the callers' steps interleave freely.  What a fetch of a key may answer is the relation
  \<open>answers\<close>, a parameter.
\<close>

section \<open>Callers\<close>

text \<open>
  \<open>Read\<close>: before the read lock.  \<open>Await\<close>: the fetch is under way.  \<open>Write\<close>: before the write
  lock.  \<open>Done\<close>: returned.  A discovery carries the keys still to visit and its output.
\<close>

datatype ('k, 'v, 'e) caller =
    FetchRead 'k
  | FetchAwait 'k
  | FetchWrite 'k 'v
  | FetchDone 'k "'e + 'v"
  | DiscRead "'k list" "'v list"
  | DiscAwait 'k "'k list" "'v list"
  | DiscWrite 'k 'v "'k list" "'v list"
  | DiscDone "'e + 'v list"

inductive caller_step ::
  "('k \<Rightarrow> 'e + 'v \<Rightarrow> bool) \<Rightarrow> ('k, 'v) fmap \<Rightarrow> ('k, 'v, 'e) caller
    \<Rightarrow> ('k, 'v) fmap \<Rightarrow> ('k, 'v, 'e) caller \<Rightarrow> bool"
  for answers where
  fetch_hit: "fmlookup c k = Some v \<Longrightarrow> caller_step answers c (FetchRead k) c (FetchDone k (Inr v))"
| fetch_miss: "fmlookup c k = None \<Longrightarrow> caller_step answers c (FetchRead k) c (FetchAwait k)"
| fetch_err: "answers k (Inl e) \<Longrightarrow> caller_step answers c (FetchAwait k) c (FetchDone k (Inl e))"
| fetch_ok: "answers k (Inr v) \<Longrightarrow> caller_step answers c (FetchAwait k) c (FetchWrite k v)"
| fetch_write: "caller_step answers c (FetchWrite k v) (fmupd k v c) (FetchDone k (Inr v))"
| disc_end: "caller_step answers c (DiscRead [] out) c (DiscDone (Inr out))"
| disc_skip: "fmlookup c k \<noteq> None \<Longrightarrow>
    caller_step answers c (DiscRead (k # ks) out) c (DiscRead ks out)"
| disc_miss: "fmlookup c k = None \<Longrightarrow>
    caller_step answers c (DiscRead (k # ks) out) c (DiscAwait k ks out)"
| disc_err: "answers k (Inl e) \<Longrightarrow> caller_step answers c (DiscAwait k ks out) c (DiscDone (Inl e))"
| disc_ok: "answers k (Inr v) \<Longrightarrow>
    caller_step answers c (DiscAwait k ks out) c (DiscWrite k v ks out)"
| disc_write: "caller_step answers c (DiscWrite k v ks out) (fmupd k v c) (DiscRead ks (out @ [v]))"

inductive_cases caller_stepE [elim!]:
  "caller_step answers c (FetchRead k) c' x"
  "caller_step answers c (FetchAwait k) c' x"
  "caller_step answers c (FetchWrite k v) c' x"
  "caller_step answers c (FetchDone k r) c' x"
  "caller_step answers c (DiscRead ks out) c' x"
  "caller_step answers c (DiscAwait k ks out) c' x"
  "caller_step answers c (DiscWrite k v ks out) c' x"
  "caller_step answers c (DiscDone r) c' x"

type_synonym ('k, 'v, 'e) pool = "('k, 'v) fmap \<times> ('k, 'v, 'e) caller list"

inductive pool_step ::
  "('k \<Rightarrow> 'e + 'v \<Rightarrow> bool) \<Rightarrow> ('k, 'v, 'e) pool \<Rightarrow> ('k, 'v, 'e) pool \<Rightarrow> bool" for answers where
  turn: "i < length cs \<Longrightarrow> caller_step answers c (cs ! i) c' x \<Longrightarrow>
    pool_step answers (c, cs) (c', cs[i := x])"

section \<open>What every caller stands on\<close>

abbreviation holds :: "('k, 'v) fmap \<Rightarrow> 'k set \<Rightarrow> bool" where
  "holds c K \<equiv> K \<subseteq> fset (fmdom c)"

definition sound :: "('k \<Rightarrow> 'e + 'v \<Rightarrow> bool) \<Rightarrow> ('k, 'v) fmap \<Rightarrow> 'k \<Rightarrow> 'v \<Rightarrow> bool" where
  "sound answers c0 k v \<longleftrightarrow> fmlookup c0 k = Some v \<or> answers k (Inr v)"

definition sound_cache :: "('k \<Rightarrow> 'e + 'v \<Rightarrow> bool) \<Rightarrow> ('k, 'v) fmap \<Rightarrow> ('k, 'v) fmap \<Rightarrow> bool" where
  "sound_cache answers c0 c \<longleftrightarrow> (\<forall>k v. fmlookup c k = Some v \<longrightarrow> sound answers c0 k v)"

text \<open>
  A discovery of \<open>ks\<close> has visited \<open>pre\<close>: those keys are cached, and what it puts out are
  answers for some of them.
\<close>

definition visited ::
  "('k \<Rightarrow> 'e + 'v \<Rightarrow> bool) \<Rightarrow> ('k, 'v) fmap \<Rightarrow> 'k list \<Rightarrow> 'v list \<Rightarrow> bool" where
  "visited answers c pre out \<longleftrightarrow>
    holds c (set pre) \<and> (\<forall>v \<in> set out. \<exists>k \<in> set pre. answers k (Inr v))"

text \<open>Where a fetch of \<open>k\<close>, or a discovery of \<open>ks\<close>, may be.\<close>

fun fetch_at ::
  "('k \<Rightarrow> 'e + 'v \<Rightarrow> bool) \<Rightarrow> ('k, 'v) fmap \<Rightarrow> ('k, 'v) fmap \<Rightarrow> 'k \<Rightarrow> ('k, 'v, 'e) caller \<Rightarrow> bool" where
  "fetch_at answers c0 c k (FetchRead q) = (q = k)"
| "fetch_at answers c0 c k (FetchAwait q) = (q = k)"
| "fetch_at answers c0 c k (FetchWrite q v) = (q = k \<and> answers k (Inr v))"
| "fetch_at answers c0 c k (FetchDone q r) =
    (q = k \<and> (case r of Inr v \<Rightarrow> sound answers c0 k v \<and> holds c {k} | Inl e \<Rightarrow> answers k (Inl e)))"
| "fetch_at answers c0 c k _ = False"

fun disc_at ::
  "('k \<Rightarrow> 'e + 'v \<Rightarrow> bool) \<Rightarrow> ('k, 'v) fmap \<Rightarrow> 'k list \<Rightarrow> ('k, 'v, 'e) caller \<Rightarrow> bool" where
  "disc_at answers c ks (DiscRead rest out) = (\<exists>pre. ks = pre @ rest \<and> visited answers c pre out)"
| "disc_at answers c ks (DiscAwait k rest out) = (\<exists>pre. ks = pre @ k # rest \<and> visited answers c pre out)"
| "disc_at answers c ks (DiscWrite k v rest out) =
    (\<exists>pre. ks = pre @ k # rest \<and> visited answers c pre out \<and> answers k (Inr v))"
| "disc_at answers c ks (DiscDone r) =
    (case r of Inr out \<Rightarrow> visited answers c ks out | Inl e \<Rightarrow> \<exists>k \<in> set ks. answers k (Inl e))"
| "disc_at answers c ks _ = False"

text \<open>\<open>caller_ok answers c0 c x0 x\<close>: the caller that started as \<open>x0\<close> may be at \<open>x\<close>.\<close>

definition caller_ok ::
  "('k \<Rightarrow> 'e + 'v \<Rightarrow> bool) \<Rightarrow> ('k, 'v) fmap \<Rightarrow> ('k, 'v) fmap
    \<Rightarrow> ('k, 'v, 'e) caller \<Rightarrow> ('k, 'v, 'e) caller \<Rightarrow> bool" where
  "caller_ok answers c0 c x0 x =
    (case x0 of
       FetchRead k \<Rightarrow> fetch_at answers c0 c k x
     | DiscRead ks [] \<Rightarrow> disc_at answers c ks x
     | _ \<Rightarrow> False)"

lemma visited_mono: "visited answers c pre out \<Longrightarrow> holds c' (fset (fmdom c)) \<Longrightarrow> visited answers c' pre out"
  by (auto simp: visited_def)

lemma visited_skip: "visited answers c pre out \<Longrightarrow> fmlookup c k \<noteq> None \<Longrightarrow> visited answers c (pre @ [k]) out"
  by (auto simp: visited_def fmdomI)

lemma visited_write:
  "visited answers c pre out \<Longrightarrow> answers k (Inr v) \<Longrightarrow>
    visited answers (fmupd k v c) (pre @ [k]) (out @ [v])"
  by (auto simp: visited_def)

lemma at_mono:
  assumes "holds c' (fset (fmdom c))"
  shows "fetch_at answers c0 c k x \<Longrightarrow> fetch_at answers c0 c' k x"
    and "disc_at answers c ks x \<Longrightarrow> disc_at answers c' ks x"
  using assms visited_mono [OF _ assms] by (cases x; fastforce split: sum.splits)+

lemma caller_ok_mono:
  "caller_ok answers c0 c x0 x \<Longrightarrow> holds c' (fset (fmdom c)) \<Longrightarrow> caller_ok answers c0 c' x0 x"
  by (auto simp: caller_ok_def at_mono split: caller.splits list.splits)

lemma caller_step_keeps: "caller_step answers c x c' x' \<Longrightarrow> holds c' (fset (fmdom c))"
  by (induction rule: caller_step.induct) auto

lemma caller_step_cache:
  "caller_step answers c x c' x' \<Longrightarrow> sound_cache answers c0 c \<Longrightarrow> caller_ok answers c0 c x0 x \<Longrightarrow>
    sound_cache answers c0 c'"
  by (induction rule: caller_step.induct)
    (auto simp: sound_cache_def sound_def caller_ok_def split: caller.splits list.splits)

lemma fetch_step_at:
  "caller_step answers c x c' x' \<Longrightarrow> sound_cache answers c0 c \<Longrightarrow> fetch_at answers c0 c k x \<Longrightarrow>
    fetch_at answers c0 c' k x'"
  by (induction rule: caller_step.induct) (auto simp: sound_cache_def sound_def fmdomI)

lemma disc_step_at:
  "caller_step answers c x c' x' \<Longrightarrow> disc_at answers c ks x \<Longrightarrow> disc_at answers c' ks x'"
proof (induction rule: caller_step.induct)
  case (disc_skip c k rest out)
  then obtain pre where "ks = (pre @ [k]) @ rest" "visited answers c (pre @ [k]) out"
    by (auto intro: visited_skip)
  then show ?case unfolding disc_at.simps by blast
next
  case (disc_write c k v rest out)
  then obtain pre where "ks = (pre @ [k]) @ rest" "visited answers (fmupd k v c) (pre @ [k]) (out @ [v])"
    by (auto intro: visited_write)
  then show ?case unfolding disc_at.simps by blast
qed auto

lemma caller_step_ok:
  "caller_step answers c x c' x' \<Longrightarrow> sound_cache answers c0 c \<Longrightarrow> caller_ok answers c0 c x0 x \<Longrightarrow>
    caller_ok answers c0 c' x0 x'"
  by (auto simp: caller_ok_def fetch_step_at disc_step_at split: caller.splits list.splits)

definition pool_ok ::
  "('k \<Rightarrow> 'e + 'v \<Rightarrow> bool) \<Rightarrow> ('k, 'v, 'e) pool \<Rightarrow> ('k, 'v, 'e) pool \<Rightarrow> bool" where
  "pool_ok answers p0 p \<longleftrightarrow>
    sound_cache answers (fst p0) (fst p) \<and> list_all2 (caller_ok answers (fst p0) (fst p)) (snd p0) (snd p)"

lemma pool_step_ok: "pool_step answers p p' \<Longrightarrow> pool_ok answers p0 p \<Longrightarrow> pool_ok answers p0 p'"
proof (induction rule: pool_step.induct)
  case (turn i cs c c' x)
  let ?ok = "caller_ok answers (fst p0)"
  from turn.prems have s: "sound_cache answers (fst p0) c" and l: "list_all2 (?ok c) (snd p0) cs"
    by (simp_all add: pool_ok_def)
  from l turn(1) have i: "?ok c (snd p0 ! i) (cs ! i)" by (auto simp: list_all2_conv_all_nth)
  have "?ok c' (snd p0 ! j) (cs[i := x] ! j)" if "j < length cs" for j
  proof (cases "j = i")
    case True
    with caller_step_ok [OF turn(2) s i] turn(1) show ?thesis by simp
  next
    case False
    from l that have "?ok c (snd p0 ! j) (cs ! j)" by (auto simp: list_all2_conv_all_nth)
    with False caller_ok_mono [OF _ caller_step_keeps [OF turn(2)]] show ?thesis by simp
  qed
  with l have "list_all2 (?ok c') (snd p0) (cs[i := x])" by (auto simp: list_all2_conv_all_nth)
  with caller_step_cache [OF turn(2) s i] show ?case by (simp add: pool_ok_def)
qed

lemma pool_run_ok: "(pool_step answers)\<^sup>*\<^sup>* p p' \<Longrightarrow> pool_ok answers p0 p \<Longrightarrow> pool_ok answers p0 p'"
  by (induction rule: rtranclp_induct) (auto intro: pool_step_ok)

text \<open>Callers that have not begun.\<close>

fun starting :: "('k, 'v, 'e) caller \<Rightarrow> bool" where
  "starting (FetchRead _) = True"
| "starting (DiscRead _ []) = True"
| "starting _ = False"

lemma starting_ok: "starting x \<Longrightarrow> caller_ok answers c0 c x x"
  by (cases x rule: starting.cases) (auto simp: caller_ok_def visited_def)

lemma pool_start_ok: "list_all starting cs \<Longrightarrow> pool_ok answers (c, cs) (c, cs)"
  by (auto simp: pool_ok_def sound_cache_def sound_def list_all2_same list_all_iff starting_ok)

section \<open>Steps left\<close>










section \<open>One caller alone\<close>

definition lone ::
  "('k \<Rightarrow> 'e + 'v) \<Rightarrow> ('k, 'v) fmap \<times> ('k, 'v, 'e) caller \<Rightarrow> ('k, 'v) fmap \<times> ('k, 'v, 'e) caller \<Rightarrow> bool" where
  "lone fetch s s' \<longleftrightarrow> caller_step (\<lambda>k r. r = fetch k) (fst s) (snd s) (fst s') (snd s')"

lemma lone_det: "lone fetch s s1 \<Longrightarrow> lone fetch s s2 \<Longrightarrow> s1 = s2"
  unfolding lone_def by (cases "snd s") (auto intro!: prod_eqI simp: eq_commute [of _ "fetch _"])

lemma lone_final: "lone fetch (c, DiscDone r) s \<Longrightarrow> False"
  by (auto simp: lone_def)

lemma lone_unique:
  "(lone fetch)\<^sup>*\<^sup>* s s1 \<Longrightarrow> (lone fetch)\<^sup>*\<^sup>* s s2 \<Longrightarrow> (\<nexists>t. lone fetch s1 t) \<Longrightarrow> (\<nexists>t. lone fetch s2 t) \<Longrightarrow> s1 = s2"
proof (induction rule: converse_rtranclp_induct)
  case base
  then show ?case by (metis converse_rtranclpE)
next
  case (step s t)
  then show ?case by (metis converse_rtranclpE lone_det)
qed

lemma lone_discovers:
  "discover_loop fetch ks c fetched out = (c', fetched', r) \<Longrightarrow>
    (lone fetch)\<^sup>*\<^sup>* (c, DiscRead ks out) (c', DiscDone r)"
proof (induction fetch ks c fetched out rule: discover_loop.induct)
  case (1 fetch c fetched out)
  then have "lone fetch (c, DiscRead [] out) (c', DiscDone r)"
    by (auto simp: lone_def intro: caller_step.intros)
  then show ?case ..
next
  case (2 fetch k ks c fetched out)
  show ?case
  proof (cases "fmlookup c k")
    case (Some v)
    with 2 have "(lone fetch)\<^sup>*\<^sup>* (c, DiscRead ks out) (c', DiscDone r)" by simp
    moreover have "lone fetch (c, DiscRead (k # ks) out) (c, DiscRead ks out)"
      by (simp add: lone_def Some caller_step.disc_skip)
    ultimately show ?thesis by (rule converse_rtranclp_into_rtranclp [rotated])
  next
    case None
    then have miss: "lone fetch (c, DiscRead (k # ks) out) (c, DiscAwait k ks out)"
      by (simp add: lone_def caller_step.disc_miss)
    show ?thesis
    proof (cases "fetch k")
      case (Inl e)
      with None 2 have "c' = c" "r = Inl e" by simp_all
      moreover have "lone fetch (c, DiscAwait k ks out) (c, DiscDone (Inl e))"
        by (simp add: lone_def Inl caller_step.disc_err)
      ultimately show ?thesis using miss by (meson converse_rtranclp_into_rtranclp r_into_rtranclp)
    next
      case (Inr v)
      have "lone fetch (c, DiscAwait k ks out) (c, DiscWrite k v ks out)"
        by (simp add: lone_def Inr caller_step.disc_ok)
      moreover have "lone fetch (c, DiscWrite k v ks out) (fmupd k v c, DiscRead ks (out @ [v]))"
        by (simp add: lone_def caller_step.disc_write)
      moreover have "(lone fetch)\<^sup>*\<^sup>* (fmupd k v c, DiscRead ks (out @ [v])) (c', DiscDone r)"
        using 2 None Inr by simp
      ultimately show ?thesis using miss by (meson converse_rtranclp_into_rtranclp)
    qed
  qed
qed

lemma lone_discover_iff:
  "(lone fetch)\<^sup>*\<^sup>* (c, DiscRead ks []) (c', DiscDone r)
    \<longleftrightarrow> (\<exists>fetched. cached_discover fetch ks c = (c', fetched, r))"
proof
  assume run: "(lone fetch)\<^sup>*\<^sup>* (c, DiscRead ks []) (c', DiscDone r)"
  obtain c1 f1 r1 where d: "discover_loop fetch ks c [] [] = (c1, f1, r1)" by (metis prod_cases3)
  from lone_unique [OF run lone_discovers [OF d]] have "c' = c1 \<and> r = r1"
    by (auto dest: lone_final)
  with d show "\<exists>fetched. cached_discover fetch ks c = (c', fetched, r)" by (simp add: cached_discover_def)
qed (auto simp: cached_discover_def lone_discovers)

section \<open>A race\<close>

text \<open>
  Two discoveries of one key, each answered before the other has written: both return it as
  new, with the answer each got, and the cache keeps the later write.  One caller after the
  other, the second would return nothing (\<open>discover_idempotent\<close>).
\<close>

definition two_answers :: "nat \<Rightarrow> unit + nat \<Rightarrow> bool" where
  "two_answers k r \<longleftrightarrow> r = Inr 10 \<or> r = Inr 20"

lemma turn_fst:
  "caller_step answers c x c' x' \<Longrightarrow> (pool_step answers)\<^sup>*\<^sup>* (c', [x', y]) q \<Longrightarrow>
    (pool_step answers)\<^sup>*\<^sup>* (c, [x, y]) q"
  using pool_step.turn [of 0 "[x, y]" answers c c' x'] by (auto intro: converse_rtranclp_into_rtranclp)

lemma turn_snd:
  "caller_step answers c y c' y' \<Longrightarrow> (pool_step answers)\<^sup>*\<^sup>* (c', [x, y']) q \<Longrightarrow>
    (pool_step answers)\<^sup>*\<^sup>* (c, [x, y]) q"
  using pool_step.turn [of 1 "[x, y]" answers c c' y'] by (auto intro: converse_rtranclp_into_rtranclp)

lemma discoveries_race:
  "(pool_step two_answers)\<^sup>*\<^sup>* (fmempty, [DiscRead [1] [], DiscRead [1] []])
    (fmupd 1 20 (fmupd 1 10 fmempty), [DiscDone (Inr [10]), DiscDone (Inr [20])])"
  by (rule turn_fst, rule caller_step.disc_miss, simp, rule turn_snd, rule caller_step.disc_miss, simp,
      rule turn_fst, rule caller_step.disc_ok [where v = 10], simp add: two_answers_def,
      rule turn_snd, rule caller_step.disc_ok [where v = 20], simp add: two_answers_def,
      rule turn_fst, rule caller_step.disc_write, rule turn_snd, rule caller_step.disc_write,
      rule turn_fst, rule caller_step.disc_end, rule turn_snd, rule caller_step.disc_end, simp)

section \<open>Properties\<close>

text \<open>
  C37: however the callers interleave, nobody is told anything that was not cached at the start
  or answered for that very key: this holds of every cached value and of every value a fetch
  returns; the key of a successful fetch and the keys of a successful discovery are cached
  from then on, and a discovery returns answers for its own keys only.
\<close>

theorem pool_returns_answers:
  assumes "(pool_step answers)\<^sup>*\<^sup>* (c0, cs0) (c, cs)" and "list_all starting cs0"
  shows "(\<forall>k v. fmlookup c k = Some v \<longrightarrow> sound answers c0 k v)
    \<and> (\<forall>k v. FetchDone k (Inr v) \<in> set cs \<longrightarrow> sound answers c0 k v \<and> k |\<in>| fmdom c)
    \<and> (\<forall>i ks out. i < length cs \<and> cs0 ! i = DiscRead ks [] \<and> cs ! i = DiscDone (Inr out) \<longrightarrow>
        set ks \<subseteq> fset (fmdom c) \<and> (\<forall>v \<in> set out. \<exists>k \<in> set ks. answers k (Inr v)))"
proof -
  have ok: "pool_ok answers (c0, cs0) (c, cs)"
    by (rule pool_run_ok [OF assms(1) pool_start_ok [OF assms(2)]])
  then have each: "caller_ok answers c0 c (cs0 ! i) (cs ! i)" if "i < length cs" for i
    using that by (auto simp: pool_ok_def list_all2_conv_all_nth)
  have "sound answers c0 k v \<and> k |\<in>| fmdom c" if "FetchDone k (Inr v) \<in> set cs" for k v
  proof -
    from that obtain i where "i < length cs" "cs ! i = FetchDone k (Inr v)" by (auto simp: in_set_conv_nth)
    with each [of i] show ?thesis by (auto simp: caller_ok_def split: caller.splits list.splits)
  qed
  moreover have "visited answers c ks out"
    if "i < length cs" "cs0 ! i = DiscRead ks []" "cs ! i = DiscDone (Inr out)" for i ks out
    using each [OF that(1)] that(2,3) by (simp add: caller_ok_def)
  moreover have "sound_cache answers c0 c" using ok by (simp add: pool_ok_def)
  ultimately show ?thesis
    unfolding sound_cache_def visited_def by blast
qed

theorem pool_returns_answers_witness:
  "let c = fmupd 1 20 (fmupd 1 10 fmempty); cs = [DiscDone (Inr [10]), DiscDone (Inr [20])]
   in (pool_step two_answers)\<^sup>*\<^sup>* (fmempty, [DiscRead [1] [], DiscRead [1] []]) (c, cs)
      \<and> sound two_answers fmempty 1 20 \<and> (\<exists>k \<in> set [1]. two_answers k (Inr 10))"
proof -
  have st: "list_all starting [DiscRead [1] [], DiscRead [1] [] :: (nat, nat, unit) caller]" by simp
  note r = pool_returns_answers [OF discoveries_race st]
  from r [THEN conjunct1, rule_format, of 1 20] have a: "sound two_answers fmempty 1 20" by simp
  from r [THEN conjunct2, THEN conjunct2, rule_format, of 0 "[1]" "[10]"]
  have b: "\<exists>k \<in> set [1]. two_answers k (Inr 10)" by simp
  from a b discoveries_race show ?thesis by (simp only: Let_def simp_thms)
qed



end
