(* ===== verification/Live_Examples.thy ===== *)
theory Live_Examples
  imports Changeset_Props
begin

text \<open>
  \<open>rex-sim/examples/verify_changed_accounts.rs\<close>: on every update the loop asks the shared state for
  the accounts the block changed and reads each of them.  The log is a list of entries.  The shared
  state moves on while the loop works: \<open>seen 0\<close> is what the history lookup meets, \<open>seen (Suc k)\<close> what the
  \<open>k\<close>-th account read meets.
\<close>

section \<open>The loop\<close>





section \<open>Facts\<close>



section \<open>Property\<close>




end
