(* ===== verification/Float64.thy ===== *)
theory Float64
  imports Artifacts "HOL-Library.Log_Nat"
begin

text \<open>
  \<open>f64\<close> as the reports of \<open>parity.rs\<close> and \<open>bench_db.rs\<close> use it: non-negative values only, conversions from
  integers, products and quotients, each rounded to nearest with ties to even, and the
  fixed-point formatting of \<open>{:.1}\<close> and \<open>{:.2}\<close>.  A value is the rational number it stands for.  The
  magnitudes that occur lie between \<open>2 ^ -64\<close> and \<open>2 ^ 200\<close>, where an \<open>f64\<close> is normal, so
  neither subnormals nor infinities arise.
\<close>

type_synonym u128 = "128 word"

section \<open>Rounding\<close>

definition round_even :: "rat \<Rightarrow> int" where
  "round_even x =
    (let f = \<lfloor>x\<rfloor>; d = x - of_int f
     in if d < 1 / 2 then f else if d > 1 / 2 then f + 1 else if even f then f else f + 1)"

text \<open>The exponent of the leading bit of a positive value.\<close>

definition lead :: "rat \<Rightarrow> int" where
  "lead x =
    (if 1 \<le> x then int (floorlog 2 (nat \<lfloor>x\<rfloor>)) - 1
     else - int (floorlog 2 (nat (\<lceil>1 / x\<rceil> - 1))))"

definition fl :: "rat \<Rightarrow> rat" where
  "fl x = (if x \<le> 0 then 0 else (let u = 2 powi (lead x - 52) in of_int (round_even (x / u)) * u))"

definition f64_of_nat :: "nat \<Rightarrow> rat" where
  "f64_of_nat n = fl (of_nat n)"

definition f64_of_word :: "'a::len word \<Rightarrow> rat" where
  "f64_of_word w = f64_of_nat (unat w)"

definition f64_div :: "rat \<Rightarrow> rat \<Rightarrow> rat" where
  "f64_div x y = fl (x / y)"

definition f64_mul :: "rat \<Rightarrow> rat \<Rightarrow> rat" where
  "f64_mul x y = fl (x * y)"

text \<open>\<open>{:.p}\<close>: \<open>p\<close> decimals of the exact value, ties to even.\<close>

fun dec_pad :: "nat \<Rightarrow> nat \<Rightarrow> string" where
  "dec_pad 0 n = []"
| "dec_pad (Suc p) n = dec_pad p (n div 10) @ [digit (n mod 10)]"

definition show_fixed :: "nat \<Rightarrow> rat \<Rightarrow> string" where
  "show_fixed p x =
    (let q = nat (round_even (x * 10 ^ p)) in dec (q div 10 ^ p) @ ''.'' @ dec_pad p (q mod 10 ^ p))"

section \<open>Facts\<close>

lemma round_even_of_int [simp]: "round_even (of_int n) = n"
  by (simp add: round_even_def)

lemma round_even_bounds: "of_int (round_even x) \<le> x + 1 / 2" "x - 1 / 2 \<le> of_int (round_even x)"
  by (auto simp: round_even_def Let_def; linarith)+

lemma round_even_mono: "x \<le> y \<Longrightarrow> round_even x \<le> round_even y"
proof -
  assume xy: "x \<le> y"
  show ?thesis
  proof (cases "\<lfloor>x\<rfloor> = \<lfloor>y\<rfloor>")
    case True
    with xy show ?thesis by (auto simp: round_even_def Let_def)
  next
    case False
    with xy have "\<lfloor>x\<rfloor> + 1 \<le> \<lfloor>y\<rfloor>" using floor_mono [OF xy] by linarith
    moreover have "round_even x \<le> \<lfloor>x\<rfloor> + 1" "\<lfloor>y\<rfloor> \<le> round_even y"
      by (auto simp: round_even_def Let_def)
    ultimately show ?thesis by linarith
  qed
qed

lemma lead_bounds:
  assumes "0 < x"
  shows "2 powi lead x \<le> x" and "x < 2 powi (lead x + 1)"
proof -
  have "2 powi lead x \<le> x \<and> x < 2 powi (lead x + 1)"
  proof (cases "1 \<le> x")
    case True
    let ?n = "nat \<lfloor>x\<rfloor>" and ?k = "floorlog 2 (nat \<lfloor>x\<rfloor>)"
    from True have n: "0 < ?n" by (simp add: le_floor_iff)
    then have k: "0 < ?k" by (simp add: floorlog_def)
    have b: "2 ^ (?k - 1) \<le> ?n" "?n < 2 ^ ?k" using floorlog_bounds [of ?n 2] n by simp_all
    have lead: "lead x = int ?k - 1" using True by (simp add: lead_def)
    have xn: "of_nat ?n \<le> x" "x < of_nat ?n + 1" 
      using True floor_correct [of x] by (simp_all add: le_floor_iff)
    have "(2 :: rat) powi lead x = of_nat (2 ^ (?k - 1))"
      using k by (simp add: lead power_int_def nat_diff_distrib)
    moreover have "2 powi (lead x + 1) = (of_nat (2 ^ ?k) :: rat)"
      by (simp add: lead power_int_def)
    moreover have "of_nat (2 ^ (?k - 1)) \<le> (of_nat ?n :: rat)" using b(1) by (simp only: of_nat_le_iff)
    moreover have "of_nat ?n + 1 \<le> (of_nat (2 ^ ?k) :: rat)"
      using b(2) by (metis Suc_leI of_nat_Suc of_nat_le_iff add.commute)
    ultimately show ?thesis using xn by linarith
  next
    case False
    let ?c = "\<lceil>1 / x\<rceil>" and ?n = "nat (\<lceil>1 / x\<rceil> - 1)" and ?k = "floorlog 2 (nat (\<lceil>1 / x\<rceil> - 1))"
    from False assms have "1 < 1 / x" by simp
    then have "1 < ?c" by (simp only: less_ceiling_iff of_int_1)
    then have c: "2 \<le> ?c" by linarith
    then have n: "0 < ?n" by simp
    then have k: "0 < ?k" by (simp add: floorlog_def)
    have b: "2 ^ (?k - 1) \<le> ?n" "?n < 2 ^ ?k" using floorlog_bounds [of ?n 2] n by simp_all
    have lead: "lead x = - int ?k" using False by (simp add: lead_def)
    have cx: "1 / x \<le> of_int ?c" "of_int ?c - 1 < 1 / x" using ceiling_correct [of "1 / x"] by auto
    from c have "0 \<le> ?c - 1" by linarith
    then have "int ?n = ?c - 1" by (rule nat_0_le)
    then have nc: "of_nat ?n = (of_int ?c - 1 :: rat)" by (metis of_int_1 of_int_diff of_int_of_nat_eq)
    have "?n + 1 \<le> 2 ^ ?k" using b(2) by linarith
    then have "of_nat (?n + 1) \<le> (of_nat (2 ^ ?k) :: rat)" by (simp only: of_nat_le_iff)
    then have "of_nat ?n + 1 \<le> (2 ^ ?k :: rat)"
      by (simp only: of_nat_1 of_nat_add of_nat_numeral of_nat_power)
    with cx(1) nc have up: "1 / x \<le> 2 ^ ?k" by linarith
    have "of_nat (2 ^ (?k - 1)) \<le> (of_nat ?n :: rat)" using b(1) by (simp only: of_nat_le_iff)
    then have "(2 ^ (?k - 1) :: rat) \<le> of_nat ?n" by (simp only: of_nat_numeral of_nat_power)
    with cx(2) nc have lo: "2 ^ (?k - 1) < 1 / x" by linarith
    have "2 powi lead x = 1 / (2 ^ ?k :: rat)" by (simp add: lead power_int_minus divide_inverse)
    moreover have "2 powi (lead x + 1) = 1 / (2 ^ (?k - 1) :: rat)"
    proof -
      have "lead x + 1 = - int (?k - 1)" using k by (simp add: lead)
      then show ?thesis by (simp only: power_int_minus power_int_of_nat divide_inverse mult_1)
    qed
    moreover have "1 / 2 ^ ?k \<le> x" using up assms by (simp add: field_simps)
    moreover have "x < 1 / 2 ^ (?k - 1)" using lo assms by (simp add: field_simps)
    ultimately show ?thesis by simp
  qed
  then show "2 powi lead x \<le> x" and "x < 2 powi (lead x + 1)" by simp_all
qed

lemma powi2_less: "2 powi m < (2 powi n :: rat) \<Longrightarrow> m < n"
  by (rule ccontr) (auto simp: not_less dest: power_int_increasing [of n m "2 :: rat"])

lemma powi2_le: "m \<le> n \<Longrightarrow> 2 powi m \<le> (2 powi n :: rat)"
  by (rule power_int_increasing) simp_all

lemma lead_unique: "2 powi e \<le> x \<Longrightarrow> x < 2 powi (e + 1) \<Longrightarrow> lead x = e"
proof -
  assume a: "2 powi e \<le> x" "x < 2 powi (e + 1)"
  have "(0 :: rat) < 2 powi e" by simp
  with a(1) have "0 < x" by linarith
  note b = lead_bounds [OF this]
  from a b have "2 powi e < (2 powi (lead x + 1) :: rat)" "2 powi lead x < (2 powi (e + 1) :: rat)" by linarith+
  then have "e < lead x + 1" "lead x < e + 1" by (blast dest: powi2_less)+
  then show ?thesis by simp
qed

lemma lead_mono: "0 < x \<Longrightarrow> x \<le> y \<Longrightarrow> lead x \<le> lead y"
proof -
  assume a: "0 < x" "x \<le> y"
  then have "2 powi lead x < (2 powi (lead y + 1) :: rat)"
    using lead_bounds(1) [of x] lead_bounds(2) [of y] by linarith
  from powi2_less [OF this] show ?thesis by simp
qed

text \<open>A value between two powers of two is rounded between them.\<close>

lemma powi2_split: "2 powi a * (2 powi b :: rat) = 2 powi (a + b)"
  by (simp add: power_int_add)

lemma round_even_scaled:
  assumes "0 < u"
  shows "of_int a * u \<le> x \<Longrightarrow> of_int a * u \<le> of_int (round_even (x / u)) * u"
    and "x \<le> of_int b * u \<Longrightarrow> of_int (round_even (x / u)) * u \<le> of_int b * u"
proof -
  assume "of_int a * u \<le> x"
  with assms have "of_int a \<le> x / u" by (simp add: pos_le_divide_eq)
  from round_even_mono [OF this] have "a \<le> round_even (x / u)" by simp
  with assms show "of_int a * u \<le> of_int (round_even (x / u)) * u" by simp
next
  assume "x \<le> of_int b * u"
  with assms have "x / u \<le> of_int b" by (simp add: pos_divide_le_eq)
  from round_even_mono [OF this] have "round_even (x / u) \<le> b" by simp
  with assms show "of_int (round_even (x / u)) * u \<le> of_int b * u" by simp
qed

lemma powi2_grid: "2 powi e = of_int (2 ^ k) * (2 powi (e - int k) :: rat)"
  using powi2_split [of "int k" "e - int k"] by simp

lemma fl_between:
  assumes "0 < x"
  shows "2 powi lead x \<le> fl x" and "fl x \<le> 2 powi (lead x + 1)"
proof -
  let ?u = "2 powi (lead x - 52) :: rat"
  have u: "0 < ?u" by simp
  have "lead x - int 52 = lead x - 52" "lead x + 1 - int 53 = lead x - 52" by simp_all
  then have lo: "2 powi lead x = of_int (2 ^ 52) * ?u" and hi: "2 powi (lead x + 1) = of_int (2 ^ 53) * ?u"
    using powi2_grid [of "lead x" 52] powi2_grid [of "lead x + 1" 53] by (simp_all only:)
  have f: "fl x = of_int (round_even (x / ?u)) * ?u"
    using assms unfolding fl_def Let_def by (simp only: not_le [symmetric] if_False not_True_eq_False)
  show "2 powi lead x \<le> fl x"
    using round_even_scaled(1) [OF u, of "2 ^ 52" x] lead_bounds(1) [OF assms] unfolding f lo .
  show "fl x \<le> 2 powi (lead x + 1)"
    using round_even_scaled(2) [OF u, of x "2 ^ 53"] lead_bounds(2) [OF assms] unfolding f hi by (rule less_imp_le [THEN [2] meta_mp])
qed

lemma fl_nonneg [simp]: "0 \<le> fl x"
proof (cases "0 < x")
  case True
  have "(0 :: rat) \<le> 2 powi lead x" by simp
  with fl_between(1) [OF True] show ?thesis by (rule order_trans [rotated])
qed (simp add: fl_def)

lemma fl_mono: "x \<le> y \<Longrightarrow> fl x \<le> fl y"
proof -
  assume xy: "x \<le> y"
  show ?thesis
  proof (cases "0 < x")
    case False
    then show ?thesis by (simp add: fl_def [of x])
  next
    case True
    with xy have y: "0 < y" by simp
    show ?thesis
    proof (cases "lead x = lead y")
      case True
      have "round_even (x / 2 powi (lead y - 52)) \<le> round_even (y / 2 powi (lead y - 52))"
        by (rule round_even_mono) (use xy in \<open>simp add: divide_right_mono\<close>)
      with True \<open>0 < x\<close> y show ?thesis by (simp add: fl_def Let_def)
    next
      case False
      with lead_mono [OF \<open>0 < x\<close> xy] have "2 powi (lead x + 1) \<le> (2 powi lead y :: rat)"
        by (intro powi2_le) simp
      with fl_between(2) [OF \<open>0 < x\<close>] fl_between(1) [OF y] show ?thesis by linarith
    qed
  qed
qed

text \<open>A value of fewer than 54 bits is not changed.\<close>

lemma fl_on_grid:
  assumes "0 < x" and "x = of_int n * 2 powi (lead x - 52)"
  shows "fl x = x"
proof -
  let ?u = "2 powi (lead x - 52) :: rat"
  have "x / ?u = of_int n" using assms(2) by (simp add: field_simps)
  with assms show ?thesis by (simp add: fl_def Let_def)
qed

lemma fl_exact:
  assumes "0 \<le> m" and "m < 2 ^ 53"
  shows "fl (of_int m * 2 powi e) = of_int m * 2 powi e"
proof (cases "m = 0")
  case True
  then show ?thesis by (simp add: fl_def)
next
  case False
  let ?x = "of_int m * 2 powi e :: rat"
  from False assms(1) have x: "0 < ?x" by simp
  have "(of_int m :: rat) < of_int (2 ^ 53)" using assms(2) by (simp only: of_int_less_iff)
  then have "?x < 2 ^ 53 * 2 powi e" by simp
  also have "\<dots> = 2 powi (e + 53)" using powi2_split [of 53 e] by (simp add: add.commute)
  finally have "2 powi lead ?x < (2 powi (e + 53) :: rat)" using lead_bounds(1) [OF x] by linarith
  from powi2_less [OF this] have "0 \<le> e - (lead ?x - 52)" by simp
  then obtain k where k: "e = int k + (lead ?x - 52)"
    by (metis add_diff_cancel_right' diff_add_cancel nonneg_int_cases)
  have "2 powi e = (2 ^ k * 2 powi (lead ?x - 52) :: rat)"
    by (subst k) (simp add: power_int_add)
  then have "?x = of_int (m * 2 ^ k) * 2 powi (lead ?x - 52)" by simp
  with x show ?thesis by (rule fl_on_grid)
qed

lemma fl_nat: "n < 2 ^ 53 \<Longrightarrow> fl (of_nat n) = of_nat n"
proof -
  assume "n < 2 ^ 53"
  then have "int n < int (2 ^ 53)" by (simp only: of_nat_less_iff)
  then have "int n < 2 ^ 53" by simp
  from fl_exact [OF _ this, of 0] show ?thesis by simp
qed

section \<open>Percentages\<close>

definition percent :: "nat \<Rightarrow> nat \<Rightarrow> rat" where
  "percent a n = f64_mul (f64_div (f64_of_nat a) (f64_of_nat n)) 100"

lemma fl_hundred: "fl 100 = 100" and fl_one: "fl 1 = 1"
  using fl_nat [of 100] fl_nat [of 1] by simp_all

lemma percent_bounds:
  assumes "a \<le> n"
  shows "0 \<le> percent a n" and "percent a n \<le> 100"
proof -
  have "fl (of_nat a) \<le> fl (of_nat n)" using assms by (intro fl_mono) simp
  then have "fl (of_nat a) / fl (of_nat n) \<le> 1"
    using fl_nonneg [of "of_nat n"] unfolding le_less by (elim disjE) (simp_all add: divide_le_eq_1)
  from fl_mono [OF this] have "f64_div (f64_of_nat a) (f64_of_nat n) \<le> 1"
    by (simp add: f64_div_def f64_of_nat_def fl_one)
  then have "f64_div (f64_of_nat a) (f64_of_nat n) * 100 \<le> 100" by simp
  from fl_mono [OF this] show "percent a n \<le> 100" by (simp add: percent_def f64_mul_def fl_hundred)
  show "0 \<le> percent a n" by (simp add: percent_def f64_mul_def)
qed

lemma percent_all: "0 < n \<Longrightarrow> n < 2 ^ 53 \<Longrightarrow> percent n n = 100"
  by (simp add: percent_def f64_mul_def f64_div_def f64_of_nat_def fl_nat fl_one fl_hundred)

text \<open>The largest \<open>f64\<close> below one, and a hundred times it, rounded.\<close>

lemma fl_below_one: "fl (1 - 1 / 2 ^ 53) = 1 - 1 / 2 ^ 53"
  using fl_exact [of "2 ^ 53 - 1" "- 53"] by (simp add: power_int_minus)

lemma lead_below_hundred: "lead (100 - 100 / 2 ^ 53) = 6"
proof -
  have "lead (100 - d) = 6" if "0 \<le> d" "d \<le> 1" for d
    by (rule lead_unique) (use that in \<open>simp_all add: power_int_def\<close>)
  from this [of "100 / 2 ^ 53"] show ?thesis by simp
qed

lemma fl_below_hundred: "fl ((1 - 1 / 2 ^ 53) * 100) < 100"
proof -
  have "(6 - 52 :: int) = - int 46" by simp
  then have u: "(2 :: rat) powi (6 - 52) = 1 / 2 ^ 46"
    by (simp only: power_int_minus power_int_of_nat inverse_eq_divide)
  have "(100 - 100 / 2 ^ 53) / (1 / 2 ^ 46) = (7036874417766399 + 7 / 32 :: rat)" by simp
  then have "fl (100 - 100 / 2 ^ 53) = of_int (round_even (7036874417766399 + 7 / 32)) * (1 / 2 ^ 46)"
    unfolding fl_def lead_below_hundred u Let_def by simp
  also have "round_even (7036874417766399 + 7 / 32) = 7036874417766399"
  proof -
    have "\<lfloor>7036874417766399 + 7 / 32 :: rat\<rfloor> = 7036874417766399" by (rule floor_unique) simp_all
    then show ?thesis by (simp add: round_even_def Let_def)
  qed
  finally have "fl (100 - 100 / 2 ^ 53) < 100" by simp
  moreover have "(1 - 1 / 2 ^ 53) * 100 = (100 - 100 / 2 ^ 53 :: rat)" by simp
  ultimately show ?thesis by simp
qed

lemma percent_not_all:
  assumes "a < n" and "n < 2 ^ 53"
  shows "percent a n < 100"
proof -
  have "n \<le> 2 ^ 53" using assms(2) by simp
  then have n: "(of_nat n :: rat) \<le> 2 ^ 53" by (metis of_nat_le_iff of_nat_numeral of_nat_power)
  have pos: "0 < (of_nat n :: rat)" using assms(1) by simp
  have "of_nat a \<le> (of_nat n - 1 :: rat)" using assms(1) by (metis Suc_leI le_diff_eq of_nat_Suc of_nat_le_iff add.commute)
  then have "of_nat a / of_nat n \<le> (of_nat n - 1 :: rat) / of_nat n" using pos by (simp add: divide_right_mono)
  also have "\<dots> = 1 - 1 / of_nat n" using pos by (simp add: field_simps)
  also have "\<dots> \<le> 1 - 1 / 2 ^ 53" using frac_le [of 1 1 "of_nat n" "2 ^ 53 :: rat"] n pos by simp
  finally have "of_nat a / of_nat n \<le> (1 - 1 / 2 ^ 53 :: rat)" .
  from fl_mono [OF this] have "f64_div (f64_of_nat a) (f64_of_nat n) \<le> 1 - 1 / 2 ^ 53"
    unfolding fl_below_one using assms by (simp add: f64_div_def f64_of_nat_def fl_nat)
  then have "f64_div (f64_of_nat a) (f64_of_nat n) * 100 \<le> (1 - 1 / 2 ^ 53) * 100"
    by (rule mult_right_mono) simp
  from fl_mono [OF this] have "percent a n \<le> fl ((1 - 1 / 2 ^ 53) * 100)"
    unfolding percent_def f64_mul_def .
  with fl_below_hundred show ?thesis by linarith
qed

end
