(* ===== verification/Bench_Db.thy ===== *)
theory Bench_Db
  imports Float64 Static_State
begin

text \<open>
  \<open>rex-sim/examples/bench_db.rs\<close>: several threads read the shared state as fast as they can and
  count what they get in shared atomics; the main thread joins them and prints a report.  A record
  call is three separate atomic accesses, so the threads run interleaved, one access at a time.

  The random generator is a third-party crate and is the record \<open>rng\<close>; \<open>Address::random\<close> draws
  from it too.  A panic is \<open>None\<close>.  The report is the text that \<open>print_report\<close> prints.
\<close>

section \<open>The counters\<close>

datatype lookup_kind = AccountLookup | StorageLookup | BlockHashLookup

record stats =
  bs_lookups :: "lookup_kind \<Rightarrow> u64"
  bs_hits :: "lookup_kind \<Rightarrow> u64"
  bs_errors :: "lookup_kind \<Rightarrow> u64"
  bs_latencies_us :: "u64 list"

definition stats_start :: stats where
  "stats_start = \<lparr>bs_lookups = (\<lambda>_. 0), bs_hits = (\<lambda>_. 0), bs_errors = (\<lambda>_. 0), bs_latencies_us = []\<rparr>"

text \<open>The three accesses of \<open>record_account_lookup\<close> and its two twins, in their order.\<close>

datatype access = AddLookup lookup_kind | AddHit lookup_kind | AddError lookup_kind | Push u64

fun access_step :: "access \<Rightarrow> stats \<Rightarrow> stats" where
  "access_step (AddLookup k) s = s\<lparr>bs_lookups := (bs_lookups s)(k := bs_lookups s k + 1)\<rparr>"
| "access_step (AddHit k) s = s\<lparr>bs_hits := (bs_hits s)(k := bs_hits s k + 1)\<rparr>"
| "access_step (AddError k) s = s\<lparr>bs_errors := (bs_errors s)(k := bs_errors s k + 1)\<rparr>"
| "access_step (Push us) s = s\<lparr>bs_latencies_us := bs_latencies_us s @ [us]\<rparr>"

definition record_lookup :: "lookup_kind \<Rightarrow> bool \<Rightarrow> u128 \<Rightarrow> access list" where
  "record_lookup k success latency_us =
    [AddLookup k, if success then AddHit k else AddError k, Push (ucast latency_us)]"

section \<open>The report\<close>

definition get_or_0 :: "u64 list \<Rightarrow> u64 \<Rightarrow> u64" where
  "get_or_0 xs i = (if unat i < length xs then xs ! unat i else 0)"

definition sorted_latencies :: "stats \<Rightarrow> u64 list" where
  "sorted_latencies s = sort (bs_latencies_us s)"

definition p50 :: "stats \<Rightarrow> u64" where
  "p50 s = (let latencies = sorted_latencies s in get_or_0 latencies (of_nat (length latencies) div 2))"

definition p95 :: "stats \<Rightarrow> u64" where
  "p95 s = (let latencies = sorted_latencies s in get_or_0 latencies (of_nat (length latencies) * 95 div 100))"

definition p99 :: "stats \<Rightarrow> u64" where
  "p99 s = (let latencies = sorted_latencies s in get_or_0 latencies (of_nat (length latencies) * 99 div 100))"

definition avg :: "stats \<Rightarrow> u64" where
  "avg s =
    (let latencies = sorted_latencies s
     in if latencies \<noteq> [] then sum_list latencies div of_nat (length latencies) else 0)"

definition hit_rate :: "stats \<Rightarrow> lookup_kind \<Rightarrow> rat" where
  "hit_rate s k =
    (if 0 < bs_lookups s k
     then f64_mul (f64_div (f64_of_word (bs_hits s k)) (f64_of_word (bs_lookups s k))) 100
     else 0)"

definition total_ops :: "stats \<Rightarrow> u64" where
  "total_ops s = bs_lookups s AccountLookup + bs_lookups s StorageLookup + bs_lookups s BlockHashLookup"

definition kind_lines :: "string \<Rightarrow> stats \<Rightarrow> lookup_kind \<Rightarrow> string list" where
  "kind_lines title s k =
    [title,
     ''  Total:  '' @ show_u64 (bs_lookups s k),
     ''  Hits:   '' @ show_u64 (bs_hits s k) @ '' ('' @ show_fixed 1 (hit_rate s k) @ ''%)'',
     ''  Errors: '' @ show_u64 (bs_errors s k)]"

definition print_report :: "stats \<Rightarrow> string" where
  "print_report s = concat (map (\<lambda>l. l @ [CHR 0x0A])
    (['''', ''========== BENCHMARK RESULTS =========='', '''']
     @ kind_lines ''Account Lookups:'' s AccountLookup
     @ [''''] @ kind_lines ''Storage Lookups:'' s StorageLookup
     @ [''''] @ kind_lines ''Block Hash Lookups:'' s BlockHashLookup
     @ ['''', ''Latency (microseconds):'',
        ''  Avg:    '' @ show_u64 (avg s) @ '' us'',
        ''  P50:    '' @ show_u64 (p50 s) @ '' us'',
        ''  P95:    '' @ show_u64 (p95 s) @ '' us'',
        ''  P99:    '' @ show_u64 (p99 s) @ '' us'',
        '''', ''Total Operations: '' @ show_u64 (total_ops s),
        '''', ''========================================'', '''']))"

section \<open>The arguments\<close>

record bench_config =
  bc_rpc_endpoint :: string
  bc_rex_endpoint :: string
  bc_num_operations :: u64
  bc_num_threads :: u64

definition bench_args :: "string list \<Rightarrow> bench_config" where
  "bench_args args =
    \<lparr>bc_rpc_endpoint = (case arg_after ''--rpc'' args of Some s \<Rightarrow> s | None \<Rightarrow> ''http://127.0.0.1:8545''),
     bc_rex_endpoint = (case arg_after ''--rex'' args of Some s \<Rightarrow> s | None \<Rightarrow> ''http://127.0.0.1:10000''),
     bc_num_operations = (case Option.bind (arg_after ''--ops'' args) parse_u64 of Some n \<Rightarrow> n | None \<Rightarrow> 100000),
     bc_num_threads = (case Option.bind (arg_after ''--threads'' args) parse_u64 of Some n \<Rightarrow> n | None \<Rightarrow> 4)\<rparr>"

definition ops_per_thread :: "bench_config \<Rightarrow> u64 option" where
  "ops_per_thread cfg =
    (if bc_num_threads cfg = 0 then None else Some (bc_num_operations cfg div bc_num_threads cfg))"

text \<open>The last line: operations over the elapsed seconds.\<close>

definition throughput :: "bench_config \<Rightarrow> rat \<Rightarrow> rat" where
  "throughput cfg elapsed_secs = f64_div (f64_of_word (bc_num_operations cfg)) elapsed_secs"

section \<open>One operation\<close>

definition KNOWN_CONTRACTS :: "address list" where
  "KNOWN_CONTRACTS =
    [0xC02aaA39b223FE8D0A0e5C4F27eAD9083C756Cc2, 0xdAC17F958D2ee523a2206206994597C13D831ec7,
     0xA0b86991c6218b36c1d19D4a2e9Eb0cE3606eB48, 0x6B175474E89094C44Da98b954EedeAC495271d0F,
     0x1f9840a85d5aF5bf1D1762F925BDADdC4201F984, 0x7a250d5630B4cF539739dF2C5dAcb4c659F2488D,
     0x68b3465833fb72A70ecDF485E0e4C7bD8665Fc45, 0x7fc66500c84a76ad7e9c93437bfc5ac33e2ddae9,
     0x514910771AF9Ca656af840dff83E8264EcF986CA]"

record 'g rng =
  rg_range :: "u64 \<Rightarrow> u64 \<Rightarrow> 'g \<Rightarrow> u64 \<times> 'g"
  rg_bool :: "rat \<Rightarrow> 'g \<Rightarrow> bool \<times> 'g"
  rg_address :: "'g \<Rightarrow> address \<times> 'g"

text \<open>\<open>gen_range(lo..hi)\<close> panics on an empty range.\<close>

definition gen_range :: "'g rng \<Rightarrow> u64 \<Rightarrow> u64 \<Rightarrow> 'g \<Rightarrow> (u64 \<times> 'g) option" where
  "gen_range R lo hi g = (if lo < hi then Some (rg_range R lo hi g) else None)"

definition pick_address :: "'g rng \<Rightarrow> rat \<Rightarrow> address list \<Rightarrow> 'g \<Rightarrow> (address \<times> 'g) option" where
  "pick_address R p contracts g =
    (case rg_bool R p g of (known, g) \<Rightarrow>
       if known \<and> contracts \<noteq> []
       then (case gen_range R 0 (of_nat (length contracts)) g of
               None \<Rightarrow> None
             | Some (i, g) \<Rightarrow> if unat i < length contracts then Some (contracts ! unat i, g) else None)
       else Some (rg_address R g))"

definition pick_block :: "'g rng \<Rightarrow> u64 \<Rightarrow> 'g \<Rightarrow> (u64 \<times> 'g) option" where
  "pick_block R current_block g =
    (if current_block > 256 then gen_range R (current_block - 256) current_block g
     else gen_range R 1 (max current_block 2) g)"

datatype bench_op = BasicRef address | StorageRef address u256 | BlockHashRef u64

definition choose_op ::
  "'g rng \<Rightarrow> address list \<Rightarrow> u64 \<Rightarrow> 'g \<Rightarrow> (bench_op \<times> 'g) option" where
  "choose_op R contracts current_block g =
    (case gen_range R 0 3 g of
       None \<Rightarrow> None
     | Some (op_type, g) \<Rightarrow>
         (if op_type = 0 then map_option (\<lambda>(addr, g). (BasicRef addr, g)) (pick_address R (7 / 10) contracts g)
          else if op_type = 1 then
            (case pick_address R (8 / 10) contracts g of
               None \<Rightarrow> None
             | Some (addr, g) \<Rightarrow>
                 map_option (\<lambda>(slot, g). (StorageRef addr (ucast slot), g)) (gen_range R 0 100 g))
          else if op_type = 2 then
            map_option (\<lambda>(block_num, g). (BlockHashRef block_num, g)) (pick_block R current_block g)
          else None))"

text \<open>What the managers answer, and whether the read succeeds.\<close>

record ('e, 'c) replies =
  rp_account :: "account_request \<Rightarrow> ('e, 'c account_info option) recv_outcome"
  rp_storage :: "storage_request \<Rightarrow> ('e, u256) recv_outcome"
  rp_block_hash :: "block_hash_request \<Rightarrow> ('e, b256) recv_outcome"

definition is_ok :: "'e + 'a \<Rightarrow> bool" where
  "is_ok r = (case r of Inl _ \<Rightarrow> False | Inr _ \<Rightarrow> True)"

fun read_ok :: "('e, 'c) replies \<Rightarrow> ('c, 'w, 'l) static_state \<Rightarrow> bench_op \<Rightarrow> bool" where
  "read_ok rp st (BasicRef addr) = is_ok (snd (basic_ref (rp_account rp) addr st))"
| "read_ok rp st (StorageRef addr slot) = is_ok (snd (storage_ref (rp_storage rp) addr slot st))"
| "read_ok rp st (BlockHashRef n) = is_ok (snd (block_hash_ref (rp_block_hash rp) n st))"

fun kind_of :: "bench_op \<Rightarrow> lookup_kind" where
  "kind_of (BasicRef _) = AccountLookup"
| "kind_of (StorageRef _ _) = StorageLookup"
| "kind_of (BlockHashRef _) = BlockHashLookup"

section \<open>The threads\<close>

record 'g worker =
  wk_rng :: 'g
  wk_left :: nat
  wk_todo :: "access list"

text \<open>
  \<open>W\<close> is what the rest of the program lets a thread meet: the state whose block it looks at, the
  state it then reads, and the managers' answers.  A worker whose accesses are done chooses its
  next operation and reads; then it makes its accesses one by one.
\<close>

type_synonym ('e, 'c, 'w, 'l) meeting =
  "('c, 'w, 'l) static_state \<times> ('c, 'w, 'l) static_state \<times> ('e, 'c) replies"

inductive worker_step ::
  "'g rng \<Rightarrow> address list \<Rightarrow> ('e, 'c, 'w, 'l) meeting set \<Rightarrow> stats \<times> 'g worker \<Rightarrow> stats \<times> 'g worker \<Rightarrow> bool"
  for R contracts W where
  read: "wk_todo w = [] \<Longrightarrow> wk_left w = Suc n \<Longrightarrow> (seen, st, rp) \<in> W \<Longrightarrow>
    choose_op R contracts (st_block seen) (wk_rng w) = Some (op, g) \<Longrightarrow>
    worker_step R contracts W (s, w)
      (s, w\<lparr>wk_rng := g, wk_left := n,
            wk_todo := record_lookup (kind_of op) (read_ok rp st op) latency_us\<rparr>)"
| access: "wk_todo w = a # rest \<Longrightarrow>
    worker_step R contracts W (s, w) (access_step a s, w\<lparr>wk_todo := rest\<rparr>)"

text \<open>The threads, interleaved, and a run of so many steps.\<close>

inductive bench_step ::
  "'g rng \<Rightarrow> address list \<Rightarrow> ('e, 'c, 'w, 'l) meeting set
    \<Rightarrow> stats \<times> 'g worker list \<Rightarrow> stats \<times> 'g worker list \<Rightarrow> bool"
  for R contracts W where
  "i < length ws \<Longrightarrow> worker_step R contracts W (s, ws ! i) (s', w') \<Longrightarrow>
    bench_step R contracts W (s, ws) (s', ws[i := w'])"

definition spawn_workers :: "(u64 \<Rightarrow> 'g) \<Rightarrow> bench_config \<Rightarrow> 'g worker list option" where
  "spawn_workers seed_from_u64 cfg =
    map_option (\<lambda>ops. map (\<lambda>thread_id. \<lparr>wk_rng = seed_from_u64 (of_nat thread_id), wk_left = unat ops, wk_todo = []\<rparr>)
        [0..<unat (bc_num_threads cfg)])
      (ops_per_thread cfg)"

definition joined :: "'g worker list \<Rightarrow> bool" where
  "joined ws = list_all (\<lambda>w. wk_left w = 0 \<and> wk_todo w = []) ws"

inductive_cases worker_stepE: "worker_step R contracts W (s, w) (s', w')"
inductive_cases bench_stepE: "bench_step R contracts W (s, ws) (s', ws')"

end
