(* ===== verification/Bench_Props.thy ===== *)
theory Bench_Props
  imports Bench_Db
begin

text \<open>
  What the benchmark's report says: the counters at the join whatever the interleaving, the choice
  of operations, and the percentiles.
\<close>

section \<open>Work in progress\<close>

text \<open>What the threads still have to do, weighed access by access.\<close>

definition pending :: "(access \<Rightarrow> nat) \<Rightarrow> 'g worker \<Rightarrow> nat" where
  "pending f w = sum_list (map f (wk_todo w))"

definition pendings :: "(access \<Rightarrow> nat) \<Rightarrow> 'g worker list \<Rightarrow> nat" where
  "pendings f ws = sum_list (map (pending f) ws)"

definition lefts :: "'g worker list \<Rightarrow> nat" where
  "lefts ws = sum_list (map wk_left ws)"

lemma sum_list_swap:
  "i < length ws \<Longrightarrow> sum_list (map f (ws[i := w'])) + f (ws ! i) = sum_list (map f ws) + (f w' :: nat)"
proof (induction ws arbitrary: i)
  case Nil
  then show ?case by simp
next
  case (Cons w ws)
  then show ?case by (cases i) (auto simp: add_ac)
qed

lemma pendings_swap:
  "i < length ws \<Longrightarrow> pendings f (ws[i := w']) + pending f (ws ! i) = pendings f ws + pending f w'"
  by (simp add: pendings_def sum_list_swap)

lemma lefts_swap: "i < length ws \<Longrightarrow> lefts (ws[i := w']) + wk_left (ws ! i) = lefts ws + wk_left w'"
  by (simp add: lefts_def sum_list_swap)

lemma joined_pendings: "joined ws \<Longrightarrow> pendings f ws = 0"
  by (auto simp: joined_def pendings_def pending_def list_all_iff)

lemma joined_lefts: "joined ws \<Longrightarrow> lefts ws = 0"
  by (auto simp: joined_def lefts_def list_all_iff)

fun looks :: "lookup_kind \<Rightarrow> access \<Rightarrow> nat" where
  "looks k (AddLookup k') = (if k' = k then 1 else 0)"
| "looks k _ = 0"

fun scores :: "lookup_kind \<Rightarrow> access \<Rightarrow> nat" where
  "scores k (AddHit k') = (if k' = k then 1 else 0)"
| "scores k (AddError k') = (if k' = k then 1 else 0)"
| "scores k _ = 0"

fun pushes :: "access \<Rightarrow> nat" where
  "pushes (Push _) = 1"
| "pushes _ = 0"

definition all_looks :: "access \<Rightarrow> nat" where
  "all_looks a = looks AccountLookup a + looks StorageLookup a + looks BlockHashLookup a"

text \<open>
  The books of a run of \<open>n\<close> operations in all: counted and pending lookups are counted and pending
  verdicts, and with the operations still to come they are \<open>n\<close>, as are the latencies.
\<close>

definition books :: "nat \<Rightarrow> stats \<times> 'g worker list \<Rightarrow> bool" where
  "books n c \<longleftrightarrow> (case c of (s, ws) \<Rightarrow>
    (\<forall>k. bs_lookups s k + of_nat (pendings (looks k) ws)
         = bs_hits s k + bs_errors s k + of_nat (pendings (scores k) ws))
    \<and> total_ops s + of_nat (pendings all_looks ws) + of_nat (lefts ws) = of_nat n
    \<and> length (bs_latencies_us s) + pendings pushes ws + lefts ws = n)"

lemma pending_record [simp]:
  "pending f (w\<lparr>wk_rng := g, wk_left := n, wk_todo := record_lookup k ok us\<rparr>)
    = f (AddLookup k) + f (if ok then AddHit k else AddError k) + f (Push (ucast us))"
  by (simp add: pending_def record_lookup_def add.assoc)

lemma pending_access: "wk_todo w = a # rest \<Longrightarrow> pending f w = f a + pending f (w\<lparr>wk_todo := rest\<rparr>)"
  by (simp add: pending_def)

lemma pending_none: "wk_todo w = [] \<Longrightarrow> pending f w = 0"
  by (simp add: pending_def)

text \<open>One step moves the weights of one thread.\<close>

lemma bench_step_weights:
  assumes "bench_step R contracts W (s, ws) (s', ws')"
  obtains (read) k ok us where "s' = s" "Suc (lefts ws') = lefts ws"
      "\<And>f. pendings f ws' = pendings f ws + f (AddLookup k) + f (if ok then AddHit k else AddError k) + f (Push us)"
    | (access) a where "s' = access_step a s" "lefts ws' = lefts ws" "\<And>f. pendings f ws' + f a = pendings f ws"
  using assms
proof (rule bench_stepE)
  fix i w' assume i: "i < length ws" and w: "worker_step R contracts W (s, ws ! i) (s', w')" and ws': "ws' = ws[i := w']"
  note sw = pendings_swap [OF i, where w' = w', folded ws'] lefts_swap [OF i, where w' = w', folded ws']
  from w show ?thesis
  proof (rule worker_stepE)
    fix n seen st rp op g us
    assume t: "wk_todo (ws ! i) = []" "wk_left (ws ! i) = Suc n" and s: "s' = s"
      and w': "w' = (ws ! i)\<lparr>wk_rng := g, wk_left := n,
        wk_todo := record_lookup (kind_of op) (read_ok rp st op) us\<rparr>"
    show ?thesis
    proof (rule read [of "kind_of op" "read_ok rp st op" "ucast us"])
      show "Suc (lefts ws') = lefts ws" using sw(2) t(2) by (simp add: w')
      show "pendings f ws' = pendings f ws + f (AddLookup (kind_of op))
          + f (if read_ok rp st op then AddHit (kind_of op) else AddError (kind_of op)) + f (Push (ucast us))" for f
        using sw(1) [of f] pending_none [OF t(1), of f] by (simp add: w')
    qed (fact s)
  next
    fix a rest
    assume t: "wk_todo (ws ! i) = a # rest" and s: "s' = access_step a s" and w': "w' = (ws ! i)\<lparr>wk_todo := rest\<rparr>"
    show ?thesis
    proof (rule access [of a])
      show "lefts ws' = lefts ws" using sw(2) by (simp add: w')
      show "pendings f ws' + f a = pendings f ws" for f
        using sw(1) [of f] pending_access [OF t, of f] by (simp add: w')
    qed (fact s)
  qed
qed

lemma all_looks_simps [simp]:
  "all_looks (AddLookup k) = 1" "all_looks (AddHit k) = 0" "all_looks (AddError k) = 0" "all_looks (Push us) = 0"
  by (cases k; simp add: all_looks_def)+

lemma weights_if [simp]:
  "looks k (if b then AddHit k' else AddError k') = 0"
  "scores k (if b then AddHit k' else AddError k') = (if k' = k then 1 else 0)"
  "all_looks (if b then AddHit k' else AddError k') = 0"
  "pushes (if b then AddHit k' else AddError k') = 0"
  by (cases b; simp)+

lemma total_ops_access:
  "total_ops (access_step a s) = total_ops s + of_nat (all_looks a)"
proof (cases a)
  case (AddLookup k)
  then show ?thesis by (cases k) (simp_all add: total_ops_def algebra_simps)
qed (simp_all add: total_ops_def)

lemma books_step:
  assumes "bench_step R contracts W (s, ws) (s', ws')" and "books n (s, ws)"
  shows "books n (s', ws')"
proof -
  from assms(2) have
    1: "bs_lookups s k + of_nat (pendings (looks k) ws)
      = bs_hits s k + bs_errors s k + of_nat (pendings (scores k) ws)" and
    2: "total_ops s + of_nat (pendings all_looks ws) + of_nat (lefts ws) = of_nat n" and
    3: "length (bs_latencies_us s) + pendings pushes ws + lefts ws = n" for k
    by (simp_all add: books_def)
  from assms(1) show ?thesis
  proof (cases rule: bench_step_weights)
    case (read k ok us)
    have "of_nat (lefts ws) = (of_nat (lefts ws') + 1 :: u64)" unfolding read(2) [symmetric] by simp
    with 2 have "total_ops s + of_nat (pendings all_looks ws') + of_nat (lefts ws') = of_nat n"
      by (simp add: read(3) algebra_simps)
    moreover have "length (bs_latencies_us s) + pendings pushes ws' + lefts ws' = n"
      using 3 read(2) by (simp add: read(3))
    moreover have "bs_lookups s k' + of_nat (pendings (looks k') ws')
        = bs_hits s k' + bs_errors s k' + of_nat (pendings (scores k') ws')" for k'
      using 1 [of k'] by (simp add: read(3) algebra_simps)
    ultimately show ?thesis by (simp add: books_def read(1))
  next
    case (access a)
    note old = access(3) [symmetric]
    have "total_ops s' + of_nat (pendings all_looks ws') + of_nat (lefts ws') = of_nat n"
      using 2 by (simp add: access(1,2) total_ops_access old [of all_looks] algebra_simps)
    moreover have "length (bs_latencies_us s') + pendings pushes ws' + lefts ws' = n"
      using 3 by (cases a) (simp_all add: access(1,2) old [of pushes])
    moreover have "bs_lookups s' k + of_nat (pendings (looks k) ws')
        = bs_hits s' k + bs_errors s' k + of_nat (pendings (scores k) ws')" for k
      using 1 [of k] unfolding old [of "looks k"] old [of "scores k"] access(1)
      by (cases a) (auto simp: algebra_simps)
    ultimately show ?thesis by (simp add: books_def)
  qed
qed

text \<open>A run of so many steps; each of them is one of the four an operation takes.\<close>

inductive bench_run ::
  "'g rng \<Rightarrow> address list \<Rightarrow> ('e, 'c, 'w, 'l) meeting set \<Rightarrow> nat
    \<Rightarrow> stats \<times> 'g worker list \<Rightarrow> stats \<times> 'g worker list \<Rightarrow> bool"
  for R contracts W where
  stop: "bench_run R contracts W 0 c c"
| step: "bench_step R contracts W c c' \<Longrightarrow> bench_run R contracts W n c' c'' \<Longrightarrow> bench_run R contracts W (Suc n) c c''"

definition to_do :: "'g worker list \<Rightarrow> nat" where
  "to_do ws = 4 * lefts ws + pendings (\<lambda>_. 1) ws"

lemma step_to_do: "bench_step R contracts W (s, ws) (s', ws') \<Longrightarrow> to_do ws = Suc (to_do ws')"
proof (erule bench_step_weights)
  fix k ok us
  assume "Suc (lefts ws') = lefts ws"
    and "\<And>f. pendings f ws' = pendings f ws + f (AddLookup k) + f (if ok then AddHit k else AddError k) + f (Push us)"
  then show ?thesis by (simp add: to_do_def)
next
  fix a
  assume "lefts ws' = lefts ws" and "\<And>f. pendings f ws' + f a = pendings f ws"
  from this(1) this(2) [of "\<lambda>_. 1"] show ?thesis by (simp add: to_do_def)
qed

lemma run_books:
  "bench_run R contracts W m c c' \<Longrightarrow> books n c \<Longrightarrow> books n c' \<and> to_do (snd c) = m + to_do (snd c')"
proof (induction rule: bench_run.induct)
  case (stop c)
  then show ?case by simp
next
  case (step c c' m c'')
  obtain s ws s' ws' where "c = (s, ws)" "c' = (s', ws')" by (cases c; cases c')
  with step books_step [of R contracts W s ws s' ws' n] step_to_do [of R contracts W s ws s' ws']
  show ?case by simp
qed

lemma joined_iff: "joined ws \<longleftrightarrow> to_do ws = 0"
proof
  assume "joined ws"
  then show "to_do ws = 0" by (simp add: to_do_def joined_pendings joined_lefts)
next
  assume "to_do ws = 0"
  then have "\<forall>w \<in> set ws. wk_left w = 0 \<and> length (wk_todo w) = 0"
    by (auto simp: to_do_def lefts_def pendings_def pending_def sum_list_triv)
  then show "joined ws" by (simp add: joined_def list_all_iff)
qed

section \<open>Choosing an operation\<close>

text \<open>The documented contract of \<open>gen_range\<close>.\<close>

definition rng_in_range :: "'g rng \<Rightarrow> bool" where
  "rng_in_range R \<longleftrightarrow>
    (\<forall>lo hi g. lo < hi \<longrightarrow> lo \<le> fst (rg_range R lo hi g) \<and> fst (rg_range R lo hi g) < hi)"

lemma gen_range_in:
  assumes "rng_in_range R" and "lo < hi"
  obtains x g' where "gen_range R lo hi g = Some (x, g')" "lo \<le> x" "x < hi"
proof (rule that)
  show "gen_range R lo hi g = Some (fst (rg_range R lo hi g), snd (rg_range R lo hi g))"
    using assms(2) by (simp add: gen_range_def)
qed (use assms in \<open>simp_all add: rng_in_range_def\<close>)

lemma pick_address_total:
  assumes "rng_in_range R" and "length contracts < 2 ^ 64"
  shows "pick_address R p contracts g \<noteq> None"
proof -
  obtain known g1 where b: "rg_bool R p g = (known, g1)" by (cases "rg_bool R p g")
  show ?thesis
  proof (cases "known \<and> contracts \<noteq> []")
    case True
    have u: "unat (of_nat (length contracts) :: u64) = length contracts"
      using assms(2) by (simp add: unat_of_nat)
    then have "(0 :: u64) < of_nat (length contracts)" using True by (simp add: word_less_nat_alt)
    from gen_range_in [OF assms(1) this, of g1] obtain i g2 where
      i: "gen_range R 0 (of_nat (length contracts)) g1 = Some (i, g2)" "i < of_nat (length contracts)" by blast
    then have "unat i < length contracts" using u by (simp add: word_less_nat_alt)
    with b True i(1) show ?thesis by (simp add: pick_address_def)
  next
    case False
    with b show ?thesis by (cases known) (simp_all add: pick_address_def)
  qed
qed

text \<open>
  The number asked for is one of the 256 before the block the thread saw, except that at the
  blocks 0 and 1 it is 1.
\<close>

lemma pick_block_window:
  assumes "rng_in_range R"
  obtains n g' where "pick_block R b g = Some (n, g')"
    "256 < b \<Longrightarrow> b - 256 \<le> n \<and> n < b" "b \<le> 256 \<Longrightarrow> 1 \<le> n \<and> n < max b 2"
proof (cases "256 < b")
  case True
  then have "b - 256 < b" by (simp add: word_less_nat_alt unat_sub word_le_nat_alt)
  from gen_range_in [OF assms this, of g] obtain n g' where
    "gen_range R (b - 256) b g = Some (n, g')" "b - 256 \<le> n" "n < b" by blast
  with True show ?thesis by (intro that [of n g']) (simp_all add: pick_block_def)
next
  case False
  have "(1 :: u64) < max b 2" by (simp add: less_max_iff_disj)
  from gen_range_in [OF assms this, of g] obtain n g' where
    "gen_range R 1 (max b 2) g = Some (n, g')" "1 \<le> n" "n < max b 2" by blast
  with False show ?thesis by (intro that [of n g']) (simp_all add: pick_block_def)
qed

lemma choose_op_total:
  assumes "rng_in_range R" and "length contracts < 2 ^ 64"
  shows "choose_op R contracts b g \<noteq> None"
proof -
  from gen_range_in [OF assms(1), of 0 3 g] obtain t g1 where
    t: "gen_range R 0 3 g = Some (t, g1)" "t < 3" by auto
  have "unat t < 3" using t(2) by (simp add: word_less_nat_alt)
  then have "unat t = 0 \<or> unat t = 1 \<or> unat t = 2" by linarith
  moreover have "t = of_nat k" if "unat t = k" for k using that by auto
  ultimately have cases: "t = 0 \<or> t = 1 \<or> t = 2" by fastforce
  obtain a7 g7 where p7: "pick_address R (7 / 10) contracts g1 = Some (a7, g7)"
    using pick_address_total [OF assms, of "7 / 10" g1] by auto
  obtain a8 g8 where p8: "pick_address R (8 / 10) contracts g1 = Some (a8, g8)"
    using pick_address_total [OF assms, of "8 / 10" g1] by auto
  obtain sl g9 where s: "gen_range R 0 100 g8 = Some (sl, g9)"
    by (cases "rg_range R 0 100 g8") (simp add: gen_range_def)
  obtain n gn where b: "pick_block R b g1 = Some (n, gn)"
    using pick_block_window [OF assms(1), of b g1] by blast
  from cases show ?thesis
    using t(1) p7 p8 s b by (elim disjE) (simp_all add: choose_op_def)
qed

section \<open>The threads make progress\<close>

lemma bench_progress:
  assumes "rng_in_range R" and "length contracts < 2 ^ 64" and "W \<noteq> {}" and "\<not> joined ws"
  shows "\<exists>c'. bench_step R contracts W (s, ws) c'"
proof -
  from assms(4) obtain i where i: "i < length ws" "wk_left (ws ! i) \<noteq> 0 \<or> wk_todo (ws ! i) \<noteq> []"
    by (auto simp: joined_def list_all_length)
  have "\<exists>s' w'. worker_step R contracts W (s, ws ! i) (s', w')"
  proof (cases "wk_todo (ws ! i)")
    case Nil
    with i(2) obtain n where n: "wk_left (ws ! i) = Suc n" by (cases "wk_left (ws ! i)") auto
    obtain seen st rp where w: "(seen, st, rp) \<in> W" using assms(3) by (metis ex_in_conv prod_cases3)
    obtain op g where "choose_op R contracts (st_block seen) (wk_rng (ws ! i)) = Some (op, g)"
      using choose_op_total [OF assms(1,2), of "st_block seen" "wk_rng (ws ! i)"] by auto
    from worker_step.read [OF Nil n w this] show ?thesis by blast
  next
    case (Cons a rest)
    from worker_step.access [OF this] show ?thesis by blast
  qed
  with i(1) show ?thesis by (blast intro: bench_step.intros)
qed

lemma spawned_books:
  assumes "spawn_workers seed_from_u64 cfg = Some ws"
  defines "n \<equiv> unat (bc_num_operations cfg) - unat (bc_num_operations cfg) mod unat (bc_num_threads cfg)"
  shows "books n (stats_start, ws)" and "to_do ws = 4 * n"
proof -
  let ?t = "unat (bc_num_threads cfg)" and ?o = "unat (bc_num_operations cfg)"
  from assms(1) have ws: "ws = map (\<lambda>thread_id. \<lparr>wk_rng = seed_from_u64 (of_nat thread_id), wk_left = ?o div ?t,
      wk_todo = []\<rparr>) [0..<?t]"
    by (auto simp: spawn_workers_def ops_per_thread_def unat_div split: if_splits)
  have l: "lefts ws = n"
    by (simp add: ws lefts_def n_def comp_def sum_list_triv minus_mod_eq_mult_div)
  have p: "pendings f ws = 0" for f by (simp add: ws pendings_def pending_def comp_def sum_list_triv)
  show "books n (stats_start, ws)" by (simp add: books_def l p stats_start_def total_ops_def)
  show "to_do ws = 4 * n" by (simp add: to_do_def l p)
qed

lemma run_to_join:
  assumes "rng_in_range R" and "length contracts < 2 ^ 64" and "W \<noteq> {}"
  shows "\<exists>s' ws'. bench_run R contracts W (to_do ws) (s, ws) (s', ws') \<and> joined ws'"
proof (induction "to_do ws" arbitrary: s ws)
  case 0
  then show ?case using bench_run.stop by (metis joined_iff)
next
  case (Suc n)
  then have "\<not> joined ws" by (simp add: joined_iff)
  from bench_progress [OF assms this] obtain s1 ws1 where st: "bench_step R contracts W (s, ws) (s1, ws1)"
    by (metis surj_pair)
  from step_to_do [OF st] Suc(2) have n: "n = to_do ws1" by simp
  from Suc(1) [OF this] st show ?case unfolding Suc(2) [symmetric] n by (blast intro: bench_run.step)
qed

section \<open>Percentiles\<close>

lemma get_or_0_nth: "unat i < length xs \<Longrightarrow> get_or_0 xs i = xs ! unat i"
  by (simp add: get_or_0_def)

lemma share_index:
  assumes "xs \<noteq> ([] :: u64 list)" and "length xs * 100 < 2 ^ 64" and "k < 100"
  shows "unat (of_nat (length xs) * of_nat k div 100 :: u64) = length xs * k div 100"
    and "length xs * k div 100 < length xs"
proof -
  have "length xs * k < length xs * 100" using assms(1,3) by simp
  then have "length xs * k < 2 ^ 64" using assms(2) by linarith
  moreover have "length xs < 2 ^ 64" "k < 2 ^ 64" using assms(2,3) by simp_all
  ultimately have "unat (of_nat (length xs) * of_nat k :: u64) = length xs * k"
    by (simp add: unat_word_ariths unat_of_nat)
  then show "unat (of_nat (length xs) * of_nat k div 100 :: u64) = length xs * k div 100"
    by (simp add: unat_div)
  show "length xs * k div 100 < length xs"
    using \<open>length xs * k < length xs * 100\<close> by (simp add: less_mult_imp_div_less)
qed

lemma sort_eq_Nil: "sort xs = [] \<longleftrightarrow> xs = []"
  by (metis length_0_conv length_sort)

lemma percentiles_ordered:
  assumes "bs_latencies_us s \<noteq> []" and "length (bs_latencies_us s) * 100 < 2 ^ 64"
  shows "p50 s \<le> p95 s" and "p95 s \<le> p99 s" and "{p50 s, p95 s, p99 s} \<subseteq> set (bs_latencies_us s)"
proof -
  let ?xs = "sorted_latencies s"
  have xs: "?xs \<noteq> []" "length ?xs * 100 < 2 ^ 64" "sorted ?xs" "set ?xs = set (bs_latencies_us s)"
    using assms by (simp_all add: sorted_latencies_def sort_eq_Nil)
  note ix = share_index [OF xs(1,2)]
  have half: "unat (of_nat (length ?xs) div 2 :: u64) = length ?xs div 2" "length ?xs div 2 < length ?xs"
    using xs(1,2) by (simp_all add: unat_div unat_of_nat)
  have p50: "p50 s = ?xs ! (length ?xs div 2)"
    using half by (simp add: p50_def Let_def get_or_0_nth)
  have p95: "p95 s = ?xs ! (length ?xs * 95 div 100)"
    using ix [of 95] by (simp add: p95_def Let_def get_or_0_nth)
  have p99: "p99 s = ?xs ! (length ?xs * 99 div 100)"
    using ix [of 99] by (simp add: p99_def Let_def get_or_0_nth)
  have "length ?xs div 2 \<le> length ?xs * 95 div 100" by linarith
  then show "p50 s \<le> p95 s" unfolding p50 p95 using xs(3) ix(2) [of 95] by (intro sorted_nth_mono) simp_all
  have "length ?xs * 95 div 100 \<le> length ?xs * 99 div 100" by (intro div_le_mono) simp
  then show "p95 s \<le> p99 s" unfolding p95 p99 using xs(3) ix(2) [of 99] by (intro sorted_nth_mono) simp_all
  show "{p50 s, p95 s, p99 s} \<subseteq> set (bs_latencies_us s)"
    unfolding p50 p95 p99 xs(4) [symmetric] using half(2) ix(2) [of 95] ix(2) [of 99] by simp
qed

section \<open>Properties\<close>

text \<open>
  C32: whatever the threads draw, meet and interleave, they join after exactly four steps per
  operation and never panic on the way; at the join every lookup has its verdict, and the report counts
  as many operations and latencies as the threads made together, which is the requested number less
  the remainder of its division by the number of threads.
\<close>

theorem bench_joins_with_exact_counts:
  assumes "rng_in_range R" and "length contracts < 2 ^ 64" and "W \<noteq> {}"
    and "spawn_workers seed_from_u64 cfg = Some ws"
    and "bench_run R contracts W m (stats_start, ws) (s, ws')"
  shows "let n = unat (bc_num_operations cfg) - unat (bc_num_operations cfg) mod unat (bc_num_threads cfg)
    in (joined ws' \<longleftrightarrow> m = 4 * n)
     \<and> (\<not> joined ws' \<longrightarrow> m < 4 * n \<and> (\<exists>c'. bench_step R contracts W (s, ws') c'))
     \<and> (joined ws' \<longrightarrow> (\<forall>k. bs_lookups s k = bs_hits s k + bs_errors s k)
          \<and> unat (total_ops s) = n \<and> length (bs_latencies_us s) = n)"
proof -
  let ?n = "unat (bc_num_operations cfg) - unat (bc_num_operations cfg) mod unat (bc_num_threads cfg)"
  from run_books [OF assms(5) spawned_books(1) [OF assms(4)]] spawned_books(2) [OF assms(4)]
  have b: "books ?n (s, ws')" and m: "4 * ?n = m + to_do ws'" by simp_all
  have small: "?n < 2 ^ 64" using unsigned_less [of "bc_num_operations cfg", where ?'a = nat] by simp
  have fin: "(\<forall>k. bs_lookups s k = bs_hits s k + bs_errors s k) \<and> unat (total_ops s) = ?n
      \<and> length (bs_latencies_us s) = ?n" if "joined ws'"
  proof -
    have "total_ops s = of_nat ?n" using b that by (simp add: books_def joined_pendings joined_lefts)
    then have "unat (total_ops s) = ?n" using small by (simp only: unat_of_nat) simp
    with b that show ?thesis by (simp add: books_def joined_pendings joined_lefts)
  qed
  show ?thesis
    unfolding Let_def using joined_iff [of ws'] m fin bench_progress [OF assms(1-3), of ws' s] by auto
qed

text \<open>Seven operations on two threads: six are made.\<close>

definition demo_rng :: "unit rng" where
  "demo_rng = \<lparr>rg_range = (\<lambda>lo hi g. (lo, g)), rg_bool = (\<lambda>p g. (True, g)), rg_address = (\<lambda>g. (0, g))\<rparr>"

definition demo_bench :: bench_config where
  "demo_bench = bench_args [''bench_db'', ''--ops'', ''7'', ''--threads'', ''2'']"

theorem bench_joins_with_exact_counts_witness:
  "\<exists>ws s ws'. spawn_workers (\<lambda>_. ()) demo_bench = Some ws
     \<and> bench_run demo_rng KNOWN_CONTRACTS (UNIV :: (unit, nat, nat, nat) meeting set) 24 (stats_start, ws) (s, ws')
     \<and> unat (bc_num_operations demo_bench) = 7 \<and> unat (total_ops s) = 6"
proof -
  have args: "bc_num_operations demo_bench = 7" "bc_num_threads demo_bench = 2"
    by (simp_all add: demo_bench_def bench_args_def parse_u64_def is_digit_def value_of_def)
  have r: "rng_in_range demo_rng" by (simp add: rng_in_range_def demo_rng_def)
  have c: "length KNOWN_CONTRACTS < 2 ^ 64" by (simp add: KNOWN_CONTRACTS_def)
  obtain ws where ws: "spawn_workers (\<lambda>_. ()) demo_bench = Some ws"
    by (simp add: spawn_workers_def ops_per_thread_def args)
  have t: "to_do ws = 24" using spawned_books(2) [OF ws] by (simp add: args)
  from run_to_join [OF r c UNIV_not_empty, of ws stats_start] obtain s ws' where
    run: "bench_run demo_rng KNOWN_CONTRACTS (UNIV :: (unit, nat, nat, nat) meeting set) 24 (stats_start, ws) (s, ws')"
    and "joined ws'" unfolding t by blast
  with bench_joins_with_exact_counts [OF r c UNIV_not_empty ws run] have "unat (total_ops s) = 6"
    by (simp add: args)
  with ws run args show ?thesis by auto
qed

end
