(* ===== verification/Parity_Example.thy ===== *)
theory Parity_Example
  imports Snapshot
begin

text \<open>
  \<open>rex-sim/examples/parity.rs\<close>, the pure helpers: the attributes of the next block, the decoder
  of Solidity revert reasons and the function selector.  \<open>usize\<close> is 64 bits; the additions are
  as a release build makes them, and a slice out of order or out of range is a panic, \<open>None\<close>
  of the outer option.
\<close>

record 'w next_block_env_attributes =
  nb_timestamp :: u64
  nb_suggested_fee_recipient :: address
  nb_prev_randao :: b256
  nb_gas_limit :: u64
  nb_parent_beacon_block_root :: "b256 option"
  nb_withdrawals :: "'w option"
  nb_extra_data :: bytes
  nb_slot_number :: "u64 option"

definition build_next_block_attributes ::
  "sealed_header \<Rightarrow> 'w option \<Rightarrow> 'w next_block_env_attributes" where
  "build_next_block_attributes header withdrawals = \<lparr>
     nb_timestamp = sh_timestamp header + 12,
     nb_suggested_fee_recipient = 0,
     nb_prev_randao = sh_mix_hash header,
     nb_gas_limit = sh_gas_limit header,
     nb_parent_beacon_block_root = sh_parent_beacon_block_root header,
     nb_withdrawals = withdrawals,
     nb_extra_data = [],
     nb_slot_number = None\<rparr>"

text \<open>\<open>&data[a..b]\<close>\<close>

definition slice :: "'a list \<Rightarrow> u64 \<Rightarrow> u64 \<Rightarrow> 'a list option" where
  "slice data a b =
    (if a \<le> b \<and> unat b \<le> length data then Some (take (unat b - unat a) (drop (unat a) data)) else None)"

text \<open>\<open>String::from_utf8\<close>: the well-formed byte sequences of the standard.\<close>

fun utf8 :: "bytes \<Rightarrow> bool" where
  "utf8 [] = True"
| "utf8 (a # bs) =
    (if a < 0x80 then utf8 bs
     else if 0xC2 \<le> a \<and> a \<le> 0xDF then
       (case bs of b # cs \<Rightarrow> 0x80 \<le> b \<and> b \<le> 0xBF \<and> utf8 cs | _ \<Rightarrow> False)
     else if 0xE0 \<le> a \<and> a \<le> 0xEF then
       (case bs of b # c # ds \<Rightarrow>
          (if a = 0xE0 then 0xA0 else 0x80) \<le> b \<and> b \<le> (if a = 0xED then 0x9F else 0xBF)
          \<and> 0x80 \<le> c \<and> c \<le> 0xBF \<and> utf8 ds
        | _ \<Rightarrow> False)
     else if 0xF0 \<le> a \<and> a \<le> 0xF4 then
       (case bs of b # c # d # es \<Rightarrow>
          (if a = 0xF0 then 0x90 else 0x80) \<le> b \<and> b \<le> (if a = 0xF4 then 0x8F else 0xBF)
          \<and> 0x80 \<le> c \<and> c \<le> 0xBF \<and> 0x80 \<le> d \<and> d \<le> 0xBF \<and> utf8 es
        | _ \<Rightarrow> False)
     else False)"

definition from_utf8 :: "bytes \<Rightarrow> bytes option" where
  "from_utf8 bs = (if utf8 bs then Some bs else None)"

text \<open>\<open>u64::from_be_bytes\<close> of eight bytes.\<close>

definition u64_from_be :: "bytes \<Rightarrow> u64" where
  "u64_from_be bs = of_nat (be_value bs)"

definition decode_revert_message :: "bytes \<Rightarrow> bytes option option" where
  "decode_revert_message data =
    (if length data < 68 \<or> take 4 data \<noteq> [0x08, 0xc3, 0x79, 0xa0] then Some None
     else
       (let len_offset = 36 :: u64
        in if length data < unat (len_offset + 32) then Some None
           else case slice data (len_offset + 24) (len_offset + 32) of
             None \<Rightarrow> None
           | Some field \<Rightarrow>
               (let len = u64_from_be field;
                    str_start = len_offset + 32
                in if length data < unat (str_start + len) then Some None
                   else case slice data str_start (str_start + len) of
                     None \<Rightarrow> None
                   | Some s \<Rightarrow> Some (from_utf8 s))))"

definition hex_digit :: "nat \<Rightarrow> char" where
  "hex_digit d = char_of (if d < 10 then 48 + d else 87 + d)"

definition hex2 :: "u8 \<Rightarrow> string" where
  "hex2 b = [hex_digit (unat b div 16), hex_digit (unat b mod 16)]"

definition get_selector :: "bytes \<Rightarrow> string option" where
  "get_selector input =
    (if 4 \<le> length input
     then Some (''0x'' @ hex2 (input ! 0) @ hex2 (input ! 1) @ hex2 (input ! 2) @ hex2 (input ! 3))
     else None)"

section \<open>Facts\<close>

text \<open>The ABI encoding of a revert with a reason: selector, offset, length, text, padding.\<close>

definition encode_revert :: "bytes \<Rightarrow> bytes \<Rightarrow> bytes" where
  "encode_revert msg padding =
    [0x08, 0xc3, 0x79, 0xa0] @ be_digits 32 32 @ be_digits 32 (length msg) @ msg @ padding"

lemma length_be_digits [simp]: "length (be_digits n x) = n"
  by (induction n x rule: be_digits.induct) simp_all

lemma be_digits_drop: "drop k (be_digits (k + n) x) = be_digits n x"
  by (induction n arbitrary: x) simp_all

text \<open>The length field of \<open>data\<close>.\<close>

definition len_field :: "bytes \<Rightarrow> u64" where
  "len_field data = u64_from_be (take 8 (drop 60 data))"

lemma decode_cases:
  assumes "68 \<le> length data" and "take 4 data = [0x08, 0xc3, 0x79, 0xa0]" and "length data < 2 ^ 64"
  shows "decode_revert_message data =
    (if 68 + unat (len_field data) < 2 ^ 64
     then (if length data < 68 + unat (len_field data) then Some None
           else Some (from_utf8 (take (unat (len_field data)) (drop 68 data))))
     else None)"
proof -
  let ?n = "unat (len_field data)"
  have f: "slice data (36 + 24) (36 + 32) = Some (take 8 (drop 60 data))"
    using assms(1) by (simp add: slice_def)
  have "?n < 2 ^ LENGTH(64)" by (rule unsigned_less)
  then have n: "?n < 2 ^ 64" by simp
  have sum: "unat (36 + 32 + len_field data) = (68 + ?n) mod 2 ^ 64"
    by (simp add: unat_word_ariths)
  show ?thesis
  proof (cases "68 + ?n < 2 ^ 64")
    case True
    then have s: "unat (36 + 32 + len_field data) = 68 + ?n" using sum by simp
    then have "(36 + 32 :: u64) \<le> 36 + 32 + len_field data" by (simp add: word_le_nat_alt)
    with True s f assms(1,2) show ?thesis
      by (simp add: decode_revert_message_def Let_def slice_def len_field_def)
  next
    case False
    with n have s: "unat (36 + 32 + len_field data) = 68 + ?n - 2 ^ 64"
      using sum by (simp add: mod_if)
    with n have lt: "unat (36 + 32 + len_field data) < 68" by linarith
    then have "slice data (36 + 32) (36 + 32 + len_field data) = None"
      by (simp add: slice_def word_le_nat_alt)
    with False f lt assms(1,2) show ?thesis
      by (simp add: decode_revert_message_def Let_def len_field_def)
  qed
qed

lemma len_field_encode:
  assumes "length msg < 2 ^ 64"
  shows "unat (len_field (encode_revert msg padding)) = length msg"
proof -
  have "drop 24 (be_digits 32 (length msg)) = be_digits 8 (length msg)"
    using be_digits_drop [of 24 8 "length msg"] by simp
  then have "take 8 (drop 60 (encode_revert msg padding)) = be_digits 8 (length msg)"
    by (simp add: encode_revert_def)
  then have "len_field (encode_revert msg padding) = of_nat (length msg mod 256 ^ 8)"
    by (simp add: len_field_def u64_from_be_def be_value_digits)
  with assms show ?thesis by (simp add: unat_of_nat)
qed

text \<open>Revert data whose length field is \<open>2^64 - 1\<close>.\<close>

definition demo_bomb :: bytes where
  "demo_bomb = [0x08, 0xc3, 0x79, 0xa0] @ replicate 56 0 @ replicate 8 0xff"

lemma demo_bomb_facts:
  "length demo_bomb = 68" "take 4 demo_bomb = [0x08, 0xc3, 0x79, 0xa0]"
  "unat (len_field demo_bomb) = 18446744073709551615"
proof -
  let ?ff = "[0xff, 0xff, 0xff, 0xff, 0xff, 0xff, 0xff, 0xff] :: bytes"
  have "replicate 8 0xff = ?ff" by (simp add: eval_nat_numeral)
  then have f: "take 8 (drop 60 demo_bomb) = ?ff" by (simp add: demo_bomb_def)
  have "be_value ?ff = 18446744073709551615" by (simp add: be_value_def)
  then show "unat (len_field demo_bomb) = 18446744073709551615"
    unfolding len_field_def f u64_from_be_def by (simp only: unat_of_nat) simp
qed (simp_all add: demo_bomb_def)

lemma demo_bomb_panics: "decode_revert_message demo_bomb = None"
  by (simp add: decode_cases demo_bomb_facts)

section \<open>Properties\<close>

text \<open>
  C39: the decoder reads back the reason of every ABI-encoded revert whose text is valid
  UTF-8, whatever padding follows.
\<close>

theorem decode_revert_roundtrip:
  assumes "utf8 msg" and "length (encode_revert msg padding) < 2 ^ 64"
  shows "decode_revert_message (encode_revert msg padding) = Some (Some msg)"
proof -
  let ?d = "encode_revert msg padding"
  have len: "length ?d = 68 + length msg + length padding" by (simp add: encode_revert_def)
  have sel: "take 4 ?d = [0x08, 0xc3, 0x79, 0xa0]" by (simp add: encode_revert_def)
  have msg: "take (length msg) (drop 68 ?d) = msg" by (simp add: encode_revert_def)
  have "length msg < 2 ^ 64" using assms(2) len by simp
  from len_field_encode [OF this, of padding] decode_cases [OF _ sel assms(2)] assms len msg
  show ?thesis by (simp add: from_utf8_def)
qed

theorem decode_revert_roundtrip_witness:
  "decode_revert_message (encode_revert [0x6e, 0x6f] [0, 0]) = Some (Some [0x6e, 0x6f])"
  by (rule decode_revert_roundtrip) (simp_all add: encode_revert_def)

text \<open>
  The decoder panics on exactly the revert data whose length field, added to the start of
  the text, does not fit a \<open>usize\<close>; the bound check before the slice does not catch it.
\<close>

theorem decode_revert_panics_iff:
  assumes "length data < 2 ^ 64"
  shows "decode_revert_message data = None \<longleftrightarrow>
    68 \<le> length data \<and> take 4 data = [0x08, 0xc3, 0x79, 0xa0] \<and> 2 ^ 64 \<le> 68 + unat (len_field data)"
proof (cases "68 \<le> length data \<and> take 4 data = [0x08, 0xc3, 0x79, 0xa0]")
  case True
  with decode_cases [OF _ _ assms] show ?thesis by (auto simp: not_less)
next
  case False
  then have "decode_revert_message data = Some None"
    by (auto simp: decode_revert_message_def)
  with False show ?thesis by auto
qed

theorem decode_revert_panics_iff_witness: "decode_revert_message demo_bomb = None"
  using decode_revert_panics_iff [of demo_bomb] by (simp add: demo_bomb_facts)

end
