(* ===== verification/Parity_Report.thy ===== *)
theory Parity_Report
  imports Float64
begin

text \<open>
  \<open>rex-sim/examples/parity.rs\<close>: the mode, the counters that accumulate over the blocks
  simulated, and the text report written at the end.  The report is the content of the file;
  that creating or writing the file may fail is left out.  Strings are UTF-8 bytes.
\<close>

section \<open>The mode\<close>

datatype parity_mode = Call | Simulate | Both

text \<open>\<open>str::to_lowercase\<close>: no character outside ASCII has one of the names' letters as its lower case.\<close>

definition lower :: "char \<Rightarrow> char" where
  "lower c = (if 65 \<le> (of_char c :: nat) \<and> (of_char c :: nat) \<le> 90 then char_of ((of_char c :: nat) + 32) else c)"

definition mode_from_str :: "string \<Rightarrow> parity_mode" where
  "mode_from_str s =
    (let s = map lower s
     in if s = ''simulate'' \<or> s = ''sim'' then Simulate else if s = ''both'' then Both else Call)"

fun show_mode :: "parity_mode \<Rightarrow> string" where
  "show_mode Call = ''Call''"
| "show_mode Simulate = ''Simulate''"
| "show_mode Both = ''Both''"

section \<open>The counters\<close>

record parity_report =
  pr_first_block :: "u64 option"
  pr_last_block :: "u64 option"
  pr_blocks_simulated :: u64
  pr_total_txs :: u64
  pr_total_contract_calls :: u64
  pr_total_eip7702_txs :: u64
  pr_total_parity_call :: u64
  pr_total_parity_mismatch_call :: u64
  pr_total_parity_simulate :: u64
  pr_total_parity_mismatch_simulate :: u64
  pr_total_gas :: u64
  pr_total_simulation_time_ms :: u128
  pr_parity_mode :: "parity_mode option"

definition report_default :: parity_report where
  "report_default = \<lparr>pr_first_block = None, pr_last_block = None, pr_blocks_simulated = 0,
     pr_total_txs = 0, pr_total_contract_calls = 0, pr_total_eip7702_txs = 0,
     pr_total_parity_call = 0, pr_total_parity_mismatch_call = 0,
     pr_total_parity_simulate = 0, pr_total_parity_mismatch_simulate = 0, pr_total_gas = 0,
     pr_total_simulation_time_ms = 0, pr_parity_mode = None\<rparr>"

definition update_block_range :: "u64 \<Rightarrow> parity_report \<Rightarrow> parity_report" where
  "update_block_range block r =
    (let r = (if pr_first_block r = None then r\<lparr>pr_first_block := Some block\<rparr> else r)
     in r\<lparr>pr_last_block := Some block, pr_blocks_simulated := pr_blocks_simulated r + 1\<rparr>)"

definition avg_simulation_time_ms :: "parity_report \<Rightarrow> rat" where
  "avg_simulation_time_ms r =
    (if pr_blocks_simulated r = 0 then 0
     else f64_div (f64_of_word (pr_total_simulation_time_ms r)) (f64_of_word (pr_blocks_simulated r)))"

definition parity_rate_call :: "parity_report \<Rightarrow> rat" where
  "parity_rate_call r =
    (let total = pr_total_parity_call r + pr_total_parity_mismatch_call r
     in if 0 < total then f64_mul (f64_div (f64_of_word (pr_total_parity_call r)) (f64_of_word total)) 100
        else 0)"

definition parity_rate_simulate :: "parity_report \<Rightarrow> rat" where
  "parity_rate_simulate r =
    (let total = pr_total_parity_simulate r + pr_total_parity_mismatch_simulate r
     in if 0 < total then f64_mul (f64_div (f64_of_word (pr_total_parity_simulate r)) (f64_of_word total)) 100
        else 0)"

section \<open>The report\<close>

text \<open>59 times the box-drawing characters U+2550 and U+2500, in UTF-8.\<close>

definition double_rule :: string where
  "double_rule = concat (replicate 59 [CHR 0xE2, CHR 0x95, CHR 0x90])"

definition single_rule :: string where
  "single_rule = concat (replicate 59 [CHR 0xE2, CHR 0x94, CHR 0x80])"

definition call_lines :: "parity_report \<Rightarrow> string list" where
  "call_lines r =
    [''Parity Statistics (eth_call)'', single_rule,
     ''  Parity (matched):     '' @ show_u64 (pr_total_parity_call r),
     ''  Parity Mismatch:      '' @ show_u64 (pr_total_parity_mismatch_call r),
     ''  Parity Rate:          '' @ show_fixed 2 (parity_rate_call r) @ ''%'']"

definition simulate_lines :: "parity_report \<Rightarrow> string list" where
  "simulate_lines r =
    [''Parity Statistics (eth_simulateV1)'', single_rule,
     ''  Parity (matched):     '' @ show_u64 (pr_total_parity_simulate r),
     ''  Parity Mismatch:      '' @ show_u64 (pr_total_parity_mismatch_simulate r),
     ''  Parity Rate:          '' @ show_fixed 2 (parity_rate_simulate r) @ ''%'']"

definition block_or_na :: "u64 option \<Rightarrow> string" where
  "block_or_na b = (case b of Some n \<Rightarrow> show_u64 n | None \<Rightarrow> ''N/A'')"

definition report_mode :: "parity_report \<Rightarrow> parity_mode" where
  "report_mode r = (case pr_parity_mode r of Some m \<Rightarrow> m | None \<Rightarrow> Call)"

definition write_report :: "parity_report \<Rightarrow> string" where
  "write_report r = concat (map (\<lambda>l. l @ [CHR 0x0A])
    ([double_rule, ''                    PARITY SIMULATION REPORT'', double_rule, '''',
      ''Configuration'', single_rule,
      ''  Parity Mode:          '' @ show_mode (report_mode r), '''',
      ''Block Range'', single_rule,
      ''  First Block:          '' @ block_or_na (pr_first_block r),
      ''  Last Block:           '' @ block_or_na (pr_last_block r),
      ''  Blocks Simulated:     '' @ show_u64 (pr_blocks_simulated r), '''',
      ''Transaction Statistics'', single_rule,
      ''  Total Transactions:   '' @ show_u64 (pr_total_txs r),
      ''  Contract Calls:       '' @ show_u64 (pr_total_contract_calls r),
      ''  EIP-7702 Txs:         '' @ show_u64 (pr_total_eip7702_txs r), '''']
     @ (case report_mode r of
          Call \<Rightarrow> call_lines r
        | Simulate \<Rightarrow> simulate_lines r
        | Both \<Rightarrow> call_lines r @ [''''] @ simulate_lines r)
     @ ['''',
      ''Performance'', single_rule,
      ''  Total Gas Simulated:  '' @ show_u64 (pr_total_gas r),
      ''  Total Gas (Mgas):     '' @ show_fixed 2 (f64_div (f64_of_word (pr_total_gas r)) (f64_of_nat 1000000)),
      ''  Avg Sim Time/Block:   '' @ show_fixed 2 (avg_simulation_time_ms r) @ '' ms'', '''',
      double_rule]))"

section \<open>Facts\<close>

lemma mode_from_str_cases:
  "mode_from_str ''SIM'' = Simulate" "mode_from_str ''Both'' = Both" "mode_from_str ''call'' = Call"
  "mode_from_str ''eth_simulate'' = Call"
  by code_simp+

lemma rates_percent:
  assumes "unat a + unat m < 2 ^ 64" and "0 < a + m"
  shows "f64_mul (f64_div (f64_of_word a) (f64_of_word (a + m :: u64))) 100 = percent (unat a) (unat a + unat m)"
proof -
  have "unat (a + m) = unat a + unat m" using assms(1) by (simp add: unat_word_ariths)
  then show ?thesis by (simp add: percent_def f64_of_word_def)
qed

lemma rate_facts:
  fixes a m :: u64
  assumes "unat a + unat m < 2 ^ 64"
  defines "rate \<equiv> (if 0 < a + m then f64_mul (f64_div (f64_of_word a) (f64_of_word (a + m))) 100 else 0)"
  shows "0 \<le> rate" and "rate \<le> 100"
    and "unat a + unat m < 2 ^ 53 \<Longrightarrow> rate = 100 \<longleftrightarrow> m = 0 \<and> a \<noteq> 0"
proof -
  have total: "unat (a + m) = unat a + unat m" using assms(1) by (simp add: unat_word_ariths)
  show "0 \<le> rate" "rate \<le> 100"
    using rates_percent [OF assms(1)] percent_bounds [of "unat a" "unat a + unat m"]
    by (auto simp: rate_def)
  assume small: "unat a + unat m < 2 ^ 53"
  show "rate = 100 \<longleftrightarrow> m = 0 \<and> a \<noteq> 0"
  proof (cases "0 < a + m")
    case False
    then have "unat a + unat m = 0" using total by (simp add: word_gt_0)
    then have "a = 0" by (simp add: unat_eq_0)
    with False show ?thesis by (simp add: rate_def)
  next
    case True
    then have pos: "0 < unat a + unat m" using total by (metis unat_gt_0 word_gt_0)
    have r: "rate = percent (unat a) (unat a + unat m)" using True rates_percent [OF assms(1) True] by (simp add: rate_def)
    show ?thesis
    proof (cases "m = 0")
      case True
      with pos r percent_all [OF _ small] show ?thesis by (auto simp: unat_eq_0)
    next
      case False
      then have "unat a < unat a + unat m" by (simp add: unat_gt_0)
      from percent_not_all [OF this small] r False show ?thesis by simp
    qed
  qed
qed

end
