(* ===== verification/Parity_Run.thy ===== *)
theory Parity_Run
  imports Parity_Report Parity_Example Changeset
begin

text \<open>
  \<open>rex-sim/examples/parity.rs\<close>, \<open>main\<close>: one block of transactions is replayed against the
  shared state, each outcome is compared with the receipt and with the node, and the counts go
  into the report.  The EVM, the conversion of a transaction to its environment, signature
  recovery and the node are not code of this repository: the record \<open>host\<close> holds what they
  answer, indexed by the transaction's position, since the state and the node move on.

  Arithmetic wraps as in a release build; a panic is \<open>None\<close>.  Warnings are left out, except
  that they decode revert data, which may panic.  The per-block counters are \<open>i32\<close>.
\<close>

section \<open>Transactions and requests\<close>

type_synonym i32 = "32 word"

text \<open>An authorization with what \<open>recover_authority\<close> answers for it.\<close>

record authorization =
  au_nonce :: u64
  au_authority :: "address option"

record transaction =
  tx_signer :: address
  tx_nonce :: u64
  tx_ty :: u8
  tx_to :: "address option"
  tx_gas_limit :: u64
  tx_value :: u256
  tx_input :: bytes
  tx_chain_id :: "u64 option"
  tx_max_fee_per_gas :: u128
  tx_max_priority_fee_per_gas :: "u128 option"
  tx_access_list :: "(address \<times> b256 list) list option"
  tx_blob_versioned_hashes :: "b256 list option"
  tx_authorization_list :: "authorization list option"

record call_request =
  cq_from :: "address option"
  cq_to :: "address option"
  cq_gas :: "u64 option"
  cq_gas_price :: "u128 option"
  cq_max_fee_per_gas :: "u128 option"
  cq_max_priority_fee_per_gas :: "u128 option"
  cq_nonce :: "u64 option"
  cq_value :: "u256 option"
  cq_input :: bytes
  cq_chain_id :: "u64 option"
  cq_access_list :: "(address \<times> b256 list) list option"
  cq_transaction_type :: "u8 option"
  cq_blob_versioned_hashes :: "b256 list option"

text \<open>The environment of a transaction: the fields the code touches, and the rest.\<close>

record 'x tx_env =
  te_caller :: address
  te_nonce :: u64
  te_gas_price :: u128
  te_rest :: 'x

record exec_result =
  xr_success :: bool
  xr_output :: "bytes option"
  xr_gas_used :: u64

record ('x, 'e) host =
  ho_tx_env :: "transaction \<Rightarrow> 'x tx_env"
  ho_transact :: "nat \<Rightarrow> 'x tx_env \<Rightarrow> string + exec_result"
  ho_call :: "nat \<Rightarrow> call_request \<Rightarrow> 'e + bytes"
  ho_simulate :: "nat \<Rightarrow> call_request \<Rightarrow> 'e + bytes list list"

section \<open>Nonces\<close>

text \<open>\<open>let e = last_nonce.entry(a).or_default(); if n > *e { *e = n }\<close>\<close>

definition bump :: "address \<Rightarrow> u64 \<Rightarrow> (address, u64) fmap \<Rightarrow> (address, u64) fmap" where
  "bump a n m =
    (let e = (case fmlookup m a of Some e \<Rightarrow> e | None \<Rightarrow> 0)
     in fmupd a (if e < n then n else e) m)"

definition bump_authorization :: "authorization \<Rightarrow> (address, u64) fmap \<Rightarrow> (address, u64) fmap" where
  "bump_authorization auth m =
    (case au_authority auth of Some authority \<Rightarrow> bump authority (au_nonce auth) m | None \<Rightarrow> m)"

definition bump_tx :: "transaction \<Rightarrow> (address, u64) fmap \<Rightarrow> (address, u64) fmap" where
  "bump_tx x m =
    (let m = bump (tx_signer x) (tx_nonce x) m
     in case tx_authorization_list x of
          Some auth_list \<Rightarrow> fold bump_authorization auth_list m
        | None \<Rightarrow> m)"

definition last_nonces :: "transaction list \<Rightarrow> (address, u64) fmap" where
  "last_nonces txs = fold bump_tx txs fmempty"

section \<open>One transaction\<close>

record counts =
  ct_success :: i32
  ct_revert :: i32
  ct_mismatch :: i32
  ct_skipped :: i32
  ct_contract_calls :: i32
  ct_parity_call :: i32
  ct_parity_call_mismatch :: i32
  ct_parity_sim :: i32
  ct_parity_sim_mismatch :: i32
  ct_gas :: u64

definition counts_zero :: counts where
  "counts_zero = \<lparr>ct_success = 0, ct_revert = 0, ct_mismatch = 0, ct_skipped = 0,
     ct_contract_calls = 0, ct_parity_call = 0, ct_parity_call_mismatch = 0, ct_parity_sim = 0,
     ct_parity_sim_mismatch = 0, ct_gas = 0\<rparr>"

text \<open>\<open>str::contains\<close>\<close>

fun contains :: "string \<Rightarrow> string \<Rightarrow> bool" where
  "contains pat [] = (pat = [])"
| "contains pat (c # cs) = (prefix pat (c # cs) \<or> contains pat cs)"

definition unwrap_bytes :: "bytes option \<Rightarrow> bytes" where
  "unwrap_bytes o' = (case o' of Some b \<Rightarrow> b | None \<Rightarrow> [])"

definition call_request_of :: "u64 \<Rightarrow> u128 \<Rightarrow> u64 \<Rightarrow> transaction \<Rightarrow> call_request" where
  "call_request_of call_nonce adjusted_gas_price basefee tx =
    (let (call_gas_price, call_max_fee, call_priority_fee) =
       (if tx_ty tx < 2 then (Some adjusted_gas_price, None, None)
        else (None, Some (max (tx_max_fee_per_gas tx) (ucast basefee)), tx_max_priority_fee_per_gas tx))
     in \<lparr>cq_from = Some (tx_signer tx), cq_to = tx_to tx, cq_gas = Some (tx_gas_limit tx),
          cq_gas_price = call_gas_price, cq_max_fee_per_gas = call_max_fee,
          cq_max_priority_fee_per_gas = call_priority_fee, cq_nonce = Some call_nonce,
          cq_value = Some (tx_value tx), cq_input = tx_input tx, cq_chain_id = tx_chain_id tx,
          cq_access_list = tx_access_list tx, cq_transaction_type = Some (tx_ty tx),
          cq_blob_versioned_hashes =
            (if tx_ty tx = 3
             then Some (case tx_blob_versioned_hashes tx of Some hs \<Rightarrow> hs | None \<Rightarrow> [])
             else None)\<rparr>)"

text \<open>
  Comparing with the node.  Differing outputs are logged with the node's revert reason; the
  decoder may panic on it.
\<close>

datatype verdict = Matched | Mismatched | Unknown

definition compare_output :: "bytes \<Rightarrow> bytes \<Rightarrow> verdict option" where
  "compare_output local_bytes node_bytes =
    (if local_bytes = node_bytes then Some Matched
     else case decode_revert_message node_bytes of None \<Rightarrow> None | Some _ \<Rightarrow> Some Mismatched)"

definition call_verdict :: "bool \<Rightarrow> bytes \<Rightarrow> 'e + bytes \<Rightarrow> verdict option" where
  "call_verdict simulated_success local_bytes r =
    (case r of
       Inr node_output \<Rightarrow> compare_output local_bytes node_output
     | Inl _ \<Rightarrow> Some (if simulated_success then Mismatched else Matched))"

definition simulate_verdict :: "bool \<Rightarrow> bytes \<Rightarrow> 'e + bytes list list \<Rightarrow> verdict option" where
  "simulate_verdict simulated_success local_bytes r =
    (case r of
       Inr results \<Rightarrow>
         (case results of
            [] \<Rightarrow> Some Unknown
          | block_result # _ \<Rightarrow>
              (case block_result of
                 [] \<Rightarrow> Some Unknown
               | node_output # _ \<Rightarrow> compare_output local_bytes node_output))
     | Inl _ \<Rightarrow> Some (if simulated_success then Mismatched else Matched))"

definition count_call :: "verdict \<Rightarrow> counts \<Rightarrow> counts" where
  "count_call v c =
    (case v of
       Matched \<Rightarrow> c\<lparr>ct_parity_call := ct_parity_call c + 1\<rparr>
     | Mismatched \<Rightarrow> c\<lparr>ct_parity_call_mismatch := ct_parity_call_mismatch c + 1\<rparr>
     | Unknown \<Rightarrow> c)"

definition count_sim :: "verdict \<Rightarrow> counts \<Rightarrow> counts" where
  "count_sim v c =
    (case v of
       Matched \<Rightarrow> c\<lparr>ct_parity_sim := ct_parity_sim c + 1\<rparr>
     | Mismatched \<Rightarrow> c\<lparr>ct_parity_sim_mismatch := ct_parity_sim_mismatch c + 1\<rparr>
     | Unknown \<Rightarrow> c)"

definition count_status :: "bool \<Rightarrow> bool \<Rightarrow> transaction \<Rightarrow> counts \<Rightarrow> counts" where
  "count_status simulated_success expected_success tx c =
    (if simulated_success = expected_success then
       (if simulated_success then
          (let c = c\<lparr>ct_success := ct_success c + 1\<rparr>
           in if tx_input tx \<noteq> [] then c\<lparr>ct_contract_calls := ct_contract_calls c + 1\<rparr> else c)
        else c\<lparr>ct_revert := ct_revert c + 1\<rparr>)
     else c\<lparr>ct_mismatch := ct_mismatch c + 1\<rparr>)"

text \<open>The two comparisons, each in its modes; blob transactions are not simulated by the node.\<close>

definition compare_call ::
  "('x, 'e) host \<Rightarrow> parity_mode \<Rightarrow> nat \<Rightarrow> call_request \<Rightarrow> exec_result \<Rightarrow> counts \<Rightarrow> counts option" where
  "compare_call h mode i req res c =
    (if mode = Call \<or> mode = Both
     then map_option (\<lambda>v. count_call v c)
       (call_verdict (xr_success res) (unwrap_bytes (xr_output res)) (ho_call h i req))
     else Some c)"

definition compare_simulate ::
  "('x, 'e) host \<Rightarrow> parity_mode \<Rightarrow> nat \<Rightarrow> u8 \<Rightarrow> call_request \<Rightarrow> exec_result \<Rightarrow> counts \<Rightarrow> counts option" where
  "compare_simulate h mode i tx_type req res c =
    (if (mode = Simulate \<or> mode = Both) \<and> tx_type \<noteq> 3
     then map_option (\<lambda>v. count_sim v c)
       (simulate_verdict (xr_success res) (unwrap_bytes (xr_output res)) (ho_simulate h i req))
     else Some c)"

text \<open>\<open>decode_revert_message\<close> of the local output, for the log.\<close>

definition local_revert_ok :: "exec_result \<Rightarrow> bool" where
  "local_revert_ok res =
    (case xr_output res of None \<Rightarrow> True | Some out \<Rightarrow> decode_revert_message out \<noteq> None)"

definition adjusted_env :: "u64 \<Rightarrow> u64 \<Rightarrow> 'x tx_env \<Rightarrow> 'x tx_env" where
  "adjusted_env basefee prev env =
    (let env = env\<lparr>te_nonce := prev + 1\<rparr>
     in if te_gas_price env < ucast basefee then env\<lparr>te_gas_price := ucast basefee\<rparr> else env)"

definition sim_tx ::
  "('x, 'e) host \<Rightarrow> parity_mode \<Rightarrow> u64 \<Rightarrow> (address, u64) fmap \<Rightarrow> nat \<Rightarrow> transaction \<Rightarrow> 'l receipt
    \<Rightarrow> counts \<Rightarrow> counts option" where
  "sim_tx h mode basefee last_nonce i tx expected_receipt c =
    (let env = ho_tx_env h tx in
     case fmlookup last_nonce (te_caller env) of
       None \<Rightarrow> None
     | Some prev \<Rightarrow>
         (let env = adjusted_env basefee prev env in
          case ho_transact h i env of
            Inl err_str \<Rightarrow>
              Some (if contains ''lack of funds'' err_str
                    then c\<lparr>ct_skipped := ct_skipped c + 1\<rparr> else c\<lparr>ct_mismatch := ct_mismatch c + 1\<rparr>)
          | Inr res \<Rightarrow>
              (let c = c\<lparr>ct_gas := ct_gas c + xr_gas_used res\<rparr>;
                   c = count_status (xr_success res) (rc_status expected_receipt) tx c
               in case fmlookup last_nonce (tx_signer tx) of
                    None \<Rightarrow> None
                  | Some prev' \<Rightarrow>
                      (let req = call_request_of (prev' + 1) (te_gas_price env) basefee tx
                       in if \<not> local_revert_ok res then None
                          else case compare_call h mode i req res c of
                            None \<Rightarrow> None
                          | Some c \<Rightarrow> compare_simulate h mode i (tx_ty tx) req res c))))"

section \<open>One block\<close>

text \<open>\<open>for (i, tx) in block_txs.txs.iter().enumerate()\<close>; \<open>receipts[i]\<close> panics out of range.\<close>

fun sim_txs ::
  "('x, 'e) host \<Rightarrow> parity_mode \<Rightarrow> u64 \<Rightarrow> (address, u64) fmap \<Rightarrow> nat \<Rightarrow> transaction list
    \<Rightarrow> 'l receipt list \<Rightarrow> counts \<Rightarrow> counts option" where
  "sim_txs h mode basefee nonces i [] rs c = Some c"
| "sim_txs h mode basefee nonces i (tx # txs) [] c = None"
| "sim_txs h mode basefee nonces i (tx # txs) (r # rs) c =
    (case sim_tx h mode basefee nonces i tx r c of
       None \<Rightarrow> None | Some c \<Rightarrow> sim_txs h mode basefee nonces (Suc i) txs rs c)"

definition eip7702_count :: "transaction list \<Rightarrow> i32" where
  "eip7702_count txs = fold (\<lambda>tx n. if tx_ty tx = 4 then n + 1 else n) txs 0"

text \<open>\<open>x as u64\<close> of an \<open>i32\<close>\<close>

definition i32_as_u64 :: "i32 \<Rightarrow> u64" where
  "i32_as_u64 x = scast x"

definition add_block :: "u64 \<Rightarrow> transaction list \<Rightarrow> counts \<Rightarrow> u128 \<Rightarrow> parity_report \<Rightarrow> parity_report" where
  "add_block block txs c elapsed_ms r =
    (let r = update_block_range block r in
     r\<lparr>pr_total_txs := pr_total_txs r + of_nat (length txs),
       pr_total_contract_calls := pr_total_contract_calls r + i32_as_u64 (ct_contract_calls c),
       pr_total_eip7702_txs := pr_total_eip7702_txs r + i32_as_u64 (eip7702_count txs),
       pr_total_parity_call := pr_total_parity_call r + i32_as_u64 (ct_parity_call c),
       pr_total_parity_mismatch_call := pr_total_parity_mismatch_call r + i32_as_u64 (ct_parity_call_mismatch c),
       pr_total_parity_simulate := pr_total_parity_simulate r + i32_as_u64 (ct_parity_sim c),
       pr_total_parity_mismatch_simulate :=
         pr_total_parity_mismatch_simulate r + i32_as_u64 (ct_parity_sim_mismatch c),
       pr_total_gas := pr_total_gas r + ct_gas c,
       pr_total_simulation_time_ms := pr_total_simulation_time_ms r + elapsed_ms\<rparr>)"

section \<open>Counting\<close>

definition in_call :: "parity_mode \<Rightarrow> bool" where
  "in_call mode \<longleftrightarrow> mode = Call \<or> mode = Both"

definition in_simulate :: "parity_mode \<Rightarrow> bool" where
  "in_simulate mode \<longleftrightarrow> mode = Simulate \<or> mode = Both"

definition status_sum :: "counts \<Rightarrow> nat" where
  "status_sum c = unat (ct_success c) + unat (ct_revert c) + unat (ct_mismatch c) + unat (ct_skipped c)"

definition call_sum :: "counts \<Rightarrow> nat" where
  "call_sum c = unat (ct_parity_call c) + unat (ct_parity_call_mismatch c)"

definition sim_sum :: "counts \<Rightarrow> nat" where
  "sim_sum c = unat (ct_parity_sim c) + unat (ct_parity_sim_mismatch c)"

lemmas sum_defs = status_sum_def call_sum_def sim_sum_def

lemma i32_suc: "unat (w :: i32) < 2 ^ 31 \<Longrightarrow> unat (w + 1) = Suc (unat w)"
  by (simp add: unat_word_ariths)

text \<open>
  \<open>n\<close> transactions have been replayed, of which \<open>k\<close> ran.
\<close>

definition tally :: "parity_mode \<Rightarrow> nat \<Rightarrow> nat \<Rightarrow> counts \<Rightarrow> bool" where
  "tally mode n k c \<longleftrightarrow> k \<le> n \<and> status_sum c = n
    \<and> call_sum c = (if in_call mode then k else 0)
    \<and> sim_sum c \<le> (if in_simulate mode then k else 0)
    \<and> ct_contract_calls c \<le> ct_success c"

lemma tally_zero: "tally mode 0 0 counts_zero"
  by (simp add: tally_def sum_defs counts_zero_def)

lemma count_status_sums:
  assumes "status_sum c < 2 ^ 31" and "ct_contract_calls c \<le> ct_success c"
  shows "status_sum (count_status s e tx c) = Suc (status_sum c)"
    and "call_sum (count_status s e tx c) = call_sum c" and "sim_sum (count_status s e tx c) = sim_sum c"
    and "ct_contract_calls (count_status s e tx c) \<le> ct_success (count_status s e tx c)"
proof -
  have b: "unat (ct_success c) < 2 ^ 31" "unat (ct_revert c) < 2 ^ 31" "unat (ct_mismatch c) < 2 ^ 31"
    using assms(1) by (simp_all add: status_sum_def)
  moreover have "unat (ct_contract_calls c) < 2 ^ 31"
    using assms(2) b(1) by (simp add: word_le_nat_alt)
  ultimately show "status_sum (count_status s e tx c) = Suc (status_sum c)"
    and "call_sum (count_status s e tx c) = call_sum c" and "sim_sum (count_status s e tx c) = sim_sum c"
    and "ct_contract_calls (count_status s e tx c) \<le> ct_success (count_status s e tx c)"
    using assms(2) by (auto simp: count_status_def Let_def sum_defs i32_suc word_le_nat_alt)
qed

lemma call_verdict_known: "call_verdict s b r \<noteq> Some Unknown"
  by (auto simp: call_verdict_def compare_output_def split: sum.splits option.splits if_splits)

lemma count_call_sums:
  assumes "call_sum c < 2 ^ 31"
  shows "status_sum (count_call v c) = status_sum c" and "sim_sum (count_call v c) = sim_sum c"
    and "call_sum (count_call v c) = call_sum c + (if v = Unknown then 0 else 1)"
    and "ct_contract_calls (count_call v c) = ct_contract_calls c"
    and "ct_success (count_call v c) = ct_success c"
  using assms by (cases v; simp add: count_call_def sum_defs i32_suc)+

lemma count_sim_sums:
  assumes "sim_sum c < 2 ^ 31"
  shows "status_sum (count_sim v c) = status_sum c" and "call_sum (count_sim v c) = call_sum c"
    and "sim_sum (count_sim v c) = sim_sum c + (if v = Unknown then 0 else 1)"
    and "ct_contract_calls (count_sim v c) = ct_contract_calls c"
    and "ct_success (count_sim v c) = ct_success c"
  using assms by (cases v; simp add: count_sim_def sum_defs i32_suc)+

lemma compare_call_sums:
  assumes "compare_call h mode i req res c = Some c'" and "call_sum c < 2 ^ 31"
  shows "status_sum c' = status_sum c" and "sim_sum c' = sim_sum c"
    and "call_sum c' = call_sum c + (if in_call mode then 1 else 0)"
    and "ct_contract_calls c' = ct_contract_calls c" and "ct_success c' = ct_success c"
  using assms(1) count_call_sums [OF assms(2)]
    call_verdict_known [of "xr_success res" "unwrap_bytes (xr_output res)" "ho_call h i req"]
  by (auto simp: compare_call_def in_call_def split: if_splits)

lemma compare_simulate_sums:
  assumes "compare_simulate h mode i ty req res c = Some c'" and "sim_sum c < 2 ^ 31"
  shows "status_sum c' = status_sum c" and "call_sum c' = call_sum c"
    and "sim_sum c' \<le> sim_sum c + (if in_simulate mode then 1 else 0)"
    and "ct_contract_calls c' = ct_contract_calls c" and "ct_success c' = ct_success c"
  using assms(1) count_sim_sums [OF assms(2)]
  by (auto simp: compare_simulate_def in_simulate_def split: if_splits)

text \<open>Whether the transaction at position \<open>i\<close> runs at all.\<close>

definition tx_result ::
  "('x, 'e) host \<Rightarrow> u64 \<Rightarrow> (address, u64) fmap \<Rightarrow> nat \<Rightarrow> transaction \<Rightarrow> exec_result option" where
  "tx_result h basefee nonces i tx =
    (case fmlookup nonces (te_caller (ho_tx_env h tx)) of
       None \<Rightarrow> None
     | Some prev \<Rightarrow>
         (case ho_transact h i (adjusted_env basefee prev (ho_tx_env h tx)) of
            Inl _ \<Rightarrow> None | Inr res \<Rightarrow> Some res))"

fun executed :: "('x, 'e) host \<Rightarrow> u64 \<Rightarrow> (address, u64) fmap \<Rightarrow> nat \<Rightarrow> transaction list \<Rightarrow> nat" where
  "executed h basefee nonces i [] = 0"
| "executed h basefee nonces i (tx # txs) =
    (if tx_result h basefee nonces i tx = None then 0 else 1) + executed h basefee nonces (Suc i) txs"

lemma sim_tx_tally:
  assumes "sim_tx h mode basefee nonces i tx r c = Some c'" and "tally mode n k c" and "n < 2 ^ 31"
  shows "tally mode (Suc n) (k + (if tx_result h basefee nonces i tx = None then 0 else 1)) c'"
proof -
  let ?env = "ho_tx_env h tx"
  from assms(1) obtain prev where prev: "fmlookup nonces (te_caller ?env) = Some prev"
    by (auto simp: sim_tx_def Let_def split: option.splits)
  from assms(2,3) have b: "status_sum c < 2 ^ 31" "call_sum c < 2 ^ 31" "sim_sum c < 2 ^ 31" "k \<le> n"
    "ct_contract_calls c \<le> ct_success c"
    by (auto simp: tally_def split: if_splits)
  show ?thesis
  proof (cases "ho_transact h i (adjusted_env basefee prev ?env)")
    case (Inl err)
    from b(1) have "unat (ct_skipped c) < 2 ^ 31" "unat (ct_mismatch c) < 2 ^ 31"
      by (simp_all add: status_sum_def)
    with Inl assms(1,2) prev show ?thesis
      by (auto simp: sim_tx_def tx_result_def tally_def sum_defs i32_suc split: if_splits)
  next
    case (Inr res)
    let ?c0 = "c\<lparr>ct_gas := ct_gas c + xr_gas_used res\<rparr>"
    let ?c1 = "count_status (xr_success res) (rc_status r) tx ?c0"
    from assms(1) Inr prev obtain req c2 where
      2: "compare_call h mode i req res ?c1 = Some c2" and
      3: "compare_simulate h mode i (tx_ty tx) req res c2 = Some c'"
      by (auto simp: sim_tx_def Let_def split: option.splits if_splits)
    have s0: "status_sum ?c0 = status_sum c" "call_sum ?c0 = call_sum c" "sim_sum ?c0 = sim_sum c"
      by (simp_all add: sum_defs)
    have 1: "status_sum ?c1 = Suc (status_sum c)" "call_sum ?c1 = call_sum c" "sim_sum ?c1 = sim_sum c"
      "ct_contract_calls ?c1 \<le> ct_success ?c1"
      using count_status_sums [of ?c0] b(1,5) by (simp_all add: s0)
    note 2 = compare_call_sums [OF 2] and 3 = compare_simulate_sums [OF 3]
    have "tx_result h basefee nonces i tx = Some res" by (simp add: tx_result_def prev Inr)
    with assms(2) b 1 2 3 show ?thesis
      by (auto simp: tally_def split: if_splits)
  qed
qed

lemma sim_txs_tally:
  "sim_txs h mode basefee nonces i txs rs c = Some c' \<Longrightarrow> tally mode n k c \<Longrightarrow>
    n + length txs \<le> 2 ^ 31 \<Longrightarrow>
    tally mode (n + length txs) (k + executed h basefee nonces i txs) c'"
proof (induction h mode basefee nonces i txs rs c arbitrary: n k rule: sim_txs.induct)
  case (3 h mode basefee nonces i tx txs r rs c)
  then obtain c1 where c1: "sim_tx h mode basefee nonces i tx r c = Some c1"
    "sim_txs h mode basefee nonces (Suc i) txs rs c1 = Some c'"
    by (auto split: option.splits)
  let ?k = "k + (if tx_result h basefee nonces i tx = None then 0 else 1)"
  have "tally mode (Suc n) ?k c1" by (rule sim_tx_tally [OF c1(1) 3(3)]) (use 3(4) in simp)
  from 3(1) [OF c1 this] 3(4) show ?case by (simp add: add.assoc)
qed simp_all

end
