(* ===== verification/Parity_Loop.thy ===== *)
theory Parity_Loop
  imports Parity_Run Changeset_Props
begin

text \<open>
  \<open>rex-sim/examples/parity.rs\<close>, the loop of \<open>main\<close>: the task that remembers the transactions of
  the last committed block, the wait for the block an update announces, the reasons to skip an
  update, and the accumulation into the report.
\<close>

section \<open>The transactions of the latest block\<close>

record block_txs =
  bt_block :: u64
  bt_txs :: "transaction list"

text \<open>
  The writer task, one notification: \<open>txs_of\<close> is \<open>clone_transactions_recovered\<close>, a parameter.
\<close>

definition remember_txs ::
  "('w block_view \<Rightarrow> transaction list) \<Rightarrow> ('c, 'w, 'l) notification \<Rightarrow> block_txs option \<Rightarrow> block_txs option" where
  "remember_txs txs_of n cell =
    (case n of
       ChainCommitted new \<Rightarrow>
         (if cn_blocks_and_receipts new = [] then cell
          else let block = fst (last (cn_blocks_and_receipts new))
               in Some \<lparr>bt_block = sh_number (bv_header block), bt_txs = txs_of block\<rparr>)
     | _ \<Rightarrow> cell)"

definition latest_txs ::
  "('w block_view \<Rightarrow> transaction list) \<Rightarrow> ('c, 'w, 'l) notification list \<Rightarrow> block_txs option" where
  "latest_txs txs_of ns = fold (remember_txs txs_of) ns None"

text \<open>
  The loop that polls the cell every millisecond; \<open>polls k\<close> is what the \<open>k\<close>-th look finds.  Not
  returning is \<open>None\<close>.
\<close>

partial_function (option) wait_txs :: "(nat \<Rightarrow> block_txs option) \<Rightarrow> u64 \<Rightarrow> nat \<Rightarrow> block_txs option" where
  "wait_txs polls block k =
    (case polls k of
       Some b \<Rightarrow> if bt_block b = block then Some b else wait_txs polls block (Suc k)
     | None \<Rightarrow> wait_txs polls block (Suc k))"

section \<open>One update\<close>

datatype skip_reason = StaleUpdate | NoHeader | NoReceipts | CountMismatch

datatype outcome = Skipped skip_reason | Replayed parity_report | Panicked | Hangs

definition parity_step ::
  "('x, 'e) host \<Rightarrow> (sealed_header \<Rightarrow> 'w next_block_env_attributes \<Rightarrow> u64) \<Rightarrow> parity_mode \<Rightarrow> u128
    \<Rightarrow> (nat \<Rightarrow> block_txs option) \<Rightarrow> state_update \<Rightarrow> ('c, 'w, 'l) state_snapshot \<Rightarrow> parity_report
    \<Rightarrow> outcome" where
  "parity_step h basefee_of mode elapsed_ms polls update snapshot r =
    (if su_block_hash update = 0 then Skipped StaleUpdate
     else case ss_header snapshot of
       None \<Rightarrow> Skipped NoHeader
     | Some header \<Rightarrow>
         (case wait_txs polls (su_block update) 0 of
            None \<Rightarrow> Hangs
          | Some block_txs \<Rightarrow>
              (case receipts snapshot (su_block update) of
                 None \<Rightarrow> Skipped NoReceipts
               | Some rs \<Rightarrow>
                   (let txs = bt_txs block_txs in
                    if length txs \<noteq> length rs then Skipped CountMismatch
                    else
                      (let attributes = build_next_block_attributes header (ss_withdrawals snapshot);
                           basefee = basefee_of header attributes
                       in case sim_txs h mode basefee (last_nonces txs) 0 txs rs counts_zero of
                            None \<Rightarrow> Panicked
                          | Some c \<Rightarrow> Replayed (add_block (su_block update) txs c elapsed_ms r))))))"

text \<open>What the loop meets in one round: the update, the state it loads, the answers it gets.\<close>

record ('x, 'e, 'c, 'w, 'l) parity_round =
  ro_host :: "('x, 'e) host"
  ro_elapsed_ms :: u128
  ro_polls :: "nat \<Rightarrow> block_txs option"
  ro_update :: state_update
  ro_snapshot :: "('c, 'w, 'l) state_snapshot"

text \<open>\<open>None\<close>: the process panicked or hangs before the report is written.\<close>

fun parity_rounds ::
  "(sealed_header \<Rightarrow> 'w next_block_env_attributes \<Rightarrow> u64) \<Rightarrow> parity_mode
    \<Rightarrow> ('x, 'e, 'c, 'w, 'l) parity_round list \<Rightarrow> parity_report \<Rightarrow> parity_report option" where
  "parity_rounds basefee_of mode [] r = Some r"
| "parity_rounds basefee_of mode (o' # os) r =
    (case parity_step (ro_host o') basefee_of mode (ro_elapsed_ms o') (ro_polls o') (ro_update o')
            (ro_snapshot o') r of
       Skipped _ \<Rightarrow> parity_rounds basefee_of mode os r
     | Replayed r' \<Rightarrow> parity_rounds basefee_of mode os r'
     | Panicked \<Rightarrow> None
     | Hangs \<Rightarrow> None)"

definition parity_main ::
  "(sealed_header \<Rightarrow> 'w next_block_env_attributes \<Rightarrow> u64) \<Rightarrow> parity_mode
    \<Rightarrow> ('x, 'e, 'c, 'w, 'l) parity_round list \<Rightarrow> parity_report option" where
  "parity_main basefee_of mode os =
    parity_rounds basefee_of mode os (report_default\<lparr>pr_parity_mode := Some mode\<rparr>)"

text \<open>The arguments, and the whole program: the text of the report it writes.\<close>

definition arg_or :: "string list \<Rightarrow> nat \<Rightarrow> string \<Rightarrow> string" where
  "arg_or args i d = (if i < length args then args ! i else d)"

definition parity_args :: "string list \<Rightarrow> string \<times> string \<times> parity_mode" where
  "parity_args args =
    (arg_or args 1 ''http://127.0.0.1:10000'', arg_or args 2 ''http://127.0.0.1:8545'',
     if 3 < length args then mode_from_str (args ! 3) else Call)"

definition parity_program ::
  "(sealed_header \<Rightarrow> 'w next_block_env_attributes \<Rightarrow> u64) \<Rightarrow> string list
    \<Rightarrow> ('x, 'e, 'c, 'w, 'l) parity_round list \<Rightarrow> string option" where
  "parity_program basefee_of args os =
    (case parity_args args of (_, _, mode) \<Rightarrow> map_option write_report (parity_main basefee_of mode os))"

section \<open>The wait\<close>

lemma wait_returns:
  assumes "wait_txs polls block k = Some b"
  shows "\<exists>j \<ge> k. polls j = Some b \<and> bt_block b = block"
  using assms
proof (rule wait_txs.raw_induct
    [where P = "\<lambda>polls block k b. \<exists>j \<ge> k. polls j = Some b \<and> bt_block b = block", rotated])
  fix wait polls block k and b :: block_txs
  assume IH: "\<And>polls block k b. wait polls block k = Some b \<Longrightarrow> \<exists>j \<ge> k. polls j = Some b \<and> bt_block b = block"
    and body: "(case polls k of Some b \<Rightarrow> if bt_block b = block then Some b else wait polls block (Suc k)
       | None \<Rightarrow> wait polls block (Suc k)) = Some b"
  show "\<exists>j \<ge> k. polls j = Some b \<and> bt_block b = block"
  proof (cases "\<exists>b'. polls k = Some b' \<and> bt_block b' = block")
    case True
    with body show ?thesis by auto
  next
    case False
    with body have "wait polls block (Suc k) = Some b" by (auto split: option.splits if_splits)
    from IH [OF this] show ?thesis by (metis Suc_leD)
  qed
qed

lemma wait_hangs: "(\<And>j b. k \<le> j \<Longrightarrow> polls j = Some b \<Longrightarrow> bt_block b \<noteq> block) \<Longrightarrow> wait_txs polls block k = None"
  using wait_returns [of polls block k] by (cases "wait_txs polls block k") auto

lemma wait_finds:
  "polls (k + n) = Some b \<Longrightarrow> bt_block b = block \<Longrightarrow> wait_txs polls block k \<noteq> None"
proof (induction n arbitrary: k)
  case 0
  then show ?case by (subst wait_txs.simps) simp
next
  case (Suc n)
  then show ?case by (subst wait_txs.simps) (auto split: option.split)
qed

text \<open>The cell only ever holds the last block of a commit the writer has seen.\<close>

lemma latest_snoc: "latest_txs txs_of (ns @ [n]) = remember_txs txs_of n (latest_txs txs_of ns)"
  by (simp add: latest_txs_def)

lemma remember_cases:
  assumes "remember_txs txs_of n cell = Some b"
  shows "cell = Some b \<or> (\<exists>new t. n = ChainCommitted new \<and> chain_tip_of new = Some t \<and> bt_block b = sh_number t)"
  using assms by (cases n) (auto simp: remember_txs_def chain_tip_of_def Let_def split: if_splits)

lemma latest_from_commit:
  "latest_txs txs_of ns = Some b \<Longrightarrow>
    \<exists>new t. ChainCommitted new \<in> set ns \<and> chain_tip_of new = Some t \<and> bt_block b = sh_number t"
proof (induction ns rule: rev_induct)
  case Nil
  then show ?case by (simp add: latest_txs_def)
next
  case (snoc n ns)
  from remember_cases [OF snoc.prems [unfolded latest_snoc]] show ?case
  proof
    assume "latest_txs txs_of ns = Some b"
    from snoc.IH [OF this] obtain new t where
      "ChainCommitted new \<in> set ns" "chain_tip_of new = Some t" "bt_block b = sh_number t" by blast
    then show ?thesis by (intro exI [of _ new] exI [of _ t]) simp
  next
    assume "\<exists>new t. n = ChainCommitted new \<and> chain_tip_of new = Some t \<and> bt_block b = sh_number t"
    then obtain new t where "n = ChainCommitted new" "chain_tip_of new = Some t" "bt_block b = sh_number t"
      by blast
    then show ?thesis by (intro exI [of _ new] exI [of _ t]) simp
  qed
qed

section \<open>The nonces\<close>

text \<open>Every nonce the block's transactions claim for an address, as sender or as authority.\<close>

definition claimed_by :: "address \<Rightarrow> transaction \<Rightarrow> u64 list" where
  "claimed_by a x =
    (if tx_signer x = a then [tx_nonce x] else [])
    @ (case tx_authorization_list x of
         None \<Rightarrow> []
       | Some auths \<Rightarrow> map au_nonce (filter (\<lambda>auth. au_authority auth = Some a) auths))"

definition claimed :: "address \<Rightarrow> transaction list \<Rightarrow> u64 list" where
  "claimed a txs = concat (map (claimed_by a) txs)"

text \<open>The table holds the largest of them.\<close>

definition largest :: "u64 list \<Rightarrow> u64 option" where
  "largest ns = (if ns = [] then None else Some (Max (set ns)))"

lemma largest_snoc: "largest (ns @ [n]) = Some (case largest ns of None \<Rightarrow> n | Some e \<Rightarrow> max e n)"
  by (simp add: largest_def max.commute)

lemma bump_largest:
  assumes "\<And>a. fmlookup m a = largest (f a)"
  shows "fmlookup (bump b n m) a = largest (f a @ (if a = b then [n] else []))"
  using assms by (auto simp: bump_def Let_def largest_snoc not_less word_gt_0 max_def split: option.splits)

lemma bump_authorization_largest:
  assumes "\<And>a. fmlookup m a = largest (f a)"
  shows "fmlookup (bump_authorization auth m) a =
    largest (f a @ (if au_authority auth = Some a then [au_nonce auth] else []))"
  using bump_largest [OF assms] assms by (auto simp: bump_authorization_def split: option.splits)

lemma bump_authorizations_largest:
  assumes "\<And>a. fmlookup m a = largest (f a)"
  shows "fmlookup (fold bump_authorization auths m) a =
    largest (f a @ map au_nonce (filter (\<lambda>auth. au_authority auth = Some a) auths))"
  using assms
proof (induction auths arbitrary: m f)
  case Nil
  then show ?case by simp
next
  case (Cons auth auths)
  from Cons.IH [OF bump_authorization_largest [OF Cons.prems]] show ?case by simp
qed

lemma bump_tx_largest:
  assumes "\<And>a. fmlookup m a = largest (f a)"
  shows "fmlookup (bump_tx x m) a = largest (f a @ claimed_by a x)"
proof -
  note 1 = bump_largest [OF assms, of "tx_signer x" "tx_nonce x"]
  show ?thesis
    using 1 bump_authorizations_largest [OF 1]
    by (auto simp: bump_tx_def Let_def claimed_by_def split: option.splits)
qed

lemma last_nonces_largest: "fmlookup (last_nonces txs) a = largest (claimed a txs)"
proof -
  have "fmlookup (fold bump_tx txs m) a = largest (f a @ claimed a txs)"
    if "\<And>a. fmlookup m a = largest (f a)" for m f
    using that
  proof (induction txs arbitrary: m f)
    case Nil
    then show ?case by (simp add: claimed_def)
  next
    case (Cons x txs)
    from Cons.IH [OF bump_tx_largest [OF Cons.prems]] show ?case by (simp add: claimed_def)
  qed
  from this [of fmempty "\<lambda>_. []"] show ?thesis by (simp add: last_nonces_def largest_def)
qed

lemma sender_claims: "tx \<in> set txs \<Longrightarrow> tx_nonce tx \<in> set (claimed (tx_signer tx) txs)"
  by (auto simp: claimed_def claimed_by_def)

lemma sender_has_nonce: "tx \<in> set txs \<Longrightarrow> fmlookup (last_nonces txs) (tx_signer tx) \<noteq> None"
  using sender_claims [of tx txs] by (auto simp: last_nonces_largest largest_def)

section \<open>Panics\<close>

text \<open>The request a transaction that runs leads to, and the data whose decoding may panic.\<close>

definition tx_request ::
  "('x, 'e) host \<Rightarrow> u64 \<Rightarrow> (address, u64) fmap \<Rightarrow> transaction \<Rightarrow> call_request option" where
  "tx_request h basefee nonces tx =
    (case (fmlookup nonces (te_caller (ho_tx_env h tx)), fmlookup nonces (tx_signer tx)) of
       (Some prev, Some prev') \<Rightarrow>
         Some (call_request_of (prev' + 1) (te_gas_price (adjusted_env basefee prev (ho_tx_env h tx))) basefee tx)
     | _ \<Rightarrow> None)"

definition node_outputs ::
  "('x, 'e) host \<Rightarrow> parity_mode \<Rightarrow> nat \<Rightarrow> u8 \<Rightarrow> call_request \<Rightarrow> bytes list" where
  "node_outputs h mode i ty req =
    (if in_call mode then case ho_call h i req of Inr b \<Rightarrow> [b] | Inl _ \<Rightarrow> [] else [])
    @ (if in_simulate mode \<and> ty \<noteq> 3
       then case ho_simulate h i req of Inr ((b # _) # _) \<Rightarrow> [b] | _ \<Rightarrow> [] else [])"

definition decoded ::
  "('x, 'e) host \<Rightarrow> parity_mode \<Rightarrow> nat \<Rightarrow> u8 \<Rightarrow> call_request \<Rightarrow> exec_result \<Rightarrow> bytes list" where
  "decoded h mode i ty req res =
    (case xr_output res of Some b \<Rightarrow> [b] | None \<Rightarrow> [])
    @ filter (\<lambda>b. b \<noteq> unwrap_bytes (xr_output res)) (node_outputs h mode i ty req)"

lemma compare_output_None:
  "compare_output l b = None \<longleftrightarrow> b \<noteq> l \<and> decode_revert_message b = None"
  by (auto simp: compare_output_def split: option.splits)

lemma compare_call_None:
  "compare_call h mode i req res c = None \<longleftrightarrow>
    in_call mode \<and> (\<exists>b. ho_call h i req = Inr b \<and> b \<noteq> unwrap_bytes (xr_output res)
      \<and> decode_revert_message b = None)"
  by (auto simp: compare_call_def in_call_def call_verdict_def compare_output_None split: sum.splits)

lemma compare_simulate_None:
  "compare_simulate h mode i ty req res c = None \<longleftrightarrow>
    in_simulate mode \<and> ty \<noteq> 3 \<and> (\<exists>b bs rs. ho_simulate h i req = Inr ((b # bs) # rs)
      \<and> b \<noteq> unwrap_bytes (xr_output res) \<and> decode_revert_message b = None)"
  by (auto simp: compare_simulate_def in_simulate_def simulate_verdict_def compare_output_None
      split: sum.splits list.splits)

end
