(* ===== verification/Parity_Props.thy ===== *)
theory Parity_Props
  imports Parity_Loop
begin

text \<open>
  What the parity example guarantees: which blocks it panics or hangs on, which nonces it replays
  under, and that the report adds up.
\<close>

section \<open>When a block panics\<close>

definition tx_panics ::
  "('x, 'e) host \<Rightarrow> parity_mode \<Rightarrow> u64 \<Rightarrow> (address, u64) fmap \<Rightarrow> nat \<Rightarrow> transaction \<Rightarrow> bool" where
  "tx_panics h mode basefee nonces i tx =
    (case (tx_result h basefee nonces i tx, tx_request h basefee nonces tx) of
       (Some res, Some req) \<Rightarrow>
         list_ex (\<lambda>b. decode_revert_message b = None) (decoded h mode i (tx_ty tx) req res)
     | _ \<Rightarrow> False)"

lemma list_ex_filter: "list_ex P (filter Q xs) = list_ex (\<lambda>x. Q x \<and> P x) xs"
  by (induction xs) auto

lemma decoded_None:
  "list_ex (\<lambda>b. decode_revert_message b = None) (decoded h mode i ty req res) \<longleftrightarrow>
    \<not> local_revert_ok res \<or> compare_call h mode i req res c = None
    \<or> compare_simulate h mode i ty req res c' = None"
proof -
  let ?bad = "\<lambda>b. b \<noteq> unwrap_bytes (xr_output res) \<and> decode_revert_message b = None"
  have 1: "list_ex ?bad (if in_call mode then case ho_call h i req of Inr b \<Rightarrow> [b] | Inl _ \<Rightarrow> [] else [])
      \<longleftrightarrow> compare_call h mode i req res c = None"
    by (cases "ho_call h i req") (simp_all add: compare_call_None)
  have 2: "list_ex ?bad (if in_simulate mode \<and> ty \<noteq> 3
        then case ho_simulate h i req of Inr ((b # _) # _) \<Rightarrow> [b] | _ \<Rightarrow> [] else [])
      \<longleftrightarrow> compare_simulate h mode i ty req res c' = None"
    by (simp add: compare_simulate_None split: sum.split list.split)
  have 3: "list_ex (\<lambda>b. decode_revert_message b = None) (case xr_output res of Some b \<Rightarrow> [b] | None \<Rightarrow> [])
      \<longleftrightarrow> \<not> local_revert_ok res"
    by (cases "xr_output res") (simp_all add: local_revert_ok_def)
  show ?thesis
    unfolding decoded_def node_outputs_def list_ex_append list_ex_filter filter_append 1 2 3 by simp
qed

lemma sim_tx_None:
  assumes "te_caller (ho_tx_env h tx) = tx_signer tx" and "fmlookup nonces (tx_signer tx) \<noteq> None"
  shows "sim_tx h mode basefee nonces i tx r c = None \<longleftrightarrow> tx_panics h mode basefee nonces i tx"
proof -
  obtain prev where prev: "fmlookup nonces (tx_signer tx) = Some prev" using assms(2) by blast
  let ?env = "adjusted_env basefee prev (ho_tx_env h tx)"
  let ?req = "call_request_of (prev + 1) (te_gas_price ?env) basefee tx"
  have req: "tx_request h basefee nonces tx = Some ?req"
    by (simp add: tx_request_def assms(1) prev)
  show ?thesis
  proof (cases "ho_transact h i ?env")
    case (Inl e)
    then show ?thesis by (simp add: sim_tx_def tx_panics_def tx_result_def assms(1) prev)
  next
    case (Inr res)
    then have "tx_result h basefee nonces i tx = Some res"
      by (simp add: tx_result_def assms(1) prev)
    with req have p: "tx_panics h mode basefee nonces i tx \<longleftrightarrow>
      list_ex (\<lambda>b. decode_revert_message b = None) (decoded h mode i (tx_ty tx) ?req res)"
      by (simp add: tx_panics_def)
    show ?thesis
    proof (cases "compare_call h mode i ?req res
        (count_status (xr_success res) (rc_status r) tx (c\<lparr>ct_gas := ct_gas c + xr_gas_used res\<rparr>))")
      case None
      then show ?thesis
        unfolding p decoded_None [where c = "count_status (xr_success res) (rc_status r) tx
            (c\<lparr>ct_gas := ct_gas c + xr_gas_used res\<rparr>)" and c' = c]
        using Inr by (simp add: sim_tx_def Let_def assms(1) prev)
    next
      case (Some c1)
      then show ?thesis
        unfolding p decoded_None [where c = "count_status (xr_success res) (rc_status r) tx
            (c\<lparr>ct_gas := ct_gas c + xr_gas_used res\<rparr>)" and c' = c1]
        using Inr by (simp add: sim_tx_def Let_def assms(1) prev)
    qed
  qed
qed

lemma sim_txs_None:
  assumes "\<forall>tx \<in> set txs. te_caller (ho_tx_env h tx) = tx_signer tx \<and> fmlookup nonces (tx_signer tx) \<noteq> None"
    and "length txs = length rs"
  shows "sim_txs h mode basefee nonces i txs rs c = None \<longleftrightarrow>
    (\<exists>k < length txs. tx_panics h mode basefee nonces (i + k) (txs ! k))"
  using assms
proof (induction h mode basefee nonces i txs rs c rule: sim_txs.induct)
  case (3 h mode basefee nonces i tx txs r rs c)
  have step: "sim_tx h mode basefee nonces i tx r c = None \<longleftrightarrow> tx_panics h mode basefee nonces i tx"
    by (rule sim_tx_None) (use 3(2) in simp_all)
  show ?case
  proof (cases "sim_tx h mode basefee nonces i tx r c")
    case None
    with step show ?thesis by (auto intro!: exI [of _ 0])
  next
    case (Some c1)
    with 3 step show ?thesis by (auto simp: Ex_less_Suc2)
  qed
qed simp_all

text \<open>The state and the wait have the transactions: the round replays the block.\<close>

lemma parity_step_replays:
  assumes "su_block_hash u \<noteq> 0" and "ss_header s = Some t" and "wait_txs polls (su_block u) 0 = Some b"
    and "receipts s (su_block u) = Some rs" and "length (bt_txs b) = length rs"
  shows "parity_step h basefee_of mode ms polls u s r =
    (case sim_txs h mode (basefee_of t (build_next_block_attributes t (ss_withdrawals s)))
            (last_nonces (bt_txs b)) 0 (bt_txs b) rs counts_zero of
       None \<Rightarrow> Panicked | Some c \<Rightarrow> Replayed (add_block (su_block u) (bt_txs b) c ms r))"
  using assms by (simp add: parity_step_def Let_def)

section \<open>The report\<close>

text \<open>The report of a run in \<open>mode\<close> adds up.\<close>

definition report_wf :: "parity_mode \<Rightarrow> parity_report \<Rightarrow> bool" where
  "report_wf mode r \<longleftrightarrow> pr_parity_mode r = Some mode
    \<and> (pr_first_block r = None) = (pr_blocks_simulated r = 0)
    \<and> (pr_last_block r = None) = (pr_blocks_simulated r = 0)
    \<and> pr_total_contract_calls r \<le> pr_total_txs r \<and> pr_total_eip7702_txs r \<le> pr_total_txs r
    \<and> unat (pr_total_parity_call r) + unat (pr_total_parity_mismatch_call r)
        \<le> (if in_call mode then unat (pr_total_txs r) else 0)
    \<and> unat (pr_total_parity_simulate r) + unat (pr_total_parity_mismatch_simulate r)
        \<le> (if in_simulate mode then unat (pr_total_txs r) else 0)"

definition report_room :: "nat \<Rightarrow> parity_report \<Rightarrow> bool" where
  "report_room k r \<longleftrightarrow> unat (pr_blocks_simulated r) \<le> k \<and> unat (pr_total_txs r) \<le> k * 2 ^ 31"

lemma i32_as_u64:
  assumes "unat x < 2 ^ 31"
  shows "unat (i32_as_u64 x) = unat x"
proof -
  from assms have "int (unat x) < int (2 ^ 31)" by (simp only: of_nat_less_iff)
  then have "uint x < 2 ^ 31" by simp
  moreover have "- (2 ^ 31) \<le> uint x" by (rule order_trans [OF _ uint_ge_0]) simp
  ultimately have "sint x = uint x" by (simp add: sint_uint signed_take_bit_int_eq_self)
  then have "(of_int (sint x) :: u64) = of_int (uint x)" by (rule arg_cong)
  then have s: "(scast x :: u64) = ucast x" by simp
  have "uint (ucast x :: u64) = uint x" by (rule uint_up_ucast) (simp add: is_up)
  then have "int (unat (scast x :: u64)) = int (unat x)" by (simp add: s)
  then show ?thesis unfolding i32_as_u64_def by (simp only: of_nat_eq_iff)
qed

lemma eip7702_count_eq: "eip7702_count txs = of_nat (length (filter (\<lambda>tx. tx_ty tx = 4) txs))"
proof -
  have "fold (\<lambda>tx n. if tx_ty tx = 4 then n + 1 else n) txs n
      = n + (of_nat (length (filter (\<lambda>tx. tx_ty tx = 4) txs)) :: i32)" for n
    by (induction txs arbitrary: n) (simp_all add: algebra_simps)
  from this [of 0] show ?thesis by (simp add: eip7702_count_def)
qed

lemma eip7702_count_le: "unat (eip7702_count txs) \<le> length txs"
proof -
  have "unat (eip7702_count txs) \<le> length (filter (\<lambda>tx. tx_ty tx = 4) txs)"
    by (simp add: eip7702_count_eq unat_of_nat)
  also have "\<dots> \<le> length txs" by simp
  finally show ?thesis .
qed

lemma unat_add_le: "unat (a + b :: u64) \<le> unat a + unat b"
  by (simp add: unat_word_ariths)

lemma unat_add_small: "unat a + n < 2 ^ 64 \<Longrightarrow> unat (a + of_nat n :: u64) = unat a + n"
  by (simp add: unat_word_ariths unat_of_nat)

lemma add_block_wf:
  assumes wf: "report_wf mode r" and room: "report_room k r" and k: "k < 2 ^ 32"
    and len: "length txs < 2 ^ 31" and t: "tally mode (length txs) j c"
  shows "report_wf mode (add_block block txs c ms r)" and "report_room (Suc k) (add_block block txs c ms r)"
proof -
  have "(k::nat) * 2 ^ 31 + 2 ^ 31 \<le> 2 ^ 63" using k by simp
  with room len have small: "unat (pr_total_txs r) + length txs < 2 ^ 64"
    by (simp add: report_room_def)
  note txs = unat_add_small [OF this]
  have "unat (pr_blocks_simulated r) + 1 < 2 ^ 64" using room k by (simp add: report_room_def)
  then have blocks: "unat (pr_blocks_simulated r + 1) = unat (pr_blocks_simulated r) + 1"
    using unat_add_small [of "pr_blocks_simulated r" 1] by simp
  then have nz: "pr_blocks_simulated r + 1 \<noteq> 0" by (metis add_is_0 unat_0 zero_neq_one)
  show "report_room (Suc k) (add_block block txs c ms r)"
    using room len blocks txs by (simp add: report_room_def add_block_def update_block_range_def Let_def)
  from t len have le: "unat (ct_contract_calls c) \<le> length txs"
      "unat (ct_parity_call c) + unat (ct_parity_call_mismatch c) \<le> (if in_call mode then length txs else 0)"
      "unat (ct_parity_sim c) + unat (ct_parity_sim_mismatch c) \<le> (if in_simulate mode then length txs else 0)"
    by (auto simp: tally_def sum_defs word_le_nat_alt split: if_splits)
  have lt: "x < 2 ^ 31" if "x \<le> length txs" for x using that len by simp
  have each: "unat (ct_parity_call c) \<le> length txs" "unat (ct_parity_call_mismatch c) \<le> length txs"
      "unat (ct_parity_sim c) \<le> length txs" "unat (ct_parity_sim_mismatch c) \<le> length txs"
    using le(2,3) by (simp_all split: if_splits)
  have c: "unat (i32_as_u64 (ct_contract_calls c)) = unat (ct_contract_calls c)"
      "unat (i32_as_u64 (ct_parity_call c)) = unat (ct_parity_call c)"
      "unat (i32_as_u64 (ct_parity_call_mismatch c)) = unat (ct_parity_call_mismatch c)"
      "unat (i32_as_u64 (ct_parity_sim c)) = unat (ct_parity_sim c)"
      "unat (i32_as_u64 (ct_parity_sim_mismatch c)) = unat (ct_parity_sim_mismatch c)"
      "unat (i32_as_u64 (eip7702_count txs)) = unat (eip7702_count txs)"
    by (simp_all only: i32_as_u64 lt le(1) each eip7702_count_le)
  note bounds = unat_add_le [of "pr_total_contract_calls r" "i32_as_u64 (ct_contract_calls c)"]
    unat_add_le [of "pr_total_eip7702_txs r" "i32_as_u64 (eip7702_count txs)"]
    unat_add_le [of "pr_total_parity_call r" "i32_as_u64 (ct_parity_call c)"]
    unat_add_le [of "pr_total_parity_mismatch_call r" "i32_as_u64 (ct_parity_call_mismatch c)"]
    unat_add_le [of "pr_total_parity_simulate r" "i32_as_u64 (ct_parity_sim c)"]
    unat_add_le [of "pr_total_parity_mismatch_simulate r" "i32_as_u64 (ct_parity_sim_mismatch c)"]
  have w: "pr_total_contract_calls r + i32_as_u64 (ct_contract_calls c) \<le> pr_total_txs r + of_nat (length txs)"
      "pr_total_eip7702_txs r + i32_as_u64 (eip7702_count txs) \<le> pr_total_txs r + of_nat (length txs)"
    using wf bounds(1,2) c(1,6) le(1) eip7702_count_le [of txs] txs
    by (simp_all add: report_wf_def word_le_nat_alt)
  have v: "unat (pr_total_parity_call r + i32_as_u64 (ct_parity_call c))
        + unat (pr_total_parity_mismatch_call r + i32_as_u64 (ct_parity_call_mismatch c))
        \<le> (if in_call mode then unat (pr_total_txs r + of_nat (length txs)) else 0)"
      "unat (pr_total_parity_simulate r + i32_as_u64 (ct_parity_sim c))
        + unat (pr_total_parity_mismatch_simulate r + i32_as_u64 (ct_parity_sim_mismatch c))
        \<le> (if in_simulate mode then unat (pr_total_txs r + of_nat (length txs)) else 0)"
    unfolding txs using wf bounds(3-6) c(2-5) le(2,3)
    by (simp_all add: report_wf_def split: if_splits)
  let ?r = "add_block block txs c ms r"
  have f: "pr_parity_mode ?r = pr_parity_mode r" "(pr_first_block ?r = None) = (pr_blocks_simulated ?r = 0)"
      "(pr_last_block ?r = None) = (pr_blocks_simulated ?r = 0)"
    using nz by (auto simp: add_block_def update_block_range_def Let_def)
  have g: "pr_total_txs ?r = pr_total_txs r + of_nat (length txs)"
      "pr_total_contract_calls ?r = pr_total_contract_calls r + i32_as_u64 (ct_contract_calls c)"
      "pr_total_eip7702_txs ?r = pr_total_eip7702_txs r + i32_as_u64 (eip7702_count txs)"
      "pr_total_parity_call ?r = pr_total_parity_call r + i32_as_u64 (ct_parity_call c)"
      "pr_total_parity_mismatch_call ?r = pr_total_parity_mismatch_call r + i32_as_u64 (ct_parity_call_mismatch c)"
      "pr_total_parity_simulate ?r = pr_total_parity_simulate r + i32_as_u64 (ct_parity_sim c)"
      "pr_total_parity_mismatch_simulate ?r = pr_total_parity_mismatch_simulate r + i32_as_u64 (ct_parity_sim_mismatch c)"
    by (simp_all add: add_block_def update_block_range_def Let_def)
  from wf have "pr_parity_mode ?r = Some mode" by (simp add: report_wf_def f)
  with f(2,3) w v show "report_wf mode ?r" unfolding report_wf_def g by blast
qed

lemma parity_step_Replayed:
  fixes s :: "('c, 'w, 'l) state_snapshot"
  assumes "parity_step h basefee_of mode ms polls u s r = Replayed r'"
  shows "\<exists>j b (rs :: 'l receipt list) basefee c. polls j = Some b \<and> bt_block b = su_block u \<and> length (bt_txs b) = length rs
    \<and> sim_txs h mode basefee (last_nonces (bt_txs b)) 0 (bt_txs b) rs counts_zero = Some c
    \<and> r' = add_block (su_block u) (bt_txs b) c ms r"
proof -
  from assms obtain t b rs where b: "wait_txs polls (su_block u) 0 = Some b" and
    rs: "ss_header s = Some t" "receipts s (su_block u) = Some rs" "length (bt_txs b) = length rs" and
    nz: "su_block_hash u \<noteq> 0"
    by (auto simp: parity_step_def Let_def split: if_splits option.splits)
  from wait_returns [OF b] obtain j where "polls j = Some b" "bt_block b = su_block u" by blast
  moreover from assms parity_step_replays [OF nz rs(1) b rs(2,3), of h basefee_of mode ms r] obtain c where
    "sim_txs h mode (basefee_of t (build_next_block_attributes t (ss_withdrawals s)))
      (last_nonces (bt_txs b)) 0 (bt_txs b) rs counts_zero = Some c"
    "r' = add_block (su_block u) (bt_txs b) c ms r"
    by (auto split: option.splits)
  ultimately show ?thesis using rs(3) by blast
qed

lemma parity_step_wf:
  fixes s :: "('c, 'w, 'l) state_snapshot"
  assumes "parity_step h basefee_of mode ms polls u s r = Replayed r'"
    and "report_wf mode r" and "report_room k r" and "k < 2 ^ 32"
    and "\<forall>j b. polls j = Some b \<longrightarrow> length (bt_txs b) < 2 ^ 31"
  shows "report_wf mode r'" and "report_room (Suc k) r'"
proof -
  from parity_step_Replayed [OF assms(1)] obtain j b basefee c and rs :: "'l receipt list" where
    b: "polls j = Some b" and
    c: "sim_txs h mode basefee (last_nonces (bt_txs b)) 0 (bt_txs b) rs counts_zero = Some c" and
    r': "r' = add_block (su_block u) (bt_txs b) c ms r" by blast
  from b assms(5) have len: "length (bt_txs b) < 2 ^ 31" by blast
  from sim_txs_tally [OF c tally_zero] len have
    "tally mode (length (bt_txs b)) (executed h basefee (last_nonces (bt_txs b)) 0 (bt_txs b)) c" by simp
  from add_block_wf [OF assms(2-4) len this] show "report_wf mode r'" "report_room (Suc k) r'"
    unfolding r' by simp_all
qed

lemma report_room_mono: "report_room k r \<Longrightarrow> k \<le> k' \<Longrightarrow> report_room k' r"
proof -
  assume r: "report_room k r" and "k \<le> k'"
  then have "k * 2 ^ 31 \<le> k' * 2 ^ 31" by simp
  with r \<open>k \<le> k'\<close> show ?thesis unfolding report_room_def by linarith
qed

lemma parity_rounds_wf:
  assumes "parity_rounds basefee_of mode os r = Some r'"
    and "report_wf mode r" and "report_room k r" and "k + length os < 2 ^ 32"
    and "\<forall>ro \<in> set os. \<forall>j b. ro_polls ro j = Some b \<longrightarrow> length (bt_txs b) < 2 ^ 31"
  shows "report_wf mode r' \<and> report_room (k + length os) r'"
  using assms
proof (induction os arbitrary: r k)
  case Nil
  then show ?case by simp
next
  case (Cons ro os)
  let ?step = "parity_step (ro_host ro) basefee_of mode (ro_elapsed_ms ro) (ro_polls ro) (ro_update ro)
    (ro_snapshot ro) r"
  have room: "report_room (Suc k) r" by (rule report_room_mono [OF Cons.prems(3)]) simp
  show ?case
  proof (cases ?step)
    case (Skipped why)
    with Cons.IH [OF _ Cons.prems(2) room] Cons.prems show ?thesis by simp
  next
    case (Replayed r1)
    have "k < 2 ^ 32" using Cons.prems(4) by simp
    from parity_step_wf [OF Replayed Cons.prems(2,3) this] Cons.prems(5)
    have "report_wf mode r1" "report_room (Suc k) r1" by simp_all
    with Cons.IH [of r1 "Suc k"] Replayed Cons.prems show ?thesis by simp
  qed (use Cons.prems in simp_all)
qed

lemma report_start_wf:
  "report_wf mode (report_default\<lparr>pr_parity_mode := Some mode\<rparr>)"
  "report_room 0 (report_default\<lparr>pr_parity_mode := Some mode\<rparr>)"
  by (simp_all add: report_wf_def report_room_def report_default_def)

section \<open>A sample block, for the witnesses\<close>

definition demo_tx :: "address \<Rightarrow> u64 \<Rightarrow> bytes \<Rightarrow> transaction" where
  "demo_tx signer nonce input = \<lparr>tx_signer = signer, tx_nonce = nonce, tx_ty = 2, tx_to = Some 5,
     tx_gas_limit = 21000, tx_value = 0, tx_input = input, tx_chain_id = Some 1,
     tx_max_fee_per_gas = 10, tx_max_priority_fee_per_gas = None, tx_access_list = None,
     tx_blob_versioned_hashes = None, tx_authorization_list = None\<rparr>"

text \<open>Every call returns one byte; the node answers with \<open>out\<close>.\<close>

definition demo_host :: "bytes \<Rightarrow> (unit, unit) host" where
  "demo_host out = \<lparr>
     ho_tx_env = (\<lambda>tx. \<lparr>te_caller = tx_signer tx, te_nonce = tx_nonce tx, te_gas_price = 1, te_rest = ()\<rparr>),
     ho_transact = (\<lambda>i env. Inr \<lparr>xr_success = True, xr_output = Some [1], xr_gas_used = 21000\<rparr>),
     ho_call = (\<lambda>i req. Inr out), ho_simulate = (\<lambda>i req. Inr [[out]])\<rparr>"

definition demo_txs :: "transaction list" where
  "demo_txs = [demo_tx 3 7 [], demo_tx 3 8 [1, 2]]"

definition demo_receipts :: "nat receipt list" where
  "demo_receipts = [\<lparr>rc_status = True, rc_logs = []\<rparr>, \<lparr>rc_status = False, rc_logs = []\<rparr>]"

lemmas demo_block_defs = demo_tx_def demo_host_def demo_txs_def demo_receipts_def

definition demo_counts :: counts where
  "demo_counts = counts_zero\<lparr>ct_success := 1, ct_mismatch := 1, ct_parity_call := 2, ct_parity_sim := 2,
     ct_gas := 42000\<rparr>"

lemma demo_nonces: "fmlookup (last_nonces demo_txs) 3 = Some 8"
  by (simp add: last_nonces_largest largest_def claimed_def claimed_by_def demo_block_defs)

lemma demo_block_run:
  "sim_txs (demo_host [1]) Both 9 (last_nonces demo_txs) 0 demo_txs demo_receipts counts_zero = Some demo_counts"
  using demo_nonces
  by (simp add: demo_block_defs demo_counts_def counts_zero_def sim_tx_def adjusted_env_def Let_def
      count_status_def compare_call_def compare_simulate_def call_verdict_def simulate_verdict_def
      compare_output_def count_call_def count_sim_def local_revert_ok_def unwrap_bytes_def
      decode_revert_message_def)


section \<open>Properties\<close>

text \<open>
  C26: after a reorg is accepted and announced, the loop waits for transactions that no one
  will ever provide: the writer task only remembers committed blocks, so unless a commit ends at the
  very same height, before or after, the round never ends, and neither Ctrl+C nor a later update is
  looked at any more.
\<close>

theorem reorg_hangs_replay:
  fixes cm :: "('c, 'w, 'l) changeset_manager"
  assumes "handle_notification E ob (ChainReorged old new, fr) cm = Some cm'"
    and "EfUpdate u \<in> set (drop (length (cm_trace cm)) (cm_trace cm'))" and "su_block_hash u \<noteq> 0"
    and "\<forall>c t. ChainCommitted c \<in> set ns \<longrightarrow> chain_tip_of c = Some t \<longrightarrow> sh_number t \<noteq> su_block u"
    and "\<forall>k. \<exists>m. polls k = latest_txs txs_of (take m ns)"
  shows "parity_step h basefee_of mode ms polls u (st_inner (cm_state cm')) r = Hangs"
proof -
  obtain s where next_s: "next_snapshot E ob (ChainReorged old new, fr) cm = Some s"
    and s: "st_inner (cm_state cm') = s"
    and tr: "cm_trace cm' = cm_trace cm @ [EfFlush, EfSwap s] @ told (ChainReorged old new) s cm"
    using assms(1) by (auto simp: handle_notification_eq)
  have "\<not> ss_stale s" using assms(2) by (auto simp: tr told_def split: if_splits)
  with next_s obtain t where "ss_header s = Some t"
    by (auto simp: header_simps mark_stale_def chain_tip_of_def extract_block_data_def
        split: option.splits if_splits)
  moreover have "wait_txs polls (su_block u) 0 = None"
  proof (rule wait_hangs)
    fix j b assume b: "polls j = Some b"
    from assms(5) obtain m where "polls j = latest_txs txs_of (take m ns)" by blast
    with b latest_from_commit [of txs_of "take m ns" b] obtain c t where
      "ChainCommitted c \<in> set (take m ns)" "chain_tip_of c = Some t" "bt_block b = sh_number t"
      by auto
    with assms(4) show "bt_block b \<noteq> su_block u" by (auto dest: in_set_takeD)
  qed
  ultimately show ?thesis using assms(3) by (simp add: parity_step_def s)
qed

theorem reorg_hangs_replay_witness:
  "\<exists>cm' :: (nat, nat, nat) changeset_manager. \<exists>u.
     handle_notification demo_env2 (\<lambda>_. [])
       (ChainReorged (demo_chain [(100, 7, 6)]) (demo_chain [(100, 8, 6), (101, 9, 8)]), no_caches)
       (demo_cm snapshot_default) = Some cm'
     \<and> EfUpdate u \<in> set (cm_trace cm')
     \<and> parity_step (demo_host []) (\<lambda>_ _. 0) Both 1
         (\<lambda>_. latest_txs (\<lambda>_. demo_txs)
           [ChainCommitted (demo_chain [(100, 7, 6)]) :: (nat, nat, nat) notification]) u
         (st_inner (cm_state cm')) report_default = Hangs"
proof -
  let ?n = "ChainReorged (demo_chain [(100, 7, 6)]) (demo_chain [(100, 8, 6), (101, 9, 8)])"
  let ?cm = "demo_cm snapshot_default :: (nat, nat, nat) changeset_manager"
  let ?u = "\<lparr>su_block = 101, su_block_hash = 9, su_generation = 1\<rparr>"
  let ?ns = "[ChainCommitted (demo_chain [(100, 7, 6)])] :: (nat, nat, nat) notification list"
  let ?polls = "\<lambda>_ :: nat. latest_txs (\<lambda>_. demo_txs) ?ns"
  obtain cm' where h: "handle_notification demo_env2 (\<lambda>_. []) (?n, no_caches) ?cm = Some cm'"
    using handle_None [of demo_env2 "\<lambda>_. []" ?n no_caches ?cm] by (auto simp: demo_chain_def)
  have v: "view cm' = \<lparr>cs_block = 101, cs_block_hash = 9, cs_stale = False\<rparr>"
    using tip.step_refines [OF h]
    by (simp add: demo2_defs view_def Let_def is_initial_def chain_tip_of_def)
  obtain s where "st_inner (cm_state cm') = s"
    and "cm_trace cm' = cm_trace ?cm @ [EfFlush, EfSwap s] @ told ?n s ?cm"
    using h by (auto simp: handle_notification_eq)
  with v have u: "EfUpdate ?u \<in> set (drop (length (cm_trace ?cm)) (cm_trace cm'))"
    by (simp add: view_def Let_def told_def demo_cm_def static_state_new_def)
  have "parity_step (demo_host []) (\<lambda>_ _. 0) Both 1 ?polls ?u (st_inner (cm_state cm')) report_default = Hangs"
  proof (rule reorg_hangs_replay [OF h u, where ns = ?ns and txs_of = "\<lambda>_. demo_txs"])
    show "\<forall>k. \<exists>m. ?polls k = latest_txs (\<lambda>_. demo_txs) (take m ?ns)"
      by (intro allI exI [of _ 1]) simp
  qed (simp_all add: chain_tip_of_def demo_chain_def demo_header_def)
  with h in_set_dropD [OF u] show ?thesis by blast
qed

text \<open>
  C27: replaying a block panics on exactly this: some transaction runs and the text decoder panics on
  its local output, or on a node's answer that differs from it.  Nonces, missing receipts and node
  errors never make it panic.
\<close>

theorem block_panics_iff:
  assumes "\<forall>tx \<in> set txs. te_caller (ho_tx_env h tx) = tx_signer tx" and "length txs = length rs"
  shows "sim_txs h mode basefee (last_nonces txs) 0 txs rs c = None \<longleftrightarrow>
    (\<exists>i < length txs. \<exists>res req. tx_result h basefee (last_nonces txs) i (txs ! i) = Some res
       \<and> tx_request h basefee (last_nonces txs) (txs ! i) = Some req
       \<and> (\<exists>b \<in> set (decoded h mode i (tx_ty (txs ! i)) req res). decode_revert_message b = None))"
proof -
  have p: "tx_panics h mode basefee nonces i tx \<longleftrightarrow>
      (\<exists>res req. tx_result h basefee nonces i tx = Some res \<and> tx_request h basefee nonces tx = Some req
        \<and> (\<exists>b \<in> set (decoded h mode i (tx_ty tx) req res). decode_revert_message b = None))" for nonces i tx
    by (simp add: tx_panics_def Bex_set split: option.split)
  have "\<forall>tx \<in> set txs. te_caller (ho_tx_env h tx) = tx_signer tx
      \<and> fmlookup (last_nonces txs) (tx_signer tx) \<noteq> None"
    using assms(1) sender_has_nonce by blast
  from sim_txs_None [OF this assms(2), of mode basefee 0 c] show ?thesis by (simp add: p)
qed

theorem block_panics_iff_witness:
  "sim_txs (demo_host demo_bomb) Call 9 (last_nonces demo_txs) 0 demo_txs demo_receipts counts_zero = None
   \<and> sim_txs (demo_host demo_bomb) Simulate 9 (last_nonces demo_txs) 0 demo_txs demo_receipts counts_zero = None"
proof -
  let ?h = "demo_host demo_bomb"
  have other: "demo_bomb \<noteq> [1]"
  proof
    assume "demo_bomb = [1]"
    then have "length demo_bomb = length [1 :: u8]" by (rule arg_cong)
    with demo_bomb_facts(1) show False by simp
  qed
  have d: "decoded ?h m 0 (tx_ty (demo_txs ! 0)) req \<lparr>xr_success = True, xr_output = Some [1], xr_gas_used = 21000\<rparr>
      = [[1], demo_bomb]" if "m = Call \<or> m = Simulate" for m req
    using that
  proof
    assume "m = Call"
    with other show ?thesis
      by (simp add: decoded_def node_outputs_def in_call_def in_simulate_def demo_host_def unwrap_bytes_def)
  next
    assume "m = Simulate"
    moreover have "tx_ty (demo_txs ! 0) = 2" by (simp add: demo_txs_def demo_tx_def)
    ultimately show ?thesis using other
      by (simp add: decoded_def node_outputs_def in_call_def in_simulate_def demo_host_def unwrap_bytes_def)
  qed
  have "sim_txs ?h m 9 (last_nonces demo_txs) 0 demo_txs demo_receipts counts_zero = None"
    if m: "m = Call \<or> m = Simulate" for m
  proof (rule iffD2 [OF block_panics_iff])
    let ?res = "\<lparr>xr_success = True, xr_output = Some [1], xr_gas_used = 21000\<rparr>"
    have res: "tx_result ?h 9 (last_nonces demo_txs) 0 (demo_txs ! 0) = Some ?res"
      using demo_nonces by (simp add: tx_result_def demo_host_def demo_txs_def demo_tx_def)
    obtain req where req: "tx_request ?h 9 (last_nonces demo_txs) (demo_txs ! 0) = Some req"
      using demo_nonces by (simp add: tx_request_def demo_host_def demo_txs_def demo_tx_def)
    have "demo_bomb \<in> set (decoded ?h m 0 (tx_ty (demo_txs ! 0)) req ?res)" by (simp add: d [OF m])
    with res req demo_bomb_panics
    have "\<exists>res req. tx_result ?h 9 (last_nonces demo_txs) 0 (demo_txs ! 0) = Some res
      \<and> tx_request ?h 9 (last_nonces demo_txs) (demo_txs ! 0) = Some req
      \<and> (\<exists>b \<in> set (decoded ?h m 0 (tx_ty (demo_txs ! 0)) req res). decode_revert_message b = None)"
      by blast
    moreover have "0 < length demo_txs" by (simp add: demo_txs_def)
    ultimately show "\<exists>i < length demo_txs. \<exists>res req.
      tx_result ?h 9 (last_nonces demo_txs) i (demo_txs ! i) = Some res
      \<and> tx_request ?h 9 (last_nonces demo_txs) (demo_txs ! i) = Some req
      \<and> (\<exists>b \<in> set (decoded ?h m i (tx_ty (demo_txs ! i)) req res). decode_revert_message b = None)"
      by blast
  qed (simp_all add: demo_host_def demo_txs_def demo_receipts_def)
  then show ?thesis by simp
qed







text \<open>
  C30: the report stays well-formed through every run that reaches it: it names a first and a
  last block exactly when it counted one, contract calls, EIP-7702 transactions and the verdicts of
  either method are among the transactions, and a method that the mode leaves out has no verdict.
\<close>

theorem parity_report_adds_up:
  assumes "parity_main basefee_of mode os = Some r" and "length os < 2 ^ 32"
    and "\<forall>ro \<in> set os. \<forall>j b. ro_polls ro j = Some b \<longrightarrow> length (bt_txs b) < 2 ^ 31"
  shows "report_wf mode r"
proof -
  have "0 + length os < 2 ^ 32" using assms(2) by simp
  from parity_rounds_wf [OF assms(1) [unfolded parity_main_def] report_start_wf this assms(3)]
  show ?thesis by simp
qed

text \<open>One round on block 100, whose transactions and receipts are the sample's.\<close>

definition demo_round :: "(unit, unit, nat, nat, nat) parity_round" where
  "demo_round = \<lparr>ro_host = demo_host [1], ro_elapsed_ms = 3,
     ro_polls = (\<lambda>_. Some \<lparr>bt_block = 100, bt_txs = demo_txs\<rparr>),
     ro_update = \<lparr>su_block = 100, su_block_hash = 7, su_generation = 1\<rparr>,
     ro_snapshot = snapshot_default\<lparr>ss_block := 100, ss_block_hash := 7,
       ss_header := Some (demo_header 100 7 6),
       ss_receipts_history := [\<lparr>brc_block = 100, brc_receipts = demo_receipts, brc_tx_hashes = [11, 12]\<rparr>]\<rparr>\<rparr>"

theorem parity_report_adds_up_witness:
  "\<exists>r. parity_main (\<lambda>_ _. 9) Both [demo_round] = Some r \<and> report_wf Both r \<and> pr_total_txs r = 2
     \<and> pr_total_parity_call r = 2"
proof -
  let ?r = "add_block 100 demo_txs demo_counts 3 (report_default\<lparr>pr_parity_mode := Some Both\<rparr>)"
  have w: "wait_txs (ro_polls demo_round) (su_block (ro_update demo_round)) 0
      = Some \<lparr>bt_block = 100, bt_txs = demo_txs\<rparr>"
    by (subst wait_txs.simps) (simp add: demo_round_def)
  have h: "ss_header (ro_snapshot demo_round) = Some (demo_header 100 7 6)"
    by (simp add: demo_round_def)
  have rs: "receipts (ro_snapshot demo_round) (su_block (ro_update demo_round)) = Some demo_receipts"
    by (simp add: demo_round_def receipts_def)
  have "parity_step (ro_host demo_round) (\<lambda>_ _. 9) Both (ro_elapsed_ms demo_round) (ro_polls demo_round)
      (ro_update demo_round) (ro_snapshot demo_round) (report_default\<lparr>pr_parity_mode := Some Both\<rparr>) = Replayed ?r"
    by (subst parity_step_replays [OF _ h w rs])
      (use demo_block_run in \<open>simp_all add: demo_round_def demo_txs_def demo_receipts_def\<close>)
  then have r: "parity_main (\<lambda>_ _. 9) Both [demo_round] = Some ?r" by (simp add: parity_main_def)
  have "report_wf Both ?r"
    by (rule parity_report_adds_up [OF r]) (simp_all add: demo_round_def demo_txs_def)
  moreover have "pr_total_txs ?r = 2" "pr_total_parity_call ?r = 2"
    by (simp_all add: add_block_def update_block_range_def Let_def report_default_def demo_txs_def
        demo_counts_def counts_zero_def i32_as_u64_def)
  ultimately show ?thesis using r by blast
qed

text \<open>
  C31: the rates of a well-formed report lie between 0 and 100, and up to \<open>2^53\<close> transactions
  a rate is 100 exactly when there were verdicts and none of them was a mismatch: the rounding of
  the division and of the multiplication never turns a mismatch into a full rate.
\<close>

theorem parity_rates_percent:
  assumes "report_wf mode r" and "unat (pr_total_txs r) < 2 ^ 53"
  shows "0 \<le> parity_rate_call r \<and> parity_rate_call r \<le> 100
    \<and> 0 \<le> parity_rate_simulate r \<and> parity_rate_simulate r \<le> 100
    \<and> (parity_rate_call r = 100 \<longleftrightarrow> pr_total_parity_mismatch_call r = 0 \<and> pr_total_parity_call r \<noteq> 0)
    \<and> (parity_rate_simulate r = 100 \<longleftrightarrow>
         pr_total_parity_mismatch_simulate r = 0 \<and> pr_total_parity_simulate r \<noteq> 0)"
proof -
  have c: "unat (pr_total_parity_call r) + unat (pr_total_parity_mismatch_call r) < 2 ^ 53"
    and s: "unat (pr_total_parity_simulate r) + unat (pr_total_parity_mismatch_simulate r) < 2 ^ 53"
    using assms by (auto simp: report_wf_def split: if_splits)
  then have c': "unat (pr_total_parity_call r) + unat (pr_total_parity_mismatch_call r) < 2 ^ 64"
    and s': "unat (pr_total_parity_simulate r) + unat (pr_total_parity_mismatch_simulate r) < 2 ^ 64"
    by simp_all
  from rate_facts [OF c'] c rate_facts [OF s'] s show ?thesis
    by (simp add: parity_rate_call_def parity_rate_simulate_def Let_def)
qed

theorem parity_rates_percent_witness:
  "parity_rate_call (report_default\<lparr>pr_parity_mode := Some Call, pr_first_block := Some 7,
     pr_last_block := Some 7, pr_blocks_simulated := 1, pr_total_txs := 4, pr_total_parity_call := 3,
     pr_total_parity_mismatch_call := 1\<rparr>) < 100"
proof -
  let ?r = "report_default\<lparr>pr_parity_mode := Some Call, pr_first_block := Some 7,
     pr_last_block := Some 7, pr_blocks_simulated := 1, pr_total_txs := 4, pr_total_parity_call := 3,
     pr_total_parity_mismatch_call := 1\<rparr>"
  have "report_wf Call ?r" by (simp add: report_wf_def report_default_def in_call_def in_simulate_def)
  from parity_rates_percent [OF this] show ?thesis by (simp add: report_default_def)
qed

end
