(* ===== verification/Spec2Isabelle.thy ===== *)
theory Spec2Isabelle
  imports Prelude Sim_Types Validation Snapshot Transitions Static_State Rpc Manager_Core Managers Hints
    Changeset Changeset_Props Coherence Builder Served_Manager System System_Truth System_Props
    Unit_Tests Mock_Rpc Manager_Tests Replay Live_Update Rex_Cons Pipeline Provider_Ext Provider_Pool Artifacts
    Live_Examples Float64 Bench_Db Bench_Props
    Parity_Example Parity_Report Parity_Run Parity_Loop Parity_Props
begin

text \<open>
  A verification development for reth-ext: a reth execution extension that publishes chain
  notifications (\<open>reth-rex\<close>), a client that subscribes to them (\<open>rex-cons\<close>), a
  simulator that keeps a warm copy of the state at the chain's tip for revm (\<open>rex-sim\<close>),
  and provider helpers (\<open>provider-ext\<close>).

  How the parts interact.  \<open>rex-sim\<close> holds one \<open>StaticState\<close>: a snapshot behind an atomic
  pointer and a generation.  Simulations read it through revm's \<open>DatabaseRef\<close>; what it
  does not hold they ask of one of four fetch managers (accounts, code, storage, block hashes),
  which call the node's RPC, reply, and cache the answer under the block hash the request
  carried.  One changeset manager consumes the notifications: it checks that the chain connects
  to the snapshot, flushes the four managers, builds the next snapshot from the old one, the
  flushed caches and the chain, swaps it in and tells its subscribers.

  Which theory models what (paths under \<open>src/crates\<close>):

  \<^item> \<open>Prelude\<close>: machine words, hash maps as finite maps, big-endian bytes, and the two
    interfaces of machines over input lists, \<open>machine_invariant\<close> and \<open>machine_refines\<close>.
  \<^item> \<open>Sim_Types\<close>: \<open>rex-sim/src/error.rs\<close>, \<open>fetch.rs\<close>: errors, configuration, requests, caches.
  \<^item> \<open>Validation\<close>: \<open>validation.rs\<close>: the continuity verdicts and their contract.
  \<^item> \<open>Snapshot\<close>: \<open>state.rs\<close>, \<open>StateSnapshot\<close>: the record and its bounded histories.
  \<^item> \<open>Transitions\<close>: \<open>transitions.rs\<close>: merging caches, applying diffs, the three builders.
  \<^item> \<open>Static_State\<close>: \<open>state.rs\<close>, \<open>StaticState\<close>: swap, guards (also interleaved with the writer,
    one atomic access at a time) and the four reads.
  \<^item> \<open>Rpc\<close>: \<open>rpc.rs\<close>: the typed client, over a node that is a parameter.
  \<^item> \<open>Manager_Core\<close>: \<open>manager_core.rs\<close>: the trait as a record, the manager's operations, and the
    manager among its spawned tasks as a step relation with an interpreter for it; the locale
    \<open>fetch_laws\<close> states what a spec owes the manager.
  \<^item> \<open>Managers\<close>: \<open>managers.rs\<close>: the four specs, each an interpretation of \<open>fetch_laws\<close>.
  \<^item> \<open>Hints\<close>: the account and the code manager side by side, linked by the channel of code
    registrations that \<open>lib.rs\<close> puts between them.
  \<^item> \<open>Changeset\<close>, \<open>Changeset_Props\<close>: \<open>changeset.rs\<close>: extraction from a chain, one handler per
    notification, the loop, and what holds over whole runs.
  \<^item> \<open>Coherence\<close>: no code of its own: the promise of the simulator as a whole, stated against
    an abstract world of accounts, slots and ancestors per block hash.
  \<^item> \<open>Builder\<close>: \<open>lib.rs\<close>: configuration, construction, spawning.
  \<^item> \<open>Served_Manager\<close>: a fetch manager seen from outside: it takes the requests of its channel in order
    and flushes when asked.
  \<^item> \<open>System\<close>: what \<open>lib.rs\<close> spawns, running: the changeset manager, the four fetch managers with
    their tasks, the reads and the node, one atomic action at a time.
  \<^item> \<open>System_Truth\<close>, \<open>System_Props\<close>: no code of their own: \<open>Coherence\<close> carried through every run
    of \<open>System\<close> with honest nodes and notifications.
  \<^item> \<open>Unit_Tests\<close>: the repository's unit tests of \<open>validation.rs\<close>, \<open>transitions.rs\<close> and \<open>state.rs\<close>,
    run on the model.
  \<^item> \<open>Mock_Rpc\<close>, \<open>Manager_Tests\<close>: the RPC mock of \<open>rpc.rs\<close> and the tests of \<open>manager_tests.rs\<close>, as runs of
    the manager under the schedule each test forces; the locale \<open>mock_laws\<close> states what makes them
    runs of the manager, and all four mocked calls interpret it.
  \<^item> \<open>Replay\<close>: \<open>rex-sim/examples/test_artifacts.rs\<close>.
  \<^item> \<open>Live_Update\<close>: \<open>rex-sim/examples/live_update.rs\<close>: the ready signal and the watch channel of
    updates beside the changeset manager.
  \<^item> \<open>Artifacts\<close>: \<open>artifacts.rs\<close> (and the file names of \<open>rex-cons/examples/subscribe.rs\<close>).
  \<^item> \<open>Rex_Cons\<close>: \<open>rex-cons/src/lib.rs\<close> and \<open>reth-rex/src/main.rs\<close>: back-off and reconnection, the
    broadcast channel and the forwarding tasks.
  \<^item> \<open>Pipeline\<close>: the two ends together, over any number of sessions.
  \<^item> \<open>Provider_Ext\<close>, \<open>Provider_Pool\<close>: \<open>provider-ext/src/lib.rs\<close>: the caching helpers, for one
    caller as functions and for any number of callers of one cache as interleaved programs.
  \<^item> \<open>Live_Examples\<close>: \<open>rex-sim/examples/verify_changed_accounts.rs\<close>.
  \<^item> \<open>Float64\<close>: no code of its own: the rounding of \<open>f64\<close> as the two reports below use it.
  \<^item> \<open>Bench_Db\<close>, \<open>Bench_Props\<close>: \<open>rex-sim/examples/bench_db.rs\<close>: arguments, choice of operations,
    worker threads interleaved access by access, report.
  \<^item> \<open>Parity_Example\<close>, \<open>Parity_Report\<close>, \<open>Parity_Run\<close>, \<open>Parity_Loop\<close>, \<open>Parity_Props\<close>:
    \<open>rex-sim/examples/parity.rs\<close>: its pure helpers, the report, the replay of one block, the loop over
    updates with the task that remembers transactions, and what holds of them.

  What the lemmas show.  The verdicts are exactly their contract.  The diff loops do not depend
  on hash-map order, and a commit gives every entry its documented source.  A manager's cache
  and replies are the node's answers to accepted requests with the same tag, through every
  interleaving of requests, completions and flushes; no request is lost or answered twice, and
  none is stuck.  The changeset manager implements a machine over tip and stale flag, whatever
  else goes on; it announces exactly what it installs.  Together: from a coherent snapshot, with
  a truthful node and bundles that describe the step they claim to, commits install the truth
  and reads of accounts, slots, block hashes and code return it (\<open>Coherence.commit_installs_truth\<close>,
  \<open>account_read_true\<close> and its siblings).  \<open>System_Props\<close> states the same of the simulator as it is
  built and spawned, with every task interleaved and the node moving: no state that it can reach
  holds anything but the truth, no read returns anything else, however late its answer comes,
  and no notification is ever stuck.  A hint the account manager has sent reaches the code
  manager before any later burst ends.  The cache helpers answer every one of concurrent callers
  with an answer of the node.  The replay program passes on every recording of a linked chain, and the update logger
  always ends with the last update logged.  The benchmark joins after a fixed number of steps with counters that
  add up, and the parity report adds up over whole runs, its rates rounded soundly.
  From the node's canonical stream to the simulator nothing is repeated, reordered or made up.
  The theorems also pin down where the code falls short: accounts destroyed by a block, recovery
  across a gap, reads before the first notification, a guard checked in the middle of a swap, a code
  request refused in the burst in which its hint arrives, the revert decoder, an
  update handled twice because its reader does not mark it, a replay that waits for ever, and in the
  parity example the wait after a reorg and the nonce an authorization can wrap.

  Parameters.  The RPC node, hashing and bytecode analysis (\<open>node\<close>, \<open>env\<close>), the contents of a
  reth chain and its bundle, transports and codecs are not code of this repository: they are
  arguments.  Hash-map iteration is one fixed enumeration, with order independence proved.
  \<open>usize\<close> is 64 bits.  Channels are lists, unbounded where the code's are, and time is only
  present as the choice of whether a deadline strikes.

  The EVM, transaction environments and the node behind the parity example are the record \<open>host\<close>,
  the random generator of the benchmark is the record \<open>rng\<close>.

  Bounds.  Epochs, generations and counters are 64-bit words; facts about them are stated for
  runs of fewer than \<open>2 ^ 64\<close> steps.  No recursion uses fuel: loops over inputs are structural,
  and \<open>Rex_Cons.subscribe\<close> terminates because each notification consumes a message.  The one loop
  that may not end, the parity example's wait for transactions, is \<open>wait_txs\<close>, whose value is then
  \<open>None\<close>.  Per-block counters of the parity example are 32 bits wide; its report is shown to add up for
  blocks of fewer than \<open>2 ^ 31\<close> transactions and fewer than \<open>2 ^ 32\<close> rounds.

  Not modelled: logging, the gRPC transport and protobuf code, process start-up, the EVM itself,
  and the tests of \<open>rpc.rs\<close> that need a running node.
\<close>

end
